(* ===== verification/Prelude.thy ===== *)
theory Prelude
  imports Main "HOL-Library.Word" "HOL-Library.Char_ord" "HOL-Library.List_Lexorder"
    "HOL-Library.Code_Target_Numeral"
begin

text \<open>
  Shared vocabulary of the development: the machine types the Rust code uses, the result type
  with its three outcomes (a value, an error value, a panic), the \<open>?\<close> operator, and the
  collections of simplification rules the component theories feed and use.
\<close>

section \<open>Machine types\<close>

text \<open>
  A byte is a HOL \<open>char\<close> (exactly 256 values), so byte literals can be written as characters
  and the order of byte strings (theories Char_ord and List_Lexorder) is the order Rust's
  \<open>Ord\<close> gives \<open>[u8]\<close> and \<open>String\<close>. A Rust \<open>String\<close> is its UTF-8 bytes.
  Points of time and durations are nanosecond counts.
\<close>

type_synonym byte = char
type_synonym bytes = "byte list"
type_synonym i64 = "64 word"
type_synonym u64 = "64 word"
type_synonym instant = nat
type_synonym duration = nat

abbreviation CR :: byte where "CR \<equiv> CHR 0x0D"
abbreviation LF :: byte where "LF \<equiv> CHR 0x0A"

abbreviation crlf :: bytes where "crlf \<equiv> [CR, LF]"

text \<open>The largest \<open>u64\<close>, \<open>i64\<close> and \<open>usize\<close> values of the 64-bit targets.\<close>

definition u64_max :: nat where "u64_max = 18446744073709551615"
definition i64_max :: nat where "i64_max = 9223372036854775807"
definition usize_max :: nat where "usize_max = 18446744073709551615"

definition u64_of :: "nat \<Rightarrow> u64" where
  "u64_of n = word_of_nat n"

text \<open>\<open>Duration::from_secs\<close>, \<open>Duration::from_millis\<close> and the readings back.\<close>

definition nanos_per_sec :: nat where "nanos_per_sec = 1000000000"
definition nanos_per_milli :: nat where "nanos_per_milli = 1000000"

definition from_secs :: "nat \<Rightarrow> duration" where "from_secs s = s * nanos_per_sec"
definition from_millis :: "nat \<Rightarrow> duration" where "from_millis ms = ms * nanos_per_milli"
definition as_secs :: "duration \<Rightarrow> nat" where "as_secs d = d div nanos_per_sec"
definition subsec_nanos :: "duration \<Rightarrow> nat" where "subsec_nanos d = d mod nanos_per_sec"
definition as_millis :: "duration \<Rightarrow> nat" where "as_millis d = d div nanos_per_milli"

section \<open>Results\<close>

text \<open>
  \<open>Ok\<close> and \<open>Err\<close> are Rust's \<open>Result\<close>; \<open>Panic\<close> is the unwinding (or aborting) exit that
  Rust code leaves through when the standard library refuses a request: an overflowing
  \<open>Instant + Duration\<close>, a capacity the allocator cannot grant, an exhausted stack.
\<close>

datatype ('e, 'a) result = Ok 'a | Err 'e | Panic

text \<open>The \<open>?\<close> operator: go on with the value, or leave with the error or the panic.\<close>

fun try_then :: "('e, 'a) result \<Rightarrow> ('a \<Rightarrow> ('e, 'b) result) \<Rightarrow> ('e, 'b) result" where
  "try_then (Ok x) f = f x"
| "try_then (Err e) f = Err e"
| "try_then Panic f = Panic"

fun map_ok :: "('a \<Rightarrow> 'b) \<Rightarrow> ('e, 'a) result \<Rightarrow> ('e, 'b) result" where
  "map_ok f (Ok x) = Ok (f x)"
| "map_ok f (Err e) = Err e"
| "map_ok f Panic = Panic"

fun map_err :: "('e \<Rightarrow> 'f) \<Rightarrow> ('e, 'a) result \<Rightarrow> ('f, 'a) result" where
  "map_err f (Ok x) = Ok x"
| "map_err f (Err e) = Err (f e)"
| "map_err f Panic = Panic"

text \<open>\<open>Option::ok_or\<close> and \<open>collect::<Result<Vec<_>, _>>()\<close>, which stops at the first error.\<close>

fun ok_or :: "'e \<Rightarrow> 'a option \<Rightarrow> ('e, 'a) result" where
  "ok_or e None = Err e"
| "ok_or e (Some x) = Ok x"

fun collect_results :: "('a \<Rightarrow> ('e, 'b) result) \<Rightarrow> 'a list \<Rightarrow> ('e, 'b list) result" where
  "collect_results f [] = Ok []"
| "collect_results f (x # xs) =
     try_then (f x) (\<lambda>y. try_then (collect_results f xs) (\<lambda>ys. Ok (y # ys)))"

named_theorems result_simps \<open>inversion of results built with the ? operator\<close>

lemma try_then_Ok_iff [result_simps]:
  "try_then r f = Ok y \<longleftrightarrow> (\<exists>x. r = Ok x \<and> f x = Ok y)"
  by (cases r) auto

lemma try_then_Err_iff [result_simps]:
  "try_then r f = Err e \<longleftrightarrow> r = Err e \<or> (\<exists>x. r = Ok x \<and> f x = Err e)"
  by (cases r) auto

lemma try_then_Panic_iff [result_simps]:
  "try_then r f = Panic \<longleftrightarrow> r = Panic \<or> (\<exists>x. r = Ok x \<and> f x = Panic)"
  by (cases r) auto

lemma map_err_Ok_iff [result_simps]: "map_err f r = Ok x \<longleftrightarrow> r = Ok x"
  by (cases r) auto

lemma map_err_Panic_iff [result_simps]: "map_err f r = Panic \<longleftrightarrow> r = Panic"
  by (cases r) auto

lemma map_err_Err_iff [result_simps]: "map_err f r = Err e \<longleftrightarrow> (\<exists>e'. r = Err e' \<and> e = f e')"
  by (cases r) auto

lemma map_ok_Ok_iff [result_simps]: "map_ok f r = Ok y \<longleftrightarrow> (\<exists>x. r = Ok x \<and> y = f x)"
  by (cases r) auto

lemma map_ok_Panic_iff [result_simps]: "map_ok f r = Panic \<longleftrightarrow> r = Panic"
  by (cases r) auto

lemma ok_or_Ok_iff [result_simps]: "ok_or e r = Ok x \<longleftrightarrow> r = Some x"
  by (cases r) auto

lemma ok_or_Err_iff [result_simps]: "ok_or e r = Err e' \<longleftrightarrow> r = None \<and> e' = e"
  by (cases r) auto

lemma ok_or_not_Panic [result_simps]: "ok_or e r \<noteq> Panic"
  by (cases r) auto

lemma collect_results_all_Ok:
  "(\<And>x. x \<in> set xs \<Longrightarrow> f x = Ok (g x)) \<Longrightarrow> collect_results f xs = Ok (map g xs)"
  by (induction xs) auto

lemma collect_results_not_Panic:
  "(\<And>x. x \<in> set xs \<Longrightarrow> f x \<noteq> Panic) \<Longrightarrow> collect_results f xs \<noteq> Panic"
  by (induction xs) (auto simp: result_simps)

lemma collect_results_length: "collect_results f xs = Ok ys \<Longrightarrow> length ys = length xs"
  by (induction xs arbitrary: ys) (auto simp: result_simps)

section \<open>Generic list facts\<close>

lemma nth_append_right: "i = length xs \<Longrightarrow> (xs @ y # ys) ! i = y"
  by simp

lemma drop_less_length: "0 < n \<Longrightarrow> n \<le> length xs \<Longrightarrow> length (drop n xs) < length xs"
  by simp

lemma sum_list_update_nat:
  fixes f :: "'a \<Rightarrow> nat"
  shows "i < length xs \<Longrightarrow>
    sum_list (map f (xs[i := x])) + f (xs ! i) = sum_list (map f xs) + f x"
proof (induction xs arbitrary: i)
  case (Cons y ys)
  then show ?case by (cases i) (auto simp: algebra_simps)
qed simp

lemma member_le_sum_list_nat:
  fixes f :: "'a \<Rightarrow> nat"
  shows "i < length xs \<Longrightarrow> f (xs ! i) \<le> sum_list (map f xs)"
  by (metis elem_le_sum_list length_map nth_map)

text \<open>A concatenation is free of duplicates when its pieces are and share no element.\<close>

lemma distinct_concat_nth:
  assumes "\<And>i. i < length xss \<Longrightarrow> distinct (xss ! i)"
    and "\<And>i j x. i < length xss \<Longrightarrow> j < length xss \<Longrightarrow> x \<in> set (xss ! i) \<Longrightarrow> x \<in> set (xss ! j) \<Longrightarrow> i = j"
  shows "distinct (concat xss)"
  using assms
proof (induction xss)
  case Nil
  then show ?case by simp
next
  case (Cons xs xss)
  have "distinct (concat xss)"
  proof (rule Cons.IH)
    show "distinct (xss ! i)" if "i < length xss" for i
      using Cons.prems(1) [of "Suc i"] that by simp
    show "i = j" if "i < length xss" "j < length xss" "x \<in> set (xss ! i)" "x \<in> set (xss ! j)" for i j x
      using Cons.prems(2) [of "Suc i" "Suc j" x] that by simp
  qed
  moreover have "x \<notin> set ys" if "x \<in> set xs" "ys \<in> set xss" for x ys
    using Cons.prems(2) [of 0 "Suc j" x for j] that by (auto simp: in_set_conv_nth [of ys xss])
  moreover have "distinct xs" using Cons.prems(1) [of 0] by simp
  ultimately show ?case by auto
qed

lemma set_concat_nth: "set (concat xss) = (\<Union>i < length xss. set (xss ! i))"
  unfolding set_concat set_conv_nth [of xss] by blast

end
