(* ===== verification/Rust_Text.thy ===== *)
theory Rust_Text
  imports Prelude
begin

text \<open>
  The parts of Rust's standard library on text that the code relies on: UTF-8 validation
  (\<open>str::from_utf8\<close>), decimal printing (\<open>to_string\<close> of unsigned and signed integers), decimal
  parsing (\<open>parse::<u64>\<close>, \<open>parse::<i64>\<close>), ASCII case conversion and ASCII whitespace
  splitting, with the round-trip facts the wire format needs.
\<close>

section \<open>UTF-8\<close>

definition code :: "byte \<Rightarrow> nat" where
  "code b = of_char b"

definition cont :: "byte \<Rightarrow> bool" where
  "cont b \<longleftrightarrow> 0x80 \<le> code b \<and> code b \<le> 0xBF"

definition in_range :: "nat \<Rightarrow> byte \<Rightarrow> nat \<Rightarrow> bool" where
  "in_range lo b hi \<longleftrightarrow> lo \<le> code b \<and> code b \<le> hi"

text \<open>
  The well-formed byte sequences of the Unicode standard (table 3-7), which is what
  \<open>str::from_utf8\<close> accepts: no overlong forms, no surrogates, nothing above U+10FFFF.
\<close>

fun utf8_tail :: "byte \<Rightarrow> bytes \<Rightarrow> bytes option" where
  "utf8_tail b bs =
     (if code b < 0x80 then Some bs
      else if in_range 0xC2 b 0xDF then
        (case bs of c1 # r \<Rightarrow> if cont c1 then Some r else None | _ \<Rightarrow> None)
      else if in_range 0xE0 b 0xEF then
        (case bs of
           c1 # c2 # r \<Rightarrow>
             if in_range (if code b = 0xE0 then 0xA0 else 0x80) c1
                         (if code b = 0xED then 0x9F else 0xBF) \<and> cont c2
             then Some r else None
         | _ \<Rightarrow> None)
      else if in_range 0xF0 b 0xF4 then
        (case bs of
           c1 # c2 # c3 # r \<Rightarrow>
             if in_range (if code b = 0xF0 then 0x90 else 0x80) c1
                         (if code b = 0xF4 then 0x8F else 0xBF) \<and> cont c2 \<and> cont c3
             then Some r else None
         | _ \<Rightarrow> None)
      else None)"

declare utf8_tail.simps [simp del]

lemma utf8_tail_append: "utf8_tail b bs = Some r \<Longrightarrow> utf8_tail b (bs @ ys) = Some (r @ ys)"
  by (simp add: utf8_tail.simps split: if_split_asm list.split_asm)

lemma utf8_tail_length: "utf8_tail b bs = Some r \<Longrightarrow> length r \<le> length bs"
  by (simp add: utf8_tail.simps split: if_split_asm list.split_asm)

function utf8 :: "bytes \<Rightarrow> bool" where
  "utf8 [] = True"
| "utf8 (b # bs) = (case utf8_tail b bs of None \<Rightarrow> False | Some r \<Rightarrow> utf8 r)"
  by pat_completeness auto
termination
  by (relation "measure length") (auto dest: utf8_tail_length)

definition ascii :: "bytes \<Rightarrow> bool" where
  "ascii bs \<longleftrightarrow> list_all (\<lambda>b. code b < 0x80) bs"

lemma ascii_utf8: "ascii bs \<Longrightarrow> utf8 bs"
  by (induction bs) (auto simp: ascii_def utf8_tail.simps)

lemma utf8_append: "utf8 xs \<Longrightarrow> utf8 (xs @ ys) = utf8 ys"
  by (induction xs rule: utf8.induct) (auto simp: utf8_tail_append split: option.splits)

text \<open>\<open>str::from_utf8\<close>: the text, or nothing.\<close>

definition from_utf8 :: "bytes \<Rightarrow> bytes option" where
  "from_utf8 bs = (if utf8 bs then Some bs else None)"

section \<open>Decimal digits\<close>

definition digit_char :: "nat \<Rightarrow> byte" where
  "digit_char d = ''0123456789'' ! d"

definition digit_val :: "byte \<Rightarrow> nat option" where
  "digit_val c = (if CHR ''0'' \<le> c \<and> c \<le> CHR ''9'' then Some (code c - 48) else None)"

lemma less_10_cases:
  "d < 10 \<Longrightarrow> d = 0 \<or> d = 1 \<or> d = 2 \<or> d = 3 \<or> d = 4 \<or> d = 5 \<or> d = 6 \<or> d = 7 \<or> d = 8 \<or> d = (9::nat)"
  by arith

lemma digit_val_char [simp]: "d < 10 \<Longrightarrow> digit_val (digit_char d) = Some d"
  using less_10_cases [of d] by (auto simp: digit_val_def digit_char_def code_def)

lemma digit_char_ascii: "d < 10 \<Longrightarrow> code (digit_char d) < 0x80"
  using less_10_cases [of d] by (auto simp: digit_char_def code_def)

lemma digit_char_plain [simp]:
  assumes "d < 10"
  shows "digit_char d \<noteq> CR" "digit_char d \<noteq> CHR ''-''" "digit_char d \<noteq> CHR ''+''"
  using less_10_cases [OF assms] by (auto simp: digit_char_def)

fun show_nat :: "nat \<Rightarrow> bytes" where
  "show_nat n = (if n < 10 then [digit_char n] else show_nat (n div 10) @ [digit_char (n mod 10)])"

declare show_nat.simps [simp del]

definition show_int :: "int \<Rightarrow> bytes" where
  "show_int i = (if i < 0 then CHR ''-'' # show_nat (nat (- i)) else show_nat (nat i))"

definition is_digit_byte :: "byte \<Rightarrow> bool" where
  "is_digit_byte c \<longleftrightarrow> (\<exists>d<10. c = digit_char d)"

lemma show_nat_digits: "c \<in> set (show_nat n) \<Longrightarrow> is_digit_byte c"
proof (induction n rule: show_nat.induct)
  case (1 n)
  have last: "is_digit_byte (digit_char (n mod 10))"
    unfolding is_digit_byte_def by (rule exI [of _ "n mod 10"]) simp
  have "n < 10 \<Longrightarrow> is_digit_byte (digit_char n)"
    by (auto simp: is_digit_byte_def)
  with 1 last show ?case
    by (subst (asm) (2) show_nat.simps) (auto split: if_splits)
qed

lemma show_nat_nonempty [simp]: "show_nat n \<noteq> []"
  by (subst show_nat.simps) simp

text \<open>\<open>from_str_radix(10)\<close> on the digits: every byte must be a digit.\<close>

fun parse_digits :: "nat \<Rightarrow> bytes \<Rightarrow> nat option" where
  "parse_digits acc [] = Some acc"
| "parse_digits acc (c # cs) =
     (case digit_val c of None \<Rightarrow> None | Some d \<Rightarrow> parse_digits (acc * 10 + d) cs)"

lemma parse_digits_append:
  "parse_digits acc (xs @ ys) =
     (case parse_digits acc xs of None \<Rightarrow> None | Some a \<Rightarrow> parse_digits a ys)"
  by (induction acc xs rule: parse_digits.induct) (auto split: option.splits)

lemma parse_digits_show_nat: "parse_digits 0 (show_nat n) = Some n"
proof (induction n rule: show_nat.induct)
  case (1 n)
  then show ?case
    by (subst show_nat.simps) (auto simp: parse_digits_append)
qed

text \<open>
  \<open>str::parse::<u64>\<close>: an optional leading plus, at least one digit, the value in range; a
  minus is an invalid digit of an unsigned type.
\<close>

definition parse_u64 :: "bytes \<Rightarrow> nat option" where
  "parse_u64 text =
     (let digits = (case text of c # r \<Rightarrow> if c = CHR ''+'' then r else text | [] \<Rightarrow> [])
      in if digits = [] then None
         else case parse_digits 0 digits of
                None \<Rightarrow> None
              | Some n \<Rightarrow> if n \<le> u64_max then Some n else None)"

text \<open>\<open>str::parse::<i64>\<close>: an optional sign, at least one digit, the value in range.\<close>

definition parse_int64 :: "bytes \<Rightarrow> int option" where
  "parse_int64 text =
     (let neg = (case text of c # r \<Rightarrow> c = CHR ''-'' | [] \<Rightarrow> False);
          digits = (case text of
                      c # r \<Rightarrow> if c = CHR ''+'' \<or> c = CHR ''-'' then r else text
                    | [] \<Rightarrow> [])
      in if digits = [] then None
         else case parse_digits 0 digits of
                None \<Rightarrow> None
              | Some n \<Rightarrow>
                  (let v = (if neg then - int n else int n)
                   in if - (int i64_max) - 1 \<le> v \<and> v \<le> int i64_max then Some v else None))"

lemma show_nat_Cons: obtains c cs where "show_nat n = c # cs" "is_digit_byte c"
  by (metis list.exhaust list.set_intros(1) show_nat_digits show_nat_nonempty)

lemma is_digit_byte_plain:
  assumes "is_digit_byte c"
  shows "c \<noteq> CR" "c \<noteq> CHR ''-''" "c \<noteq> CHR ''+''" "code c < 0x80"
  using assms by (auto simp: is_digit_byte_def digit_char_ascii)

lemma parse_u64_show_nat: "n \<le> u64_max \<Longrightarrow> parse_u64 (show_nat n) = Some n"
  using parse_digits_show_nat [of n]
  by (cases rule: show_nat_Cons [of n])
     (auto simp: parse_u64_def Let_def is_digit_byte_plain split: option.splits)

lemma parse_int64_show_nat:
  "n \<le> i64_max \<Longrightarrow> parse_int64 (show_nat n) = Some (int n)"
  using parse_digits_show_nat [of n]
  by (cases rule: show_nat_Cons [of n])
     (auto simp: parse_int64_def Let_def is_digit_byte_plain split: option.splits)

lemma parse_int64_show_neg:
  "0 < n \<Longrightarrow> n \<le> Suc i64_max \<Longrightarrow> parse_int64 (CHR ''-'' # show_nat n) = Some (- int n)"
  by (simp add: parse_int64_def Let_def parse_digits_show_nat)

lemma parse_int64_show_int:
  assumes "- (int i64_max) - 1 \<le> i" "i \<le> int i64_max"
  shows "parse_int64 (show_int i) = Some i"
proof (cases "i < 0")
  case True
  with assms have "0 < nat (- i)" "nat (- i) \<le> Suc i64_max" by auto
  from parse_int64_show_neg [OF this] True show ?thesis by (simp add: show_int_def)
next
  case False
  with assms have "nat i \<le> i64_max" by auto
  from parse_int64_show_nat [OF this] False show ?thesis by (simp add: show_int_def)
qed

lemma ascii_show_nat: "ascii (show_nat n)"
  by (auto simp: ascii_def list_all_iff is_digit_byte_plain dest: show_nat_digits)

lemma utf8_show_nat [simp]: "utf8 (show_nat n)"
  by (rule ascii_utf8 [OF ascii_show_nat])

lemma utf8_show_int [simp]: "utf8 (show_int i)"
  by (auto simp: show_int_def code_def utf8_tail.simps)

lemma show_int_nonempty [simp]: "show_int i \<noteq> []"
  by (auto simp: show_int_def)

section \<open>Lines without CRLF\<close>

fun crlf_free :: "bytes \<Rightarrow> bool" where
  "crlf_free (a # b # xs) = (\<not> (a = CR \<and> b = LF) \<and> crlf_free (b # xs))"
| "crlf_free _ = True"

lemma crlf_free_nth: "crlf_free xs \<Longrightarrow> Suc i < length xs \<Longrightarrow> \<not> (xs ! i = CR \<and> xs ! Suc i = LF)"
proof (induction xs arbitrary: i rule: crlf_free.induct)
  case (1 a b xs)
  then show ?case by (cases i) auto
qed auto

lemma crlf_free_no_CR: "CR \<notin> set xs \<Longrightarrow> crlf_free xs"
  by (induction xs rule: crlf_free.induct) auto

lemma crlf_free_show_nat [simp]: "crlf_free (show_nat n)"
  by (rule crlf_free_no_CR) (auto dest!: show_nat_digits dest: is_digit_byte_plain)

lemma crlf_free_show_int [simp]: "crlf_free (show_int i)"
  by (rule crlf_free_no_CR)
     (auto simp: show_int_def dest!: show_nat_digits dest: is_digit_byte_plain split: if_splits)

section \<open>ASCII case and whitespace\<close>

definition upper_byte :: "byte \<Rightarrow> byte" where
  "upper_byte c = (if CHR ''a'' \<le> c \<and> c \<le> CHR ''z'' then char_of (code c - 32) else c)"

definition to_ascii_uppercase :: "bytes \<Rightarrow> bytes" where
  "to_ascii_uppercase s = map upper_byte s"

definition is_ascii_whitespace :: "byte \<Rightarrow> bool" where
  "is_ascii_whitespace c \<longleftrightarrow>
     c = CHR '' '' \<or> c = CHR 0x09 \<or> c = LF \<or> c = CHR 0x0C \<or> c = CR"

text \<open>\<open>str::split_ascii_whitespace\<close>: the maximal runs of other bytes, in order.\<close>

fun split_ws :: "bytes \<Rightarrow> bytes \<Rightarrow> bytes list" where
  "split_ws cur [] = (if cur = [] then [] else [cur])"
| "split_ws cur (c # cs) =
     (if is_ascii_whitespace c
      then (if cur = [] then split_ws [] cs else cur # split_ws [] cs)
      else split_ws (cur @ [c]) cs)"

definition split_ascii_whitespace :: "bytes \<Rightarrow> bytes list" where
  "split_ascii_whitespace line = split_ws [] line"

lemma split_ws_words:
  "w \<in> set (split_ws cur cs) \<Longrightarrow> list_all (\<lambda>c. \<not> is_ascii_whitespace c) cur \<Longrightarrow>
     w \<noteq> [] \<and> list_all (\<lambda>c. \<not> is_ascii_whitespace c) w"
  by (induction cur cs rule: split_ws.induct) (auto split: if_splits)

end
