(* ===== verification/Resp.thy ===== *)
theory Resp
  imports Rust_Text
begin

text \<open>
  The data of crate \<open>rustkv-protocol\<close> (\<open>resp.rs\<close>, \<open>lib.rs\<close>) and its encoder
  (\<open>encoder.rs\<close>): the owned values the server sends, the borrowed frames the parser returns, the
  protocol errors, and \<open>encode_resp\<close>. \<open>frame_of\<close> forgets the ownership, so the round trip
  can be stated.
\<close>

section \<open>Frames, values, errors\<close>

datatype resp_frame =
    FSimpleString bytes
  | FError bytes
  | FInteger i64
  | FBulkString bytes
  | FArray "resp_frame list"
  | FNull

datatype resp_value =
    SimpleString bytes
  | Error bytes
  | Integer i64
  | BulkString bytes
  | Array "resp_value list"
  | Null

datatype protocol_error =
    Incomplete
  | InvalidTypeByte byte
  | InvalidInteger
  | InvalidUtf8
  | InvalidFormat string

text \<open>The \<open>Display\<close> texts that \<open>thiserror\<close> derives.\<close>

fun show_protocol_error :: "protocol_error \<Rightarrow> bytes" where
  "show_protocol_error Incomplete = ''incomplete RESP frame''"
| "show_protocol_error (InvalidTypeByte b) = ''invalid RESP type byte: '' @ show_nat (code b)"
| "show_protocol_error InvalidInteger = ''invalid integer''"
| "show_protocol_error InvalidUtf8 = ''invalid utf-8''"
| "show_protocol_error (InvalidFormat m) = ''invalid RESP format: '' @ m"

fun frame_of :: "resp_value \<Rightarrow> resp_frame" where
  "frame_of (SimpleString t) = FSimpleString t"
| "frame_of (Error t) = FError t"
| "frame_of (Integer n) = FInteger n"
| "frame_of (BulkString b) = FBulkString b"
| "frame_of (Array vs) = FArray (map frame_of vs)"
| "frame_of Null = FNull"

section \<open>The encoder\<close>

text \<open>
  \<open>encode_into\<close> appends to the output vector it is given; \<open>encode_list\<close> is its loop over the
  elements of an array.
\<close>

fun encode_into :: "resp_value \<Rightarrow> bytes \<Rightarrow> bytes"
and encode_list :: "resp_value list \<Rightarrow> bytes \<Rightarrow> bytes" where
  "encode_into (SimpleString text) out = out @ ''+'' @ text @ crlf"
| "encode_into (Error text) out = out @ ''-'' @ text @ crlf"
| "encode_into (Integer number) out = out @ '':'' @ show_int (sint number) @ crlf"
| "encode_into (BulkString bs) out =
     out @ ''$'' @ show_nat (length bs) @ crlf @ bs @ crlf"
| "encode_into (Array values) out =
     encode_list values (out @ ''*'' @ show_nat (length values) @ crlf)"
| "encode_into Null out = out @ ''$-1'' @ crlf"
| "encode_list [] out = out"
| "encode_list (v # vs) out = encode_list vs (encode_into v out)"

definition encode_resp :: "resp_value \<Rightarrow> bytes" where
  "encode_resp v = encode_into v []"

text \<open>The accumulator only ever grows at its end, so the encoder is compositional.\<close>

lemma encode_list_acc_if:
  "(\<And>v out. v \<in> set vs \<Longrightarrow> encode_into v out = out @ encode_into v []) \<Longrightarrow>
     encode_list vs out = out @ encode_list vs []"
proof (induction vs arbitrary: out)
  case (Cons v vs)
  have step: "encode_list vs x = x @ encode_list vs []" for x
    by (rule Cons.IH) (rule Cons.prems, simp)
  have head: "encode_into v out = out @ encode_into v []"
    by (rule Cons.prems) simp
  show ?case
    by (simp add: step [of "out @ encode_into v []"] step [of "encode_into v []"] head)
qed simp

lemma encode_into_acc: "encode_into v out = out @ encode_into v []"
proof (induction v arbitrary: out)
  case (Array vs)
  then have step: "encode_list vs x = x @ encode_list vs []" for x
    by (rule encode_list_acc_if)
  show ?case
    by (simp add: step [of "out @ CHR ''*'' # show_nat (length vs) @ crlf"]
        step [of "CHR ''*'' # show_nat (length vs) @ crlf"])
qed simp_all

lemma encode_list_acc: "encode_list vs out = out @ concat (map encode_resp vs)"
proof (induction vs arbitrary: out)
  case (Cons v vs)
  then show ?case
    using encode_into_acc [of v out] by (simp add: encode_resp_def)
qed simp

lemma encode_resp_simps [simp]:
  "encode_resp (SimpleString t) = ''+'' @ t @ crlf"
  "encode_resp (Error t) = ''-'' @ t @ crlf"
  "encode_resp (Integer n) = '':'' @ show_int (sint n) @ crlf"
  "encode_resp (BulkString b) = ''$'' @ show_nat (length b) @ crlf @ b @ crlf"
  "encode_resp (Array vs) =
     ''*'' @ show_nat (length vs) @ crlf @ concat (map encode_resp vs)"
  "encode_resp Null = ''$-1'' @ crlf"
  by (simp_all add: encode_resp_def encode_list_acc)

section \<open>Well-formed values\<close>

text \<open>
  What the types guarantee (a \<open>String\<close> is UTF-8, a vector is shorter than \<open>i64::MAX\<close>) and, in
  the two line-based kinds, what the wire format needs and the types do not: no CRLF in the text.
  \<open>depth\<close> is the array nesting, \<open>widest\<close> the longest array inside a value.
\<close>

fun wf_value :: "resp_value \<Rightarrow> bool" where
  "wf_value (SimpleString t) = (utf8 t \<and> crlf_free t)"
| "wf_value (Error t) = (utf8 t \<and> crlf_free t)"
| "wf_value (Integer n) = True"
| "wf_value (BulkString b) = (length b \<le> i64_max)"
| "wf_value (Array vs) = (length vs \<le> i64_max \<and> list_all wf_value vs)"
| "wf_value Null = True"

fun depth :: "resp_value \<Rightarrow> nat" where
  "depth (Array vs) = Suc (Max (set (0 # map depth vs)))"
| "depth _ = 1"

fun widest :: "resp_value \<Rightarrow> nat" where
  "widest (Array vs) = Max (set (length vs # map widest vs))"
| "widest _ = 0"

lemma depth_elem: "v \<in> set vs \<Longrightarrow> depth v < depth (Array vs)"
  by (auto simp: less_Suc_eq_le intro: Max_ge)

lemma widest_elem: "v \<in> set vs \<Longrightarrow> widest v \<le> widest (Array vs)"
  by (auto intro: Max_ge)

lemma widest_length: "length vs \<le> widest (Array vs)"
  by (auto intro: Max_ge)

end
