(* ===== verification/Kv_Error.thy ===== *)
theory Kv_Error
  imports Resp
begin

text \<open>
  The error values that cross component boundaries: \<open>KvError\<close> of \<open>rustkv-core/src/error.rs\<close> and
  the part of \<open>std::io::Error\<close> the server builds and inspects (a kind and a message), with their
  \<open>Display\<close> texts.
\<close>

datatype io_kind = NotFound | InvalidInput | InvalidData | UnexpectedEof | OtherKind

datatype io_error = IoError (io_kind: io_kind) (io_message: bytes)

fun show_io_error :: "io_error \<Rightarrow> bytes" where
  "show_io_error (IoError k m) = m"

datatype kv_error =
    Protocol protocol_error
  | Io io_error
  | InvalidCommand bytes
  | Storage bytes
  | Serde bytes

fun show_kv_error :: "kv_error \<Rightarrow> bytes" where
  "show_kv_error (Protocol e) = ''protocol error: '' @ show_protocol_error e"
| "show_kv_error (Io e) = ''io error: '' @ show_io_error e"
| "show_kv_error (InvalidCommand m) = ''invalid command: '' @ m"
| "show_kv_error (Storage m) = ''storage error: '' @ m"
| "show_kv_error (Serde m) = ''serialization error: '' @ m"

end
