(* ===== verification/Command.thy ===== *)
theory Command
  imports Kv_Error
begin

text \<open>
  \<open>rustkv-core/src/command.rs\<close>: the commands, and \<open>Command::from_resp\<close>, which turns a request
  frame into a command or a \<open>KvError\<close>. One definition per function of the source; the fields of
  the variants are in the source's order, \<open>u64\<close> fields are bounded naturals.
\<close>

section \<open>Commands\<close>

datatype command =
    Ping
  | Set (key: bytes) (val: bytes) (expire: "duration option")
  | SetPxAt (key: bytes) (val: bytes) (timestamp_ms: nat)
  | Get (key: bytes)
  | Del (keys: "bytes list")
  | Exists (key: bytes)
  | Keys
  | Expire (key: bytes) (seconds: nat)
  | ExpireAt (key: bytes) (timestamp_ms: nat)
  | Ttl (key: bytes)
  | FlushDb
  | Info
  | Unknown bytes

section \<open>Arguments\<close>

definition invalid :: "bytes \<Rightarrow> (kv_error, 'a) result" where
  "invalid m = Err (InvalidCommand m)"

definition arg_to_str :: "bytes \<Rightarrow> bytes \<Rightarrow> (kv_error, bytes) result" where
  "arg_to_str arg label = ok_or (InvalidCommand (label @ '' must be UTF-8'')) (from_utf8 arg)"

definition arg_to_owned_string :: "bytes \<Rightarrow> bytes \<Rightarrow> (kv_error, bytes) result" where
  "arg_to_owned_string arg label = arg_to_str arg label"

definition parse_u64_arg :: "bytes \<Rightarrow> bytes \<Rightarrow> (kv_error, nat) result" where
  "parse_u64_arg arg label =
     try_then (arg_to_str arg label) (\<lambda>text.
       ok_or (InvalidCommand (label @ '' must be a non-negative integer'')) (parse_u64 text))"

definition expect_arity :: "bytes list \<Rightarrow> nat \<Rightarrow> bytes \<Rightarrow> (kv_error, unit) result" where
  "expect_arity args expected command =
     (if length args = expected then Ok ()
      else invalid (command @ '' expects '' @ show_nat (expected - 1) @ '' argument(s), got ''
                    @ show_nat (length args - 1)))"

fun resp_value_to_arg :: "resp_frame \<Rightarrow> (kv_error, bytes) result" where
  "resp_value_to_arg (FSimpleString text) = Ok text"
| "resp_value_to_arg (FBulkString bs) = Ok bs"
| "resp_value_to_arg _ = invalid ''command arguments must be simple strings or bulk strings''"

definition inline_line_to_args :: "bytes \<Rightarrow> (kv_error, bytes list) result" where
  "inline_line_to_args line =
     (let args = split_ascii_whitespace line
      in if args = [] then invalid ''inline command must not be empty'' else Ok args)"

fun resp_to_args :: "resp_frame \<Rightarrow> (kv_error, bytes list) result" where
  "resp_to_args (FArray values) = collect_results resp_value_to_arg values"
| "resp_to_args (FSimpleString line) = inline_line_to_args line"
| "resp_to_args (FBulkString bs) =
     try_then (ok_or (InvalidCommand ''inline command must be UTF-8'') (from_utf8 bs))
       inline_line_to_args"
| "resp_to_args _ = invalid ''command must be a RESP array or inline string''"

section \<open>One parser per command\<close>

definition parse_ping :: "bytes list \<Rightarrow> (kv_error, command) result" where
  "parse_ping args = try_then (expect_arity args 1 ''PING'') (\<lambda>_. Ok Ping)"

definition parse_set :: "bytes list \<Rightarrow> (kv_error, command) result" where
  "parse_set args =
     (if length args \<noteq> 3 \<and> length args \<noteq> 5
      then invalid ''SET expects key value or key value EX|PX duration''
      else try_then (arg_to_owned_string (args ! 1) ''SET key'') (\<lambda>key.
        let val = args ! 2 in
        if length args = 5
        then try_then (arg_to_str (args ! 3) ''SET expire option'') (\<lambda>opt.
             let option = to_ascii_uppercase opt in
             try_then (parse_u64_arg (args ! 4) ''SET expire duration'') (\<lambda>amount.
               if option = ''EX'' then Ok (Set key val (Some (from_secs amount)))
               else if option = ''PX'' then Ok (Set key val (Some (from_millis amount)))
               else if option = ''PXAT'' then Ok (SetPxAt key val amount)
               else invalid (''unsupported SET expire option: '' @ option)))
        else Ok (Set key val None)))"

definition parse_get :: "bytes list \<Rightarrow> (kv_error, command) result" where
  "parse_get args =
     try_then (expect_arity args 2 ''GET'') (\<lambda>_.
       map_ok Get (arg_to_owned_string (args ! 1) ''GET key''))"

definition parse_del :: "bytes list \<Rightarrow> (kv_error, command) result" where
  "parse_del args =
     (if length args < 2 then invalid ''DEL expects at least one key''
      else map_ok Del (collect_results (\<lambda>arg. arg_to_owned_string arg ''DEL key'') (tl args)))"

definition parse_exists :: "bytes list \<Rightarrow> (kv_error, command) result" where
  "parse_exists args =
     try_then (expect_arity args 2 ''EXISTS'') (\<lambda>_.
       map_ok Exists (arg_to_owned_string (args ! 1) ''EXISTS key''))"

definition parse_keys :: "bytes list \<Rightarrow> (kv_error, command) result" where
  "parse_keys args =
     (if length args = 1 then Ok Keys
      else if length args = 2 \<and> args ! 1 = ''*'' then Ok Keys
      else invalid (''KEYS supports only zero arguments or '' @ [CHR 0x27] @ ''*'' @ [CHR 0x27]))"

definition parse_expire :: "bytes list \<Rightarrow> (kv_error, command) result" where
  "parse_expire args =
     try_then (expect_arity args 3 ''EXPIRE'') (\<lambda>_.
     try_then (arg_to_owned_string (args ! 1) ''EXPIRE key'') (\<lambda>key.
     try_then (parse_u64_arg (args ! 2) ''EXPIRE seconds'') (\<lambda>seconds. Ok (Expire key seconds))))"

definition parse_expire_at :: "bytes list \<Rightarrow> (kv_error, command) result" where
  "parse_expire_at args =
     try_then (expect_arity args 3 ''EXPIREAT'') (\<lambda>_.
     try_then (arg_to_owned_string (args ! 1) ''EXPIREAT key'') (\<lambda>key.
     try_then (parse_u64_arg (args ! 2) ''EXPIREAT timestamp_ms'') (\<lambda>ms. Ok (ExpireAt key ms))))"

definition parse_ttl :: "bytes list \<Rightarrow> (kv_error, command) result" where
  "parse_ttl args =
     try_then (expect_arity args 2 ''TTL'') (\<lambda>_.
       map_ok Ttl (arg_to_owned_string (args ! 1) ''TTL key''))"

definition parse_flushdb :: "bytes list \<Rightarrow> (kv_error, command) result" where
  "parse_flushdb args = try_then (expect_arity args 1 ''FLUSHDB'') (\<lambda>_. Ok FlushDb)"

definition parse_info :: "bytes list \<Rightarrow> (kv_error, command) result" where
  "parse_info args = try_then (expect_arity args 1 ''INFO'') (\<lambda>_. Ok Info)"

text \<open>The \<open>match\<close> on the upper-cased name; \<open>None\<close> is its last arm.\<close>

definition command_parser ::
  "bytes \<Rightarrow> (bytes list \<Rightarrow> (kv_error, command) result) option" where
  "command_parser normalized =
     (if normalized = ''PING'' then Some parse_ping
      else if normalized = ''SET'' then Some parse_set
      else if normalized = ''GET'' then Some parse_get
      else if normalized = ''DEL'' then Some parse_del
      else if normalized = ''EXISTS'' then Some parse_exists
      else if normalized = ''KEYS'' then Some parse_keys
      else if normalized = ''EXPIRE'' then Some parse_expire
      else if normalized = ''EXPIREAT'' then Some parse_expire_at
      else if normalized = ''TTL'' then Some parse_ttl
      else if normalized = ''FLUSHDB'' then Some parse_flushdb
      else if normalized = ''INFO'' then Some parse_info
      else None)"

definition command_of_args :: "bytes list \<Rightarrow> (kv_error, command) result" where
  "command_of_args args =
     (case args of
        [] \<Rightarrow> invalid ''command array must not be empty''
      | name # _ \<Rightarrow>
          try_then (arg_to_str name ''command'') (\<lambda>command_name.
            case command_parser (to_ascii_uppercase command_name) of
              Some parser \<Rightarrow> parser args
            | None \<Rightarrow> Ok (Unknown command_name)))"

definition from_resp :: "resp_frame \<Rightarrow> (kv_error, command) result" where
  "from_resp resp = try_then (resp_to_args resp) command_of_args"

section \<open>Well-formed commands\<close>

text \<open>What the field types of the Rust enum guarantee: keys are UTF-8, \<open>u64\<close>s are in range.\<close>

fun command_wf :: "command \<Rightarrow> bool" where
  "command_wf (Set k v e) =
     (utf8 k \<and> (case e of None \<Rightarrow> True | Some d \<Rightarrow> d \<le> from_secs u64_max))"
| "command_wf (SetPxAt k v ms) = (utf8 k \<and> ms \<le> u64_max)"
| "command_wf (Get k) = utf8 k"
| "command_wf (Del ks) = (ks \<noteq> [] \<and> list_all utf8 ks)"
| "command_wf (Exists k) = utf8 k"
| "command_wf (Expire k s) = (utf8 k \<and> s \<le> u64_max)"
| "command_wf (ExpireAt k ms) = (utf8 k \<and> ms \<le> u64_max)"
| "command_wf (Ttl k) = utf8 k"
| "command_wf (Unknown n) = utf8 n"
| "command_wf _ = True"

named_theorems command_parsers \<open>the parsers of the single commands\<close>

declare parse_ping_def [command_parsers] parse_set_def [command_parsers]
  parse_get_def [command_parsers] parse_del_def [command_parsers]
  parse_exists_def [command_parsers] parse_keys_def [command_parsers]
  parse_expire_def [command_parsers] parse_expire_at_def [command_parsers]
  parse_ttl_def [command_parsers] parse_flushdb_def [command_parsers]
  parse_info_def [command_parsers]

named_theorems arg_simps \<open>inversion of the argument readers\<close>

lemma invalid_simps [arg_simps]: "invalid m \<noteq> Ok x" "invalid m \<noteq> Panic"
  by (simp_all add: invalid_def)

lemma arg_to_str_Ok [arg_simps]: "arg_to_str arg label = Ok s \<longleftrightarrow> utf8 arg \<and> s = arg"
  by (auto simp: arg_to_str_def from_utf8_def)

lemma arg_to_str_not_Panic [arg_simps]: "arg_to_str arg label \<noteq> Panic"
  by (simp add: arg_to_str_def result_simps)

lemma arg_to_owned_string_Ok [arg_simps]:
  "arg_to_owned_string arg label = Ok s \<longleftrightarrow> utf8 arg \<and> s = arg"
  by (simp add: arg_to_owned_string_def arg_simps)

lemma arg_to_owned_string_not_Panic [arg_simps]: "arg_to_owned_string arg label \<noteq> Panic"
  by (simp add: arg_to_owned_string_def arg_simps)

lemma parse_u64_Some: "parse_u64 text = Some n \<Longrightarrow> n \<le> u64_max"
  by (auto simp: parse_u64_def Let_def split: if_splits option.splits)

lemma parse_u64_arg_Ok [arg_simps]:
  "parse_u64_arg arg label = Ok n \<longleftrightarrow> utf8 arg \<and> parse_u64 arg = Some n"
  by (auto simp: parse_u64_arg_def arg_simps result_simps)

lemma parse_u64_arg_not_Panic [arg_simps]: "parse_u64_arg arg label \<noteq> Panic"
  by (simp add: parse_u64_arg_def arg_simps result_simps)

lemma expect_arity_Ok [arg_simps]: "expect_arity args n c = Ok u \<longleftrightarrow> length args = n"
  by (simp add: expect_arity_def arg_simps)

lemma expect_arity_not_Panic [arg_simps]: "expect_arity args n c \<noteq> Panic"
  by (simp add: expect_arity_def arg_simps)

lemma collect_strings_Ok [arg_simps]:
  "collect_results (\<lambda>arg. arg_to_owned_string arg label) xs = Ok ys \<longleftrightarrow> list_all utf8 xs \<and> ys = xs"
  by (induction xs arbitrary: ys) (auto simp: arg_simps result_simps)

lemma from_millis_le_from_secs: "n \<le> u64_max \<Longrightarrow> from_millis n \<le> from_secs u64_max"
  by (simp add: from_millis_def from_secs_def nanos_per_milli_def nanos_per_sec_def)

lemma from_secs_mono: "n \<le> m \<Longrightarrow> from_secs n \<le> from_secs m"
  by (simp add: from_secs_def)

lemma parse_u64_durations:
  assumes "parse_u64 text = Some n"
  shows "from_secs n \<le> from_secs u64_max" "from_millis n \<le> from_secs u64_max"
  using parse_u64_Some [OF assms] by (auto intro: from_millis_le_from_secs from_secs_mono)

lemma tl_nonempty: "2 \<le> length xs \<Longrightarrow> tl xs \<noteq> []"
  by (cases xs) auto

lemma parser_wf:
  "command_parser name = Some parser \<Longrightarrow> parser args = Ok c \<Longrightarrow> command_wf c"
  by (auto simp: command_parser_def command_parsers arg_simps result_simps Let_def not_less
      dest: parse_u64_Some parse_u64_durations tl_nonempty split: if_splits)

lemma parser_not_Panic: "command_parser name = Some parser \<Longrightarrow> parser args \<noteq> Panic"
  by (auto simp: command_parser_def command_parsers arg_simps result_simps Let_def
      intro!: collect_results_not_Panic split: if_splits)

lemma resp_value_to_arg_not_Panic: "resp_value_to_arg f \<noteq> Panic"
  by (cases f) (simp_all add: arg_simps)

lemma resp_to_args_not_Panic: "resp_to_args r \<noteq> Panic"
  by (cases r rule: resp_to_args.cases)
     (simp_all add: result_simps arg_simps inline_line_to_args_def Let_def
       collect_results_not_Panic resp_value_to_arg_not_Panic)

lemma command_of_args_cases:
  assumes "command_of_args args = Ok c"
  obtains name rest parser where "args = name # rest"
      "command_parser (to_ascii_uppercase name) = Some parser" "parser args = Ok c"
    | name rest where "args = name # rest" "utf8 name" "c = Unknown name"
  using assms
  by (cases args) (auto simp: command_of_args_def arg_simps result_simps split: option.splits)

lemma collect_bulk: "collect_results resp_value_to_arg (map FBulkString args) = Ok args"
  by (induction args) auto

lemma from_resp_bulk_array [simp]:
  "from_resp (FArray (map FBulkString args)) = command_of_args args"
  by (simp add: from_resp_def collect_bulk)

lemma upper_byte_ascii: "code (upper_byte c) < 0x80 \<Longrightarrow> code c < 0x80"
  by (auto simp: upper_byte_def code_def less_eq_char_def split: if_splits)

lemma ascii_of_upper: "ascii (to_ascii_uppercase n) \<Longrightarrow> ascii n"
  by (auto simp: ascii_def to_ascii_uppercase_def list_all_iff dest: upper_byte_ascii)

lemma command_parser_ascii: "command_parser name = Some parser \<Longrightarrow> ascii name"
  by (auto simp: command_parser_def ascii_def code_def split: if_splits)

text \<open>A request whose name is known reaches exactly one parser.\<close>

lemma command_of_args_known:
  assumes "command_parser (to_ascii_uppercase name) = Some parser"
  shows "command_of_args (name # args) = parser (name # args)"
proof -
  have "utf8 name"
    by (rule ascii_utf8 [OF ascii_of_upper [OF command_parser_ascii [OF assms]]])
  with assms show ?thesis by (simp add: command_of_args_def arg_to_str_def from_utf8_def)
qed

section \<open>Properties\<close>

text \<open>
  C34: Whatever frame the peer sends, a command that is accepted satisfies the type invariants
  the database and the log rely on: keys are UTF-8, integers are in \<open>u64\<close>, expiries are durations
  of at most \<open>u64::MAX\<close> seconds, and \<open>DEL\<close> names at least one key.
\<close>

theorem from_resp_wf:
  assumes "from_resp r = Ok c"
  shows "command_wf c"
proof -
  from assms obtain args where "command_of_args args = Ok c"
    by (auto simp: from_resp_def result_simps)
  then show ?thesis
    by (cases rule: command_of_args_cases) (auto dest: parser_wf)
qed

theorem from_resp_wf_witness:
  "command_wf (Set ''k'' ''v'' (Some (from_secs 5)))"
  by (rule from_resp_wf [of "FArray (map FBulkString [''set'', ''k'', ''v'', ''ex'', ''5''])"]) code_simp

text \<open>
  Decoding a request never panics, on any frame: every index into the argument vector is
  guarded by a length check.
\<close>

theorem from_resp_no_panic: "from_resp r \<noteq> Panic"
  by (auto simp: from_resp_def command_of_args_def arg_simps result_simps resp_to_args_not_Panic
      dest: parser_not_Panic split: list.splits option.splits)

text \<open>
  Command names are case-insensitive: two requests that differ only in the ASCII case of a
  known name decode alike, arguments being untouched.
\<close>

theorem from_resp_case_insensitive:
  assumes "to_ascii_uppercase n = to_ascii_uppercase m"
    and "command_parser (to_ascii_uppercase m) \<noteq> None"
  shows "from_resp (FArray (map FBulkString (n # args))) = from_resp (FArray (map FBulkString (m # args)))"
proof -
  from assms(2) obtain parser where p: "command_parser (to_ascii_uppercase m) = Some parser" by auto
  have same: "parser (n # args) = parser (m # args)"
    using p
    by (auto simp: command_parser_def command_parsers expect_arity_def split: if_splits)
  show ?thesis
    unfolding from_resp_bulk_array command_of_args_known [OF p]
    using command_of_args_known [of n parser args] p assms(1) same by simp
qed

theorem from_resp_case_insensitive_witness:
  "from_resp (FArray (map FBulkString [''DeL'', ''a''])) = from_resp (FArray (map FBulkString [''DEL'', ''a'']))"
  by (rule from_resp_case_insensitive) code_simp+

text \<open>
  An inline request (a simple string) means the same as the array of its
  whitespace-separated words.
\<close>

theorem from_resp_inline:
  assumes "split_ascii_whitespace line \<noteq> []"
  shows "from_resp (FSimpleString line) = from_resp (FArray (map FBulkString (split_ascii_whitespace line)))"
  using assms by (simp add: from_resp_def collect_bulk inline_line_to_args_def)

theorem from_resp_inline_witness:
  "from_resp (FSimpleString '' expire  k 10'') = from_resp (FArray (map FBulkString [''expire'', ''k'', ''10'']))"
proof -
  have s: "split_ascii_whitespace '' expire  k 10'' = [''expire'', ''k'', ''10'']" by code_simp
  show ?thesis using from_resp_inline [of "'' expire  k 10''"] unfolding s by simp
qed

text \<open>The three options of \<open>SET\<close>.\<close>

definition set_variant :: "bytes \<Rightarrow> bytes \<Rightarrow> bytes \<Rightarrow> nat \<Rightarrow> command option" where
  "set_variant k v opt n =
     (if to_ascii_uppercase opt = ''EX'' then Some (Set k v (Some (from_secs n)))
      else if to_ascii_uppercase opt = ''PX'' then Some (Set k v (Some (from_millis n)))
      else if to_ascii_uppercase opt = ''PXAT'' then Some (SetPxAt k v n)
      else None)"

lemma set_variant_utf8: "set_variant k v opt n = Some c \<Longrightarrow> utf8 opt"
  by (rule ascii_utf8, rule ascii_of_upper)
     (auto simp: set_variant_def ascii_def code_def split: if_splits)

text \<open>
  C35: The grammar of \<open>SET\<close>, both directions: a request is accepted exactly when it has a UTF-8
  key and either no option, or one of \<open>EX\<close>, \<open>PX\<close>, \<open>PXAT\<close> in any case with a decimal \<open>u64\<close>, and
  then it means what the option says.
\<close>

theorem set_grammar:
  assumes "to_ascii_uppercase name = ''SET''"
  shows "from_resp (FArray (map FBulkString (name # args))) = Ok c \<longleftrightarrow>
     (\<exists>k v. args = [k, v] \<and> utf8 k \<and> c = Set k v None) \<or>
     (\<exists>k v opt amount n. args = [k, v, opt, amount] \<and> utf8 k \<and> utf8 amount \<and>
        parse_u64 amount = Some n \<and> set_variant k v opt n = Some c)"
proof -
  have p: "command_parser (to_ascii_uppercase name) = Some parse_set"
    by (simp add: assms command_parser_def)
  have three: "length args = 2 \<longleftrightarrow> (\<exists>k v. args = [k, v])"
    by (auto simp: length_Suc_conv numeral_2_eq_2)
  have five: "length args = 4 \<longleftrightarrow> (\<exists>k v opt amount. args = [k, v, opt, amount])"
    by (auto simp: length_Suc_conv eval_nat_numeral)
  consider "length args = 2" | "length args = 4" | "length args \<noteq> 2" "length args \<noteq> 4" by blast
  then show ?thesis
  proof cases
    case 1
    then obtain k v where args: "args = [k, v]" using three by blast
    show ?thesis
      unfolding from_resp_bulk_array command_of_args_known [OF p] args
      by (auto simp: parse_set_def arg_simps result_simps)
  next
    case 2
    then obtain k v opt amount where args: "args = [k, v, opt, amount]" using five by blast
    show ?thesis
    proof (cases "utf8 opt")
      case True
      then show ?thesis
        unfolding from_resp_bulk_array command_of_args_known [OF p] args
        by (auto simp: parse_set_def Let_def arg_simps result_simps set_variant_def split: if_splits)
    next
      case False
      then show ?thesis
        unfolding from_resp_bulk_array command_of_args_known [OF p] args
        by (auto simp: parse_set_def Let_def arg_simps result_simps dest: set_variant_utf8)
    qed
  next
    case 3
    then show ?thesis
      unfolding from_resp_bulk_array command_of_args_known [OF p]
      by (auto simp: parse_set_def invalid_def)
  qed
qed

theorem set_grammar_witness:
  "from_resp (FArray (map FBulkString (''set'' # [''k'', ''v'', ''px'', ''+250'']))) =
     Ok (Set ''k'' ''v'' (Some (from_millis 250)))"
proof -
  have up: "to_ascii_uppercase ''set'' = ''SET''" by code_simp
  have "parse_u64 ''+250'' = Some 250" "utf8 ''k''" "utf8 ''+250''"
    "set_variant ''k'' ''v'' ''px'' 250 = Some (Set ''k'' ''v'' (Some (from_millis 250)))"
    by code_simp+
  then show ?thesis
    by (intro iffD2 [OF set_grammar [OF up]] disjI2) simp
qed

end
