(* ===== verification/Entry.thy ===== *)
theory Entry
  imports Kv_Error
begin

text \<open>
  \<open>rustkv-core/src/entry.rs\<close> and the clock. A \<open>clock\<close> holds the readings one command makes of
  \<open>Instant::now()\<close> and \<open>SystemTime::now()\<close>, each under its own name, so that readings may differ:
  \<open>sweep_at k\<close> when a sweep visits entry \<open>k\<close>, \<open>check_at k\<close> in \<open>remove_if_expired\<close>, \<open>op_at\<close>
  the operation's own reading, \<open>unix_at\<close> the time since the epoch (nothing when the system clock
  is before it). \<open>instant_limit\<close> is the largest representable \<open>Instant\<close>; adding past it panics.
\<close>

record clock =
  sweep_at :: "bytes \<Rightarrow> instant"
  check_at :: "bytes \<Rightarrow> instant"
  op_at :: instant
  unix_at :: "duration option"
  instant_limit :: instant

text \<open>A clock whose readings all happen at one moment, for concrete runs.\<close>

definition clock_at :: "instant \<Rightarrow> duration option \<Rightarrow> instant \<Rightarrow> clock" where
  "clock_at t u lim =
     \<lparr>sweep_at = (\<lambda>_. t), check_at = (\<lambda>_. t), op_at = t, unix_at = u, instant_limit = lim\<rparr>"

text \<open>All readings of \<open>c\<close> happen at or before \<open>t\<close>.\<close>

definition before :: "clock \<Rightarrow> instant \<Rightarrow> bool" where
  "before c t \<longleftrightarrow> (\<forall>k. sweep_at c k \<le> t \<and> check_at c k \<le> t) \<and> op_at c \<le> t"

text \<open>
  The order in which one operation reads the monotonic clock: the sweep and the expiry check
  come before the operation's own reading.
\<close>

definition monotonic :: "clock \<Rightarrow> bool" where
  "monotonic c \<longleftrightarrow> (\<forall>k. sweep_at c k \<le> op_at c \<and> check_at c k \<le> op_at c)"

lemma clock_at_simps [simp]:
  "sweep_at (clock_at t u lim) k = t" "check_at (clock_at t u lim) k = t"
  "op_at (clock_at t u lim) = t" "unix_at (clock_at t u lim) = u"
  "instant_limit (clock_at t u lim) = lim"
  by (simp_all add: clock_at_def)

lemma before_clock_at [simp]: "before (clock_at t u lim) s \<longleftrightarrow> t \<le> s"
  by (simp add: before_def)

lemma monotonic_clock_at [simp]: "monotonic (clock_at t u lim)"
  by (simp add: monotonic_def)

lemma beforeD: "before c t \<Longrightarrow> sweep_at c k \<le> t" "before c t \<Longrightarrow> check_at c k \<le> t" "before c t \<Longrightarrow> op_at c \<le> t"
  by (simp_all add: before_def)

lemma before_mono: "before c t \<Longrightarrow> t \<le> t' \<Longrightarrow> before c t'"
  unfolding before_def by (meson order_trans)

text \<open>\<open>Instant + Duration\<close>.\<close>

definition instant_add :: "clock \<Rightarrow> instant \<Rightarrow> duration \<Rightarrow> (kv_error, instant) result" where
  "instant_add c t d = (if t + d \<le> instant_limit c then Ok (t + d) else Panic)"

section \<open>Wall-clock time\<close>

text \<open>The conversions between absolute Unix milliseconds and durations at the end of \<open>db.rs\<close>.\<close>

definition duration_until_unix_ms :: "clock \<Rightarrow> nat \<Rightarrow> duration option" where
  "duration_until_unix_ms c timestamp_ms =
     (case unix_at c of
        None \<Rightarrow> None
      | Some now \<Rightarrow>
          (let now_ms = as_millis now; target_ms = timestamp_ms
           in if target_ms \<le> now_ms then None
              else Some (from_millis (min (target_ms - now_ms) u64_max))))"

definition current_unix_ms :: "clock \<Rightarrow> nat" where
  "current_unix_ms c =
     min (case unix_at c of None \<Rightarrow> 0 | Some now \<Rightarrow> as_millis now) u64_max"

definition unix_ms_after :: "nat \<Rightarrow> duration \<Rightarrow> nat" where
  "unix_ms_after base_ms d = min (base_ms + as_millis d) u64_max"

text \<open>The reply of \<open>TTL\<close> is an \<open>i64\<close>: the remaining seconds, rounded up, cast from \<open>u64\<close>.\<close>

definition ttl_seconds :: "duration \<Rightarrow> i64" where
  "ttl_seconds remaining =
     u64_of (as_secs remaining) + u64_of (if 0 < subsec_nanos remaining then 1 else 0)"

section \<open>Entries\<close>

record entry =
  evalue :: bytes
  expire_at :: "instant option"

definition with_expire_at :: "bytes \<Rightarrow> instant option \<Rightarrow> entry" where
  "with_expire_at v e = \<lparr>evalue = v, expire_at = e\<rparr>"

definition entry_new :: "clock \<Rightarrow> bytes \<Rightarrow> duration option \<Rightarrow> (kv_error, entry) result" where
  "entry_new c v expire =
     (case expire of
        None \<Rightarrow> Ok \<lparr>evalue = v, expire_at = None\<rparr>
      | Some d \<Rightarrow> map_ok (\<lambda>t. \<lparr>evalue = v, expire_at = Some t\<rparr>) (instant_add c (op_at c) d))"

definition is_expired :: "entry \<Rightarrow> instant \<Rightarrow> bool" where
  "is_expired e now = (case expire_at e of None \<Rightarrow> False | Some t \<Rightarrow> t \<le> now)"

lemma is_expired_mono: "is_expired e t \<Longrightarrow> t \<le> t' \<Longrightarrow> is_expired e t'"
  by (auto simp: is_expired_def split: option.splits)

lemma is_expired_None [simp]: "expire_at e = None \<Longrightarrow> \<not> is_expired e t"
  by (simp add: is_expired_def)

section \<open>What a reader sees\<close>

text \<open>
  The abstract state of a store is a partial map from keys to entries; at instant \<open>t\<close> only the
  entries that have not expired are visible.
\<close>

definition fresh :: "instant \<Rightarrow> entry \<Rightarrow> entry option" where
  "fresh t e = (if is_expired e t then None else Some e)"

definition visible :: "instant \<Rightarrow> (bytes \<rightharpoonup> entry) \<Rightarrow> (bytes \<rightharpoonup> entry)" where
  "visible t m = (\<lambda>k. Option.bind (m k) (fresh t))"

definition deadline :: "clock \<Rightarrow> duration option \<Rightarrow> instant option" where
  "deadline c expire = map_option (\<lambda>d. op_at c + d) expire"

definition representable :: "clock \<Rightarrow> duration option \<Rightarrow> bool" where
  "representable c expire \<longleftrightarrow> (case expire of None \<Rightarrow> True | Some d \<Rightarrow> op_at c + d \<le> instant_limit c)"

lemma entry_new_eq:
  "entry_new c v e = (if representable c e then Ok (with_expire_at v (deadline c e)) else Panic)"
  by (auto simp: entry_new_def representable_def deadline_def with_expire_at_def instant_add_def
      split: option.splits)

lemma fresh_None_mono: "fresh t e = None \<Longrightarrow> t \<le> t' \<Longrightarrow> fresh t' e = None"
  by (auto simp: fresh_def intro: is_expired_mono split: if_splits)

lemma visible_Some_iff: "visible t m k = Some e \<longleftrightarrow> m k = Some e \<and> \<not> is_expired e t"
  by (auto simp: visible_def fresh_def bind_eq_Some_conv split: if_splits)

lemma visible_None_iff: "visible t m k = None \<longleftrightarrow> (\<forall>e. m k = Some e \<longrightarrow> is_expired e t)"
  by (cases "m k") (auto simp: visible_def fresh_def)

lemma visible_upd [simp]: "visible t (m(k \<mapsto> e)) = (visible t m)(k := fresh t e)"
  by (auto simp: visible_def fun_eq_iff)

lemma visible_del [simp]: "visible t (m(k := None)) = (visible t m)(k := None)"
  by (auto simp: visible_def fun_eq_iff)

lemma visible_empty [simp]: "visible t (\<lambda>_. None) = (\<lambda>_. None)"
  by (simp add: visible_def)

lemma visible_expired: "m k = Some e \<Longrightarrow> is_expired e t' \<Longrightarrow> t' \<le> t \<Longrightarrow> visible t m k = None"
  by (auto simp: visible_None_iff intro: is_expired_mono)

lemma visible_gone_stays_gone: "visible t m k = None \<Longrightarrow> t \<le> t' \<Longrightarrow> visible t' m k = None"
  by (auto simp: visible_None_iff intro: is_expired_mono)

text \<open>Dropping entries that have expired by \<open>t\<close> is invisible from \<open>t\<close> on.\<close>

lemma visible_drop_expired:
  assumes "\<And>k. m' k = m k \<or> (m' k = None \<and> (\<exists>e. m k = Some e \<and> is_expired e t))"
  shows "visible t m' = visible t m"
proof
  fix k
  from assms [of k] show "visible t m' k = visible t m k"
    by (auto simp: visible_def fresh_def)
qed

end
