(* ===== verification/Storage.thy ===== *)
theory Storage
  imports Entry
begin

text \<open>
  The contract of the trait \<open>StorageEngine\<close> (\<open>rustkv-core/src/storage.rs\<close>) as a locale: what
  each operation answers and what a later reader sees, in terms of the entries visible at an
  instant. \<open>timed_storage\<close> adds the two operations with absolute Unix deadlines that both stores of
  \<open>db.rs\<close> have. The facts a client of a store uses are proved once, here.
\<close>

type_synonym ('a, 'd) op = "(kv_error, 'a) result \<times> 'd"

locale storage_engine =
  fixes wf :: "'d \<Rightarrow> bool"
    and entries :: "'d \<Rightarrow> bytes \<Rightarrow> entry option"
    and set_op :: "clock \<Rightarrow> bytes \<Rightarrow> bytes \<Rightarrow> duration option \<Rightarrow> 'd \<Rightarrow> (unit, 'd) op"
    and get_op :: "clock \<Rightarrow> bytes \<Rightarrow> 'd \<Rightarrow> (bytes option, 'd) op"
    and del_op :: "clock \<Rightarrow> bytes list \<Rightarrow> 'd \<Rightarrow> (nat, 'd) op"
    and exists_op :: "clock \<Rightarrow> bytes \<Rightarrow> 'd \<Rightarrow> (bool, 'd) op"
    and keys_op :: "clock \<Rightarrow> 'd \<Rightarrow> (kv_error, bytes list) result"
    and expire_op :: "clock \<Rightarrow> bytes \<Rightarrow> nat \<Rightarrow> 'd \<Rightarrow> (bool, 'd) op"
    and ttl_op :: "clock \<Rightarrow> bytes \<Rightarrow> 'd \<Rightarrow> (i64, 'd) op"
    and flush_op :: "'d \<Rightarrow> (unit, 'd) op"
    and sweep_op :: "clock \<Rightarrow> 'd \<Rightarrow> nat \<times> 'd"
  assumes finite_entries: "wf d \<Longrightarrow> finite (dom (entries d))"
    and wf_ops: "wf d \<Longrightarrow> wf (snd (set_op c k v e d))" "wf d \<Longrightarrow> wf (snd (get_op c k d))"
      "wf d \<Longrightarrow> wf (snd (del_op c ks d))" "wf d \<Longrightarrow> wf (snd (exists_op c k d))"
      "wf d \<Longrightarrow> wf (snd (expire_op c k s d))" "wf d \<Longrightarrow> wf (snd (ttl_op c k d))"
      "wf d \<Longrightarrow> wf (snd (flush_op d))" "wf d \<Longrightarrow> wf (snd (sweep_op c d))"
    and set_result: "wf d \<Longrightarrow> fst (set_op c k v e d) = (if representable c e then Ok () else Panic)"
    and set_visible: "wf d \<Longrightarrow> before c t \<Longrightarrow> visible t (entries (snd (set_op c k v e d))) =
      (if representable c e
       then (visible t (entries d))(k := fresh t (with_expire_at v (deadline c e)))
       else visible t (entries d))"
    and get_result: "wf d \<Longrightarrow>
      fst (get_op c k d) = Ok (map_option evalue (visible (check_at c k) (entries d) k))"
    and get_visible: "wf d \<Longrightarrow> before c t \<Longrightarrow>
      visible t (entries (snd (get_op c k d))) = visible t (entries d)"
    and del_result: "wf d \<Longrightarrow>
      fst (del_op c ks d) = Ok (card {k \<in> set ks. visible (check_at c k) (entries d) k \<noteq> None})"
    and del_visible: "wf d \<Longrightarrow> before c t \<Longrightarrow> visible t (entries (snd (del_op c ks d))) =
      (\<lambda>k. if k \<in> set ks then None else visible t (entries d) k)"
    and exists_result: "wf d \<Longrightarrow>
      fst (exists_op c k d) = Ok (visible (check_at c k) (entries d) k \<noteq> None)"
    and exists_visible: "wf d \<Longrightarrow> before c t \<Longrightarrow>
      visible t (entries (snd (exists_op c k d))) = visible t (entries d)"
    and keys_result: "wf d \<Longrightarrow>
      keys_op c d = Ok (sorted_list_of_set {k. visible (sweep_at c k) (entries d) k \<noteq> None})"
    and expire_result: "wf d \<Longrightarrow> fst (expire_op c k s d) =
      (if visible (check_at c k) (entries d) k = None then Ok False
       else if representable c (Some (from_secs s)) then Ok True else Panic)"
    and expire_visible: "wf d \<Longrightarrow> before c t \<Longrightarrow> visible t (entries (snd (expire_op c k s d))) =
      (case visible (check_at c k) (entries d) k of
         None \<Rightarrow> visible t (entries d)
       | Some e \<Rightarrow>
           if representable c (Some (from_secs s))
           then (visible t (entries d))(k := fresh t (e\<lparr>expire_at := deadline c (Some (from_secs s))\<rparr>))
           else visible t (entries d))"
    and ttl_result: "wf d \<Longrightarrow> monotonic c \<Longrightarrow> fst (ttl_op c k d) =
      Ok (case visible (op_at c) (entries d) k of
            None \<Rightarrow> - 2
          | Some e \<Rightarrow> (case expire_at e of None \<Rightarrow> - 1 | Some t \<Rightarrow> ttl_seconds (t - op_at c)))"
    and ttl_visible: "wf d \<Longrightarrow> before c t \<Longrightarrow>
      visible t (entries (snd (ttl_op c k d))) = visible t (entries d)"
    and flush_result: "wf d \<Longrightarrow> fst (flush_op d) = Ok ()"
    and flush_entries: "wf d \<Longrightarrow> entries (snd (flush_op d)) = (\<lambda>_. None)"
    and sweep_visible: "wf d \<Longrightarrow> before c t \<Longrightarrow>
      visible t (entries (snd (sweep_op c d))) = visible t (entries d)"
    and sweep_count: "wf d \<Longrightarrow>
      fst (sweep_op c d) = card (dom (entries d)) - card (dom (entries (snd (sweep_op c d))))"
begin

lemmas result_laws = set_result get_result del_result exists_result keys_result expire_result
  ttl_result flush_result

lemmas visible_laws = set_visible get_visible del_visible exists_visible expire_visible ttl_visible
  flush_entries sweep_visible

lemma read_your_write:
  assumes "wf d" "representable c e" "before c (check_at c' k)"
  shows "fst (get_op c' k (snd (set_op c k v e d))) =
     Ok (case deadline c e of
           None \<Rightarrow> Some v
         | Some t \<Rightarrow> if t \<le> check_at c' k then None else Some v)"
  using assms
  by (simp add: get_result wf_ops set_visible fresh_def is_expired_def with_expire_at_def
      split: option.splits)

lemma write_frame:
  assumes "wf d" "before c (check_at c' k')" "k' \<noteq> k"
  shows "fst (get_op c' k' (snd (set_op c k v e d))) = fst (get_op c' k' d)"
  using assms by (simp add: get_result wf_ops set_visible)

lemma deleted_is_gone:
  assumes "wf d" "before c (check_at c' k)" "k \<in> set ks"
  shows "fst (get_op c' k (snd (del_op c ks d))) = Ok None"
  using assms by (simp add: get_result wf_ops del_visible)

lemma delete_frame:
  assumes "wf d" "before c (check_at c' k)" "k \<notin> set ks"
  shows "fst (get_op c' k (snd (del_op c ks d))) = fst (get_op c' k d)"
  using assms by (simp add: get_result wf_ops del_visible)

lemma reads_are_transparent:
  assumes "wf d" "before c (check_at c' k')"
  shows "fst (get_op c' k' (snd (get_op c k d))) = fst (get_op c' k' d)"
    and "fst (get_op c' k' (snd (exists_op c k d))) = fst (get_op c' k' d)"
    and "fst (get_op c' k' (snd (ttl_op c k d))) = fst (get_op c' k' d)"
    and "fst (get_op c' k' (snd (sweep_op c d))) = fst (get_op c' k' d)"
  using assms
  by (simp_all add: get_result wf_ops get_visible exists_visible ttl_visible sweep_visible)

lemma exists_agrees_with_get:
  assumes "wf d"
  shows "fst (exists_op c k d) = Ok (fst (get_op c k d) \<noteq> Ok None)"
  using assms by (simp add: exists_result get_result)

lemma flushed_is_empty: "wf d \<Longrightarrow> fst (get_op c k (snd (flush_op d))) = Ok None"
  by (simp add: get_result wf_ops flush_entries)

lemma gone_stays_gone:
  assumes "wf d" "fst (get_op c k d) = Ok None" "before c (check_at c' k)"
  shows "fst (get_op c' k (snd (get_op c k d))) = Ok None"
  using assms visible_gone_stays_gone [of "check_at c k" "entries d" k "check_at c' k"]
  by (simp add: get_result wf_ops get_visible beforeD)

end

locale timed_storage = storage_engine +
  fixes set_at_op :: "clock \<Rightarrow> bytes \<Rightarrow> bytes \<Rightarrow> nat \<Rightarrow> 'd \<Rightarrow> (unit, 'd) op"
    and expire_at_op :: "clock \<Rightarrow> bytes \<Rightarrow> nat \<Rightarrow> 'd \<Rightarrow> (bool, 'd) op"
  assumes wf_at_ops: "wf d \<Longrightarrow> wf (snd (set_at_op c k v ms d))"
      "wf d \<Longrightarrow> wf (snd (expire_at_op c k ms d))"
    and set_at_result: "wf d \<Longrightarrow> fst (set_at_op c k v ms d) =
      (if representable c (duration_until_unix_ms c ms) then Ok () else Panic)"
    and set_at_visible: "wf d \<Longrightarrow> before c t \<Longrightarrow> visible t (entries (snd (set_at_op c k v ms d))) =
      (case duration_until_unix_ms c ms of
         None \<Rightarrow> (visible t (entries d))(k := None)
       | Some r \<Rightarrow>
           if representable c (Some r)
           then (visible t (entries d))(k := fresh t (with_expire_at v (deadline c (Some r))))
           else visible t (entries d))"
    and expire_at_result: "wf d \<Longrightarrow> fst (expire_at_op c k ms d) =
      (if visible (check_at c k) (entries d) k = None then Ok False
       else if representable c (duration_until_unix_ms c ms) then Ok True else Panic)"
    and expire_at_visible: "wf d \<Longrightarrow> before c t \<Longrightarrow> visible t (entries (snd (expire_at_op c k ms d))) =
      (case visible (check_at c k) (entries d) k of
         None \<Rightarrow> visible t (entries d)
       | Some e \<Rightarrow>
           (case duration_until_unix_ms c ms of
              None \<Rightarrow> (visible t (entries d))(k := None)
            | Some r \<Rightarrow>
                if representable c (Some r)
                then (visible t (entries d))(k := fresh t (e\<lparr>expire_at := deadline c (Some r)\<rparr>))
                else visible t (entries d)))"
begin

text \<open>A past deadline, or a system clock before the epoch, makes \<open>SET .. PXAT\<close> a deletion.\<close>

lemma past_deadline_deletes:
  assumes "wf d" "duration_until_unix_ms c ms = None" "before c (check_at c' k)"
  shows "fst (get_op c' k (snd (set_at_op c k v ms d))) = Ok None"
  using assms by (simp add: get_result wf_at_ops set_at_visible)

text \<open>A future deadline is the same write as a relative expiry of the time that remains.\<close>

lemma future_deadline_writes:
  assumes "wf d" "duration_until_unix_ms c ms = Some r" "before c t"
  shows "visible t (entries (snd (set_at_op c k v ms d))) =
     visible t (entries (snd (set_op c k v (Some r) d)))"
  using assms by (simp add: set_at_visible set_visible)

end

section \<open>Two stores under one contract\<close>

text \<open>
  The calls a client can make of a store, and their answers. A program of calls is chronological
  from \<open>t\<close> when the readings of each call come at or after those of the call before it.
\<close>

datatype store_call =
    Call_set bytes bytes "duration option"
  | Call_set_at_ms bytes bytes nat
  | Call_get bytes
  | Call_del "bytes list"
  | Call_exists bytes
  | Call_keys
  | Call_expire bytes nat
  | Call_expire_at_ms bytes nat
  | Call_ttl bytes
  | Call_flushdb
  | Call_remove_expired

datatype store_answer =
  Done | Found "bytes option" | Count nat | Flag bool | Names "bytes list" | Seconds i64 | Swept

type_synonym reply = "(kv_error, store_answer) result"

definition since :: "instant \<Rightarrow> clock \<Rightarrow> bool" where
  "since t c \<longleftrightarrow> (\<forall>k. t \<le> sweep_at c k \<and> t \<le> check_at c k) \<and> t \<le> op_at c"

fun chronological :: "instant \<Rightarrow> (clock \<times> store_call) list \<Rightarrow> bool" where
  "chronological t [] \<longleftrightarrow> True"
| "chronological t ((c, call) # rest) \<longleftrightarrow> since t c \<and> monotonic c \<and> chronological (op_at c) rest"

fun run_calls :: "(clock \<Rightarrow> store_call \<Rightarrow> 'd \<Rightarrow> reply \<times> 'd) \<Rightarrow> (clock \<times> store_call) list \<Rightarrow> 'd \<Rightarrow> reply list" where
  "run_calls step [] d = []"
| "run_calls step ((c, call) # rest) d =
     (let (reply, d') = step c call d in reply # run_calls step rest d')"

definition answer :: "('a \<Rightarrow> store_answer) \<Rightarrow> ('a, 'd) op \<Rightarrow> reply \<times> 'd" where
  "answer f r = (map_ok f (fst r), snd r)"

lemma answer_simps [simp]: "fst (answer f r) = map_ok f (fst r)" "snd (answer f r) = snd r"
  by (simp_all add: answer_def)

text \<open>Two maps agree from \<open>t\<close> on when a reader at \<open>t\<close> or later cannot tell them apart.\<close>

definition agree :: "instant \<Rightarrow> (bytes \<rightharpoonup> entry) \<Rightarrow> (bytes \<rightharpoonup> entry) \<Rightarrow> bool" where
  "agree t m m' \<longleftrightarrow> visible t m = visible t m'"

lemma visible_later: "t \<le> t' \<Longrightarrow> visible t' m k = Option.bind (visible t m k) (fresh t')"
  by (cases "m k") (auto simp: visible_def fresh_def intro: is_expired_mono)

lemma agreeD: "agree t m m' \<Longrightarrow> t \<le> t' \<Longrightarrow> visible t' m = visible t' m'"
  by (simp add: agree_def visible_later fun_eq_iff)

lemma sinceD: "since t c \<Longrightarrow> t \<le> sweep_at c k" "since t c \<Longrightarrow> t \<le> check_at c k" "since t c \<Longrightarrow> t \<le> op_at c"
  by (simp_all add: since_def)

lemma monotonic_before: "monotonic c \<Longrightarrow> before c (op_at c)"
  by (simp add: monotonic_def before_def)

locale two_stores =
  l: timed_storage lwf lentries lset lget ldel lexists lkeys lexpire lttl lflush lsweep lset_at lexpire_at +
  r: timed_storage rwf rentries rset rget rdel rexists rkeys rexpire rttl rflush rsweep rset_at rexpire_at
  for lwf lentries lset lget ldel lexists lkeys lexpire lttl lflush lsweep lset_at lexpire_at
    and rwf rentries rset rget rdel rexists rkeys rexpire rttl rflush rsweep rset_at rexpire_at
begin

definition alike :: "instant \<Rightarrow> 'a \<Rightarrow> 'b \<Rightarrow> bool" where
  "alike t x y \<longleftrightarrow> lwf x \<and> rwf y \<and> agree t (lentries x) (rentries y)"

lemma alike_visible:
  assumes "alike t x y" "since t c"
  shows "visible (check_at c k) (lentries x) = visible (check_at c k) (rentries y)"
    and "visible (sweep_at c k) (lentries x) = visible (sweep_at c k) (rentries y)"
    and "visible (op_at c) (lentries x) = visible (op_at c) (rentries y)"
  using assms agreeD sinceD by (auto simp: alike_def)

lemma alike_wf: "alike t x y \<Longrightarrow> lwf x" "alike t x y \<Longrightarrow> rwf y"
  by (simp_all add: alike_def)

lemma same_answers:
  assumes "alike t x y" "since t c" "monotonic c"
  shows "fst (lset c k v e x) = fst (rset c k v e y)"
    and "fst (lset_at c k v ms x) = fst (rset_at c k v ms y)"
    and "fst (lget c k x) = fst (rget c k y)"
    and "fst (ldel c ks x) = fst (rdel c ks y)"
    and "fst (lexists c k x) = fst (rexists c k y)"
    and "lkeys c x = rkeys c y"
    and "fst (lexpire c k s x) = fst (rexpire c k s y)"
    and "fst (lexpire_at c k ms x) = fst (rexpire_at c k ms y)"
    and "fst (lttl c k x) = fst (rttl c k y)"
    and "fst (lflush x) = fst (rflush y)"
  by (simp_all only: alike_wf [OF assms(1)] alike_visible [OF assms(1,2)] assms(3)
      l.result_laws r.result_laws l.set_at_result r.set_at_result l.expire_at_result r.expire_at_result)

lemma stays_alike:
  assumes "alike t x y" "since t c" "monotonic c"
  shows "alike (op_at c) (snd (lset c k v e x)) (snd (rset c k v e y))"
    and "alike (op_at c) (snd (lset_at c k v ms x)) (snd (rset_at c k v ms y))"
    and "alike (op_at c) (snd (lget c k x)) (snd (rget c k y))"
    and "alike (op_at c) (snd (ldel c ks x)) (snd (rdel c ks y))"
    and "alike (op_at c) (snd (lexists c k x)) (snd (rexists c k y))"
    and "alike (op_at c) x y"
    and "alike (op_at c) (snd (lexpire c k s x)) (snd (rexpire c k s y))"
    and "alike (op_at c) (snd (lexpire_at c k ms x)) (snd (rexpire_at c k ms y))"
    and "alike (op_at c) (snd (lttl c k x)) (snd (rttl c k y))"
    and "alike (op_at c) (snd (lflush x)) (snd (rflush y))"
    and "alike (op_at c) (snd (lsweep c x)) (snd (rsweep c y))"
  by (simp_all only: alike_def agree_def alike_wf [OF assms(1)] alike_visible [OF assms(1,2)]
      monotonic_before [OF assms(3)] l.wf_ops r.wf_ops l.wf_at_ops r.wf_at_ops
      l.visible_laws r.visible_laws l.set_at_visible r.set_at_visible l.expire_at_visible r.expire_at_visible
      simp_thms if_cancel)

end

end
