(* ===== verification/Hash_Map.thy ===== *)
theory Hash_Map
  imports Prelude "HOL-Library.AList"
begin

text \<open>
  What the code uses of \<open>std::collections::HashMap\<close>: a finite map whose iteration order is
  unspecified. The model is an association list without duplicate keys, in iteration order; the laws
  a client may use are the locale \<open>hash_map\<close>, which says nothing about the order.
\<close>

type_synonym ('k, 'v) hmap = "('k \<times> 'v) list"

definition hm_wf :: "('k, 'v) hmap \<Rightarrow> bool" where
  "hm_wf m \<longleftrightarrow> distinct (map fst m)"

definition hm_get :: "('k, 'v) hmap \<Rightarrow> 'k \<Rightarrow> 'v option" where
  "hm_get m k = map_of m k"

definition hm_insert :: "'k \<Rightarrow> 'v \<Rightarrow> ('k, 'v) hmap \<Rightarrow> ('k, 'v) hmap" where
  "hm_insert k v m = AList.update k v m"

definition hm_remove :: "'k \<Rightarrow> ('k, 'v) hmap \<Rightarrow> ('k, 'v) hmap" where
  "hm_remove k m = filter (\<lambda>(k', v). k' \<noteq> k) m"

definition hm_retain :: "('k \<Rightarrow> 'v \<Rightarrow> bool) \<Rightarrow> ('k, 'v) hmap \<Rightarrow> ('k, 'v) hmap" where
  "hm_retain P m = filter (\<lambda>(k, v). P k v) m"

definition hm_len :: "('k, 'v) hmap \<Rightarrow> nat" where
  "hm_len m = length m"

locale hash_map =
  fixes wf :: "'m \<Rightarrow> bool"
    and get :: "'m \<Rightarrow> 'k \<Rightarrow> 'v option"
    and insert :: "'k \<Rightarrow> 'v \<Rightarrow> 'm \<Rightarrow> 'm"
    and remove :: "'k \<Rightarrow> 'm \<Rightarrow> 'm"
    and retain :: "('k \<Rightarrow> 'v \<Rightarrow> bool) \<Rightarrow> 'm \<Rightarrow> 'm"
    and len :: "'m \<Rightarrow> nat"
    and empty :: 'm
  assumes wf_empty: "wf empty"
    and wf_insert: "wf m \<Longrightarrow> wf (insert k v m)"
    and wf_remove: "wf m \<Longrightarrow> wf (remove k m)"
    and wf_retain: "wf m \<Longrightarrow> wf (retain P m)"
    and get_empty: "get empty k = None"
    and get_insert: "get (insert k v m) = (get m)(k \<mapsto> v)"
    and get_remove: "wf m \<Longrightarrow> get (remove k m) = (get m)(k := None)"
    and get_retain: "wf m \<Longrightarrow> get (retain P m) k =
      (case get m k of Some v \<Rightarrow> if P k v then Some v else None | None \<Rightarrow> None)"
    and finite_keys: "finite (dom (get m))"
    and len_card: "wf m \<Longrightarrow> len m = card (dom (get m))"
begin

lemma len_empty: "len empty = 0"
  using len_card [OF wf_empty] by (simp add: dom_def get_empty)

lemma len_insert:
  "wf m \<Longrightarrow> len (insert k v m) = (if get m k = None then Suc (len m) else len m)"
  by (simp add: len_card wf_insert get_insert card_insert_if finite_keys domIff insert_absorb)

lemma len_remove:
  assumes "wf m"
  shows "len (remove k m) = (if get m k = None then len m else len m - 1)"
proof -
  have "dom (get (remove k m)) = dom (get m) - {k}"
    using get_remove [OF assms] by simp
  then show ?thesis
    using assms by (auto simp: len_card wf_remove domIff card_Diff_singleton_if)
qed

lemma len_retain_le:
  assumes "wf m"
  shows "len (retain P m) \<le> len m"
proof -
  have "dom (get (retain P m)) \<subseteq> dom (get m)"
    using get_retain [OF assms] by (auto split: option.splits)
  then show ?thesis
    using assms by (simp add: len_card wf_retain card_mono finite_keys)
qed

lemma len_positive: "wf m \<Longrightarrow> get m k \<noteq> None \<Longrightarrow> 0 < len m"
  using len_card finite_keys by (metis card_gt_0_iff domIff empty_iff)

lemma retain_all: "wf m \<Longrightarrow> (\<And>k v. get m k = Some v \<Longrightarrow> P k v) \<Longrightarrow> get (retain P m) = get m"
  by (rule ext) (auto simp: get_retain split: option.splits)

end

lemma map_of_filter_distinct:
  "distinct (map fst m) \<Longrightarrow> map_of (filter (\<lambda>(k, v). P k v) m) k =
     (case map_of m k of Some v \<Rightarrow> if P k v then Some v else None | None \<Rightarrow> None)"
  by (induction m) (auto split: option.splits simp: map_of_eq_None_iff dest: map_of_SomeD)

lemma hm_get_eq: "hm_get m = map_of m"
  by (rule ext) (simp add: hm_get_def)

interpretation hm: hash_map "hm_wf :: ('k, 'v) hmap \<Rightarrow> bool" hm_get hm_insert hm_remove hm_retain hm_len "[]"
proof unfold_locales
  fix m :: "('k, 'v) hmap" and k :: 'k and v :: 'v and P
  show "hm_wf ([] :: ('k, 'v) hmap)" "hm_get ([] :: ('k, 'v) hmap) k = None" by (simp_all add: hm_wf_def hm_get_def)
  show "hm_wf (hm_insert k v m)" if "hm_wf m"
    using that by (simp add: hm_wf_def hm_insert_def distinct_update)
  show "hm_wf (hm_remove k m)" "hm_wf (hm_retain P m)" if "hm_wf m"
    using that by (simp_all add: hm_wf_def hm_remove_def hm_retain_def distinct_map_filter)
  show "hm_get (hm_insert k v m) = (hm_get m)(k \<mapsto> v)"
    by (simp add: hm_get_def hm_insert_def update_conv' fun_eq_iff)
  show "hm_get (hm_remove k m) = (hm_get m)(k := None)" if "hm_wf m"
    using that map_of_filter_distinct [of m "\<lambda>k' v. k' \<noteq> k"]
    by (auto simp: hm_get_def hm_remove_def hm_wf_def split: option.splits)
  show "hm_get (hm_retain P m) k =
      (case hm_get m k of Some v \<Rightarrow> if P k v then Some v else None | None \<Rightarrow> None)" if "hm_wf m"
    using that by (simp add: hm_get_def hm_retain_def hm_wf_def map_of_filter_distinct)
  show "finite (dom (hm_get m))" by (simp add: hm_get_eq finite_dom_map_of)
  show "hm_len m = card (dom (hm_get m))" if "hm_wf m"
    using that distinct_card [of "map fst m"]
    by (simp add: hm_len_def hm_get_eq hm_wf_def dom_map_of_conv_image_fst)
qed

text \<open>Reading a map out in iteration order, with the entries as pairs.\<close>

lemma hm_get_iff: "hm_wf m \<Longrightarrow> hm_get m k = Some v \<longleftrightarrow> (k, v) \<in> set m"
  by (simp add: hm_wf_def hm_get_def)

end
