(* ===== verification/Database.thy ===== *)
theory Database
  imports Storage Hash_Map
begin

text \<open>
  \<open>struct Database\<close> of \<open>rustkv-core/src/db.rs\<close>, one shard of the store: its inherent methods and
  its implementation of the trait \<open>StorageEngine\<close> (\<open>storage.rs\<close>). Every operation takes the clock
  readings of its command and returns its \<open>Result\<close> with the database it leaves behind; a panicking
  operation leaves what it had already changed.
\<close>

record database =
  data :: "(bytes, entry) hmap"

text \<open>The sizes the compiler gives \<open>String\<close> and \<open>Entry\<close>, which the memory estimate adds up.\<close>

record layout =
  size_of_string :: nat
  size_of_entry :: nat

section \<open>Operations\<close>

definition db_new :: database where
  "db_new = \<lparr>data = []\<rparr>"

definition db_len :: "database \<Rightarrow> nat" where
  "db_len db = hm_len (data db)"

definition db_is_empty :: "database \<Rightarrow> bool" where
  "db_is_empty db \<longleftrightarrow> data db = []"

definition db_memory_estimate_bytes :: "layout \<Rightarrow> database \<Rightarrow> nat" where
  "db_memory_estimate_bytes ly db =
     sum_list (map (\<lambda>(key, entry).
       size_of_string ly + length key + size_of_entry ly + length (evalue entry)) (data db))"

definition remove_if_expired :: "clock \<Rightarrow> bytes \<Rightarrow> database \<Rightarrow> bool \<times> database" where
  "remove_if_expired c key db =
     (if (case hm_get (data db) key of None \<Rightarrow> False | Some entry \<Rightarrow> is_expired entry (check_at c key))
      then (True, db\<lparr>data := hm_remove key (data db)\<rparr>)
      else (False, db))"

definition db_set_at_ms :: "clock \<Rightarrow> bytes \<Rightarrow> bytes \<Rightarrow> nat \<Rightarrow> database \<Rightarrow> (unit, database) op" where
  "db_set_at_ms c key val timestamp_ms db =
     (case duration_until_unix_ms c timestamp_ms of
        None \<Rightarrow> (Ok (), db\<lparr>data := hm_remove key (data db)\<rparr>)
      | Some d \<Rightarrow>
          (case instant_add c (op_at c) d of
             Ok t \<Rightarrow> (Ok (), db\<lparr>data := hm_insert key (with_expire_at val (Some t)) (data db)\<rparr>)
           | Err e \<Rightarrow> (Err e, db)
           | Panic \<Rightarrow> (Panic, db)))"

definition db_expire_at_ms :: "clock \<Rightarrow> bytes \<Rightarrow> nat \<Rightarrow> database \<Rightarrow> (bool, database) op" where
  "db_expire_at_ms c key timestamp_ms db =
     (let (expired, db) = remove_if_expired c key db
      in if expired then (Ok False, db)
         else case duration_until_unix_ms c timestamp_ms of
           None \<Rightarrow> (Ok (hm_get (data db) key \<noteq> None), db\<lparr>data := hm_remove key (data db)\<rparr>)
         | Some d \<Rightarrow>
             (case hm_get (data db) key of
                None \<Rightarrow> (Ok False, db)
              | Some entry \<Rightarrow>
                  (case instant_add c (op_at c) d of
                     Ok t \<Rightarrow> (Ok True, db\<lparr>data := hm_insert key (entry\<lparr>expire_at := Some t\<rparr>) (data db)\<rparr>)
                   | Err e \<Rightarrow> (Err e, db)
                   | Panic \<Rightarrow> (Panic, db))))"

definition db_set ::
  "clock \<Rightarrow> bytes \<Rightarrow> bytes \<Rightarrow> duration option \<Rightarrow> database \<Rightarrow> (unit, database) op" where
  "db_set c key val expire db =
     (case entry_new c val expire of
        Ok entry \<Rightarrow> (Ok (), db\<lparr>data := hm_insert key entry (data db)\<rparr>)
      | Err e \<Rightarrow> (Err e, db)
      | Panic \<Rightarrow> (Panic, db))"

definition db_get :: "clock \<Rightarrow> bytes \<Rightarrow> database \<Rightarrow> (bytes option, database) op" where
  "db_get c key db =
     (let (expired, db) = remove_if_expired c key db
      in if expired then (Ok None, db) else (Ok (map_option evalue (hm_get (data db) key)), db))"

text \<open>The loop of \<open>del\<close>, with its counter \<open>removed\<close>.\<close>

fun db_del_loop :: "clock \<Rightarrow> bytes list \<Rightarrow> nat \<Rightarrow> database \<Rightarrow> nat \<times> database" where
  "db_del_loop c [] removed db = (removed, db)"
| "db_del_loop c (key # keys) removed db =
     (let (expired, db) = remove_if_expired c key db
      in if expired then db_del_loop c keys removed db
         else if hm_get (data db) key \<noteq> None
         then db_del_loop c keys (removed + 1) (db\<lparr>data := hm_remove key (data db)\<rparr>)
         else db_del_loop c keys removed db)"

definition db_del :: "clock \<Rightarrow> bytes list \<Rightarrow> database \<Rightarrow> (nat, database) op" where
  "db_del c keys db = (let (removed, db) = db_del_loop c keys 0 db in (Ok removed, db))"

definition db_exists :: "clock \<Rightarrow> bytes \<Rightarrow> database \<Rightarrow> (bool, database) op" where
  "db_exists c key db =
     (let (expired, db) = remove_if_expired c key db
      in if expired then (Ok False, db) else (Ok (hm_get (data db) key \<noteq> None), db))"

definition db_keys :: "clock \<Rightarrow> database \<Rightarrow> (kv_error, bytes list) result" where
  "db_keys c db =
     Ok (sort (map fst (filter (\<lambda>(key, entry). \<not> is_expired entry (sweep_at c key)) (data db))))"

definition db_expire :: "clock \<Rightarrow> bytes \<Rightarrow> nat \<Rightarrow> database \<Rightarrow> (bool, database) op" where
  "db_expire c key secs db =
     (let (expired, db) = remove_if_expired c key db
      in if expired then (Ok False, db)
         else case hm_get (data db) key of
           None \<Rightarrow> (Ok False, db)
         | Some entry \<Rightarrow>
             (case instant_add c (op_at c) (from_secs secs) of
                Ok t \<Rightarrow> (Ok True, db\<lparr>data := hm_insert key (entry\<lparr>expire_at := Some t\<rparr>) (data db)\<rparr>)
              | Err e \<Rightarrow> (Err e, db)
              | Panic \<Rightarrow> (Panic, db)))"

definition db_ttl :: "clock \<Rightarrow> bytes \<Rightarrow> database \<Rightarrow> (i64, database) op" where
  "db_ttl c key db =
     (let (expired, db) = remove_if_expired c key db
      in if expired then (Ok (- 2), db)
         else case hm_get (data db) key of
           None \<Rightarrow> (Ok (- 2), db)
         | Some entry \<Rightarrow>
             (case expire_at entry of
                None \<Rightarrow> (Ok (- 1), db)
              | Some t \<Rightarrow>
                  (let now = op_at c
                   in if t \<le> now then (Ok (- 2), db\<lparr>data := hm_remove key (data db)\<rparr>)
                      else (Ok (ttl_seconds (t - now)), db))))"

definition db_flushdb :: "database \<Rightarrow> (unit, database) op" where
  "db_flushdb db = (Ok (), db\<lparr>data := []\<rparr>)"

definition db_remove_expired :: "clock \<Rightarrow> database \<Rightarrow> nat \<times> database" where
  "db_remove_expired c db =
     (let db' = db\<lparr>data := hm_retain (\<lambda>key entry. \<not> is_expired entry (sweep_at c key)) (data db)\<rparr>
      in (db_len db - db_len db', db'))"

section \<open>Abstraction and invariant\<close>

definition db_map :: "database \<Rightarrow> (bytes \<rightharpoonup> entry)" where
  "db_map db = hm_get (data db)"

definition db_wf :: "database \<Rightarrow> bool" where
  "db_wf db \<longleftrightarrow> hm_wf (data db)"

lemma db_map_simps [simp]:
  "db_map (db\<lparr>data := hm_insert k e (data db)\<rparr>) = (db_map db)(k \<mapsto> e)"
  "db_map (db\<lparr>data := []\<rparr>) = (\<lambda>_. None)"
  "db_wf db \<Longrightarrow> db_map (db\<lparr>data := hm_remove k (data db)\<rparr>) = (db_map db)(k := None)"
  by (simp_all add: db_map_def db_wf_def hm.get_insert hm.get_remove hm.get_empty fun_eq_iff)

lemma db_wf_simps [simp]:
  "db_wf db \<Longrightarrow> db_wf (db\<lparr>data := hm_insert k e (data db)\<rparr>)"
  "db_wf db \<Longrightarrow> db_wf (db\<lparr>data := hm_remove k (data db)\<rparr>)"
  "db_wf (db\<lparr>data := []\<rparr>)"
  by (simp_all add: db_wf_def hm.wf_insert hm.wf_remove hm.wf_empty)

lemma hm_get_db_map: "hm_get (data db) = db_map db"
  by (simp add: db_map_def fun_eq_iff)

lemma db_len_card: "db_wf db \<Longrightarrow> db_len db = card (dom (db_map db))"
  by (simp add: db_len_def db_wf_def hm.len_card hm_get_db_map)

lemma db_finite: "finite (dom (db_map db))"
  using hm.finite_keys [of "data db"] by (simp add: hm_get_db_map)

lemma remove_if_expired_cases:
  obtains (expired) e where "db_map db k = Some e" "is_expired e (check_at c k)"
      "remove_if_expired c k db = (True, db\<lparr>data := hm_remove k (data db)\<rparr>)"
      "visible (check_at c k) (db_map db) k = None"
    | (kept) "remove_if_expired c k db = (False, db)"
      "visible (check_at c k) (db_map db) k = db_map db k"
proof (cases "\<exists>e. db_map db k = Some e \<and> is_expired e (check_at c k)")
  case True
  then show ?thesis
    by (auto simp: remove_if_expired_def hm_get_db_map visible_def fresh_def intro: expired)
next
  case False
  then show ?thesis
    by (cases "db_map db k")
       (auto simp: remove_if_expired_def hm_get_db_map visible_def fresh_def intro!: kept)
qed

text \<open>Dropping the expired entry does not change what later readers see.\<close>

lemma visible_drop:
  "m k = Some e \<Longrightarrow> is_expired e (check_at c k) \<Longrightarrow> before c t \<Longrightarrow>
     (visible t m)(k := None) = visible t m"
  using visible_expired [of m k e "check_at c k" t] by (simp add: beforeD fun_upd_idem)

lemma visible_sweep:
  assumes "db_wf db" "before c t"
  shows "visible t (db_map (snd (db_remove_expired c db))) = visible t (db_map db)"
proof (rule visible_drop_expired)
  fix k
  have "db_map (snd (db_remove_expired c db)) k =
      (case db_map db k of Some e \<Rightarrow> if \<not> is_expired e (sweep_at c k) then Some e else None | None \<Rightarrow> None)"
    using assms(1)
    by (simp add: db_remove_expired_def Let_def db_map_def db_wf_def hm.get_retain)
  then show "db_map (snd (db_remove_expired c db)) k = db_map db k \<or>
      db_map (snd (db_remove_expired c db)) k = None \<and>
      (\<exists>e. db_map db k = Some e \<and> is_expired e t)"
    using is_expired_mono beforeD(1) [OF assms(2), of k] by (auto split: option.splits)
qed

lemma db_wf_sweep: "db_wf db \<Longrightarrow> db_wf (snd (db_remove_expired c db))"
  by (simp add: db_remove_expired_def Let_def db_wf_def hm.wf_retain)

section \<open>Every operation against the contract\<close>

lemma db_set_spec:
  "db_set c k v e db =
     (if representable c e
      then (Ok (), db\<lparr>data := hm_insert k (with_expire_at v (deadline c e)) (data db)\<rparr>)
      else (Panic, db))"
  by (simp add: db_set_def entry_new_eq)

lemma instant_add_representable:
  "instant_add c (op_at c) d = (if representable c (Some d) then Ok (op_at c + d) else Panic)"
  by (simp add: instant_add_def representable_def)

lemma db_get_spec:
  assumes "db_wf db"
  shows "fst (db_get c k db) = Ok (map_option evalue (visible (check_at c k) (db_map db) k)) \<and>
    db_wf (snd (db_get c k db)) \<and>
    (before c t \<longrightarrow> visible t (db_map (snd (db_get c k db))) = visible t (db_map db))"
  using assms
  by (cases rule: remove_if_expired_cases [of db k c])
     (simp_all add: db_get_def hm_get_db_map visible_drop)

lemma db_exists_spec:
  assumes "db_wf db"
  shows "fst (db_exists c k db) = Ok (visible (check_at c k) (db_map db) k \<noteq> None) \<and>
    db_wf (snd (db_exists c k db)) \<and>
    (before c t \<longrightarrow> visible t (db_map (snd (db_exists c k db))) = visible t (db_map db))"
  using assms
  by (cases rule: remove_if_expired_cases [of db k c])
     (simp_all add: db_exists_def hm_get_db_map visible_drop)

lemma db_expire_spec:
  assumes "db_wf db"
  shows "fst (db_expire c k s db) =
      (if visible (check_at c k) (db_map db) k = None then Ok False
       else if representable c (Some (from_secs s)) then Ok True else Panic) \<and>
    db_wf (snd (db_expire c k s db)) \<and>
    (before c t \<longrightarrow> visible t (db_map (snd (db_expire c k s db))) =
      (case visible (check_at c k) (db_map db) k of
         None \<Rightarrow> visible t (db_map db)
       | Some e \<Rightarrow>
           if representable c (Some (from_secs s))
           then (visible t (db_map db))(k := fresh t (e\<lparr>expire_at := deadline c (Some (from_secs s))\<rparr>))
           else visible t (db_map db)))"
  using assms
  by (cases rule: remove_if_expired_cases [of db k c])
     (auto simp: db_expire_def hm_get_db_map visible_drop instant_add_representable deadline_def
       split: option.splits)

lemma db_set_at_spec:
  assumes "db_wf db"
  shows "fst (db_set_at_ms c k v ms db) =
      (if representable c (duration_until_unix_ms c ms) then Ok () else Panic) \<and>
    db_wf (snd (db_set_at_ms c k v ms db)) \<and>
    visible t (db_map (snd (db_set_at_ms c k v ms db))) =
      (case duration_until_unix_ms c ms of
         None \<Rightarrow> (visible t (db_map db))(k := None)
       | Some r \<Rightarrow>
           if representable c (Some r)
           then (visible t (db_map db))(k := fresh t (with_expire_at v (deadline c (Some r))))
           else visible t (db_map db))"
  using assms
  by (cases "duration_until_unix_ms c ms")
     (simp_all add: db_set_at_ms_def instant_add_representable deadline_def, simp add: representable_def)

lemma db_expire_at_spec:
  assumes "db_wf db"
  shows "fst (db_expire_at_ms c k ms db) =
      (if visible (check_at c k) (db_map db) k = None then Ok False
       else if representable c (duration_until_unix_ms c ms) then Ok True else Panic) \<and>
    db_wf (snd (db_expire_at_ms c k ms db)) \<and>
    (before c t \<longrightarrow> visible t (db_map (snd (db_expire_at_ms c k ms db))) =
      (case visible (check_at c k) (db_map db) k of
         None \<Rightarrow> visible t (db_map db)
       | Some e \<Rightarrow>
           (case duration_until_unix_ms c ms of
              None \<Rightarrow> (visible t (db_map db))(k := None)
            | Some r \<Rightarrow>
                if representable c (Some r)
                then (visible t (db_map db))(k := fresh t (e\<lparr>expire_at := deadline c (Some r)\<rparr>))
                else visible t (db_map db))))"
proof (cases rule: remove_if_expired_cases [of db k c])
  case (expired e)
  with assms show ?thesis by (simp add: db_expire_at_ms_def visible_drop)
next
  case kept
  note kept' = this
  show ?thesis
  proof (cases "db_map db k")
    case None
    with kept' assms have "visible t (db_map db) k = None" by (simp add: visible_def)
    with None kept' assms show ?thesis
      by (auto simp: db_expire_at_ms_def hm_get_db_map fun_upd_idem split: option.splits)
  next
    case (Some e)
    with kept' assms show ?thesis
      by (cases "duration_until_unix_ms c ms")
         (simp_all add: db_expire_at_ms_def hm_get_db_map instant_add_representable deadline_def,
          simp add: representable_def)
  qed
qed

text \<open>One round of the deletion loop, whichever of its three branches is taken.\<close>

lemma db_del_round:
  assumes "db_wf db"
  obtains db1 where
    "\<And>ks r. db_del_loop c (k # ks) r db =
       db_del_loop c ks (if visible (check_at c k) (db_map db) k = None then r else r + 1) db1"
    "db_wf db1" "db_map db1 = (db_map db)(k := None)"
proof (cases rule: remove_if_expired_cases [of db k c])
  case (expired e)
  with assms show ?thesis
    by (intro that [of "db\<lparr>data := hm_remove k (data db)\<rparr>"]) simp_all
next
  case kept
  then show ?thesis
    using assms
    by (cases "db_map db k")
       (auto simp: hm_get_db_map fun_upd_idem intro: that [of db] that [of "db\<lparr>data := hm_remove k (data db)\<rparr>"])
qed

lemma card_visible_Cons:
  assumes "m' = m(k := None)"
  shows "card {k' \<in> set (k # ks). visible (ct k') m k' \<noteq> None} =
     (if visible (ct k) m k = None then 0 else 1) + card {k' \<in> set ks. visible (ct k') m' k' \<noteq> None}"
proof -
  let ?R = "{k' \<in> set ks. visible (ct k') m' k' \<noteq> None}"
  have "{k' \<in> set (k # ks). visible (ct k') m k' \<noteq> None} =
      (if visible (ct k) m k = None then ?R else insert k ?R)"
    by (auto simp: assms)
  moreover have "k \<notin> ?R" by (simp add: assms)
  ultimately show ?thesis by simp
qed

lemma db_del_loop_spec:
  assumes "db_wf db"
  shows "fst (db_del_loop c ks r db) = r + card {k \<in> set ks. visible (check_at c k) (db_map db) k \<noteq> None} \<and>
    db_wf (snd (db_del_loop c ks r db)) \<and>
    db_map (snd (db_del_loop c ks r db)) = (\<lambda>k. if k \<in> set ks then None else db_map db k)"
  using assms
proof (induction ks arbitrary: r db)
  case Nil
  then show ?case by simp
next
  case (Cons k ks)
  obtain db1 where step: "\<And>ks r. db_del_loop c (k # ks) r db =
       db_del_loop c ks (if visible (check_at c k) (db_map db) k = None then r else r + 1) db1"
    and db1: "db_wf db1" "db_map db1 = (db_map db)(k := None)"
    by (rule db_del_round [OF Cons.prems, where c = c and k = k]) (rule that)
  show ?case
    unfolding step card_visible_Cons [OF db1(2)]
    using Cons.IH [OF db1(1)] by (intro conjI; simp) (simp add: db1(2) fun_eq_iff)
qed

lemma db_del_spec:
  assumes "db_wf db"
  shows "fst (db_del c ks db) = Ok (card {k \<in> set ks. visible (check_at c k) (db_map db) k \<noteq> None}) \<and>
    db_wf (snd (db_del c ks db)) \<and>
    db_map (snd (db_del c ks db)) = (\<lambda>k. if k \<in> set ks then None else db_map db k)"
  using db_del_loop_spec [OF assms, of c ks 0]
  by (simp add: db_del_def case_prod_beta)

lemma db_ttl_spec:
  assumes "db_wf db"
  shows "(monotonic c \<longrightarrow> fst (db_ttl c k db) =
      Ok (case visible (op_at c) (db_map db) k of
            None \<Rightarrow> - 2
          | Some e \<Rightarrow> (case expire_at e of None \<Rightarrow> - 1 | Some t \<Rightarrow> ttl_seconds (t - op_at c)))) \<and>
    db_wf (snd (db_ttl c k db)) \<and>
    (before c t \<longrightarrow> visible t (db_map (snd (db_ttl c k db))) = visible t (db_map db))"
proof (cases rule: remove_if_expired_cases [of db k c])
  case (expired e)
  then have "visible (op_at c) (db_map db) k = None" if "monotonic c"
    using that visible_gone_stays_gone by (auto simp: monotonic_def)
  with expired assms show ?thesis by (simp add: db_ttl_def visible_drop)
next
  case kept
  show ?thesis
  proof (cases "db_map db k")
    case None
    with kept assms show ?thesis by (simp add: db_ttl_def hm_get_db_map visible_def)
  next
    case (Some e)
    have gone: "(visible t (db_map db))(k := None) = visible t (db_map db)"
      if "is_expired e (op_at c)" "before c t"
      using that Some visible_expired [of "db_map db" k e "op_at c" t]
      by (simp add: beforeD fun_upd_idem)
    have "visible t (db_map (snd (db_ttl c k db))) = visible t (db_map db)" if "before c t"
      using Some kept assms gone that
      by (auto simp: db_ttl_def hm_get_db_map is_expired_def Let_def split: option.splits)
    with Some kept assms show ?thesis
      by (auto simp: db_ttl_def hm_get_db_map visible_def fresh_def is_expired_def Let_def
          split: option.splits)
  qed
qed

text \<open>\<open>KEYS\<close> lists the visible keys in ascending byte order, whatever the iteration order was.\<close>

lemma sort_distinct_eq: "distinct xs \<Longrightarrow> sort xs = sorted_list_of_set (set xs)"
  by (simp add: sorted_list_of_set_sort_remdups distinct_remdups_id)

lemma db_keys_spec:
  assumes "db_wf db"
  shows "db_keys c db = Ok (sorted_list_of_set {k. visible (sweep_at c k) (db_map db) k \<noteq> None})"
proof -
  let ?xs = "filter (\<lambda>(key, entry). \<not> is_expired entry (sweep_at c key)) (data db)"
  have "distinct (map fst ?xs)"
    using assms by (simp add: db_wf_def hm_wf_def distinct_map_filter)
  moreover have "set (map fst ?xs) = {k. visible (sweep_at c k) (db_map db) k \<noteq> None}"
    using assms hm_get_iff [of "data db"]
    by (force simp: db_wf_def db_map_def visible_Some_iff not_None_eq)
  ultimately show ?thesis
    by (simp add: db_keys_def sort_distinct_eq del: set_map)
qed

lemma db_sweep_count:
  "db_wf db \<Longrightarrow> fst (db_remove_expired c db) =
     card (dom (db_map db)) - card (dom (db_map (snd (db_remove_expired c db))))"
  using db_wf_sweep [of db c]
  by (simp add: db_remove_expired_def Let_def db_len_card)

lemmas db_specs = db_set_spec db_get_spec db_del_spec db_exists_spec db_keys_spec db_expire_spec
  db_ttl_spec db_set_at_spec db_expire_at_spec db_wf_sweep visible_sweep db_sweep_count

interpretation db: timed_storage db_wf db_map db_set db_get db_del db_exists db_keys db_expire db_ttl
  db_flushdb db_remove_expired db_set_at_ms db_expire_at_ms
proof unfold_locales
  fix db c ks t
  assume wf: "db_wf db"
  show "finite (dom (db_map db))" by (rule db_finite)
  show "db_wf (snd (db_flushdb db))" "fst (db_flushdb db) = Ok ()"
    "db_map (snd (db_flushdb db)) = (\<lambda>_. None)"
    using wf by (simp_all add: db_flushdb_def)
  show "visible t (db_map (snd (db_del c ks db))) =
      (\<lambda>k. if k \<in> set ks then None else visible t (db_map db) k)"
    using db_del_spec [OF wf, of c ks] by (auto simp: visible_def)
qed (simp_all add: db_specs)

text \<open>One call of a client, on this store.\<close>

fun db_call :: "clock \<Rightarrow> store_call \<Rightarrow> database \<Rightarrow> reply \<times> database" where
  "db_call c (Call_set k v e) db = answer (\<lambda>_. Done) (db_set c k v e db)"
| "db_call c (Call_set_at_ms k v ms) db = answer (\<lambda>_. Done) (db_set_at_ms c k v ms db)"
| "db_call c (Call_get k) db = answer Found (db_get c k db)"
| "db_call c (Call_del ks) db = answer Count (db_del c ks db)"
| "db_call c (Call_exists k) db = answer Flag (db_exists c k db)"
| "db_call c Call_keys db = answer Names (db_keys c db, db)"
| "db_call c (Call_expire k s) db = answer Flag (db_expire c k s db)"
| "db_call c (Call_expire_at_ms k ms) db = answer Flag (db_expire_at_ms c k ms db)"
| "db_call c (Call_ttl k) db = answer Seconds (db_ttl c k db)"
| "db_call c Call_flushdb db = answer (\<lambda>_. Done) (db_flushdb db)"
| "db_call c Call_remove_expired db = (Ok Swept, snd (db_remove_expired c db))"

section \<open>TTL arithmetic\<close>

lemma ttl_seconds_ceiling:
  "ttl_seconds r = word_of_nat ((r + 999999999) div 1000000000)"
proof -
  let ?m = "r mod 1000000000"
  have "(r + 999999999) div 1000000000 = ((?m + 999999999) + 1000000000 * (r div 1000000000)) div 1000000000"
    by (simp add: add.commute add.left_commute)
  also have "\<dots> = r div 1000000000 + (?m + 999999999) div 1000000000"
    by (subst div_mult_self2) simp_all
  also have "(?m + 999999999) div 1000000000 = (if 0 < ?m then 1 else 0)"
    by (cases "?m = 0") (auto intro: div_nat_eqI)
  finally have "(r + 999999999) div 1000000000 = r div 1000000000 + (if 0 < ?m then 1 else 0)" .
  then show ?thesis
    by (simp add: ttl_seconds_def as_secs_def subsec_nanos_def u64_of_def nanos_per_sec_def)
qed

lemma sint_i64_of_nat: "n \<le> i64_max \<Longrightarrow> sint (word_of_nat n :: i64) = int n"
  by (simp add: sint_uint i64_max_def unsigned_of_nat take_bit_nat_eq_self signed_take_bit_int_eq_self)

lemma ttl_seconds_bounds:
  assumes "0 < r" "r \<le> from_secs i64_max"
  shows "0 < sint (ttl_seconds r)"
    and "int r \<le> sint (ttl_seconds r) * 1000000000"
    and "sint (ttl_seconds r) * 1000000000 < int r + 1000000000"
proof -
  let ?n = "(r + 999999999) div 1000000000"
  have le: "?n \<le> i64_max"
    using assms(2) by (simp add: from_secs_def nanos_per_sec_def i64_max_def)
  have n: "0 < ?n" "r \<le> ?n * 1000000000" "?n * 1000000000 < r + 1000000000"
    using assms(1) by auto
  have eq: "sint (ttl_seconds r) = int ?n"
    unfolding ttl_seconds_ceiling by (rule sint_i64_of_nat [OF le])
  from n show "0 < sint (ttl_seconds r)" "int r \<le> sint (ttl_seconds r) * 1000000000"
    "sint (ttl_seconds r) * 1000000000 < int r + 1000000000"
    unfolding eq by linarith+
qed

section \<open>Properties\<close>

text \<open>A small store: one key without a deadline, one that expires at instant 5, one that expired at 1.\<close>

definition sample_db :: database where
  "sample_db = \<lparr>data = [(''b'', with_expire_at ''1'' None), (''a'', with_expire_at ''2'' (Some 5000000000)),
     (''c'', with_expire_at ''3'' (Some 1))]\<rparr>"

lemma sample_db_wf: "db_wf sample_db"
  by code_simp

text \<open>
  C40: \<open>Database::ttl\<close> answers the contract of \<open>TTL\<close>: -2 exactly when the key is not visible at the
  moment of the operation's reading, -1 exactly when it has no deadline, and otherwise a positive
  number of seconds, the remaining time rounded up.
\<close>

theorem db_ttl_contract:
  assumes "db_wf db" and "monotonic c"
    and "\<And>e t. db_map db k = Some e \<Longrightarrow> expire_at e = Some t \<Longrightarrow> t - op_at c \<le> from_secs i64_max"
  shows "\<exists>n. fst (db_ttl c k db) = Ok n \<and>
    (sint n = - 2 \<longleftrightarrow> visible (op_at c) (db_map db) k = None) \<and>
    (sint n = - 1 \<longleftrightarrow> (\<exists>v. visible (op_at c) (db_map db) k = Some (with_expire_at v None))) \<and>
    (\<forall>v t. visible (op_at c) (db_map db) k = Some (with_expire_at v (Some t)) \<longrightarrow>
       0 < sint n \<and> int (t - op_at c) \<le> sint n * 1000000000 \<and>
       sint n * 1000000000 < int (t - op_at c) + 1000000000)"
proof -
  note result = db_ttl_spec [OF assms(1), of c k, THEN conjunct1, rule_format, OF assms(2)]
  have neg: "sint (- 2 :: i64) = - 2" "sint (- 1 :: i64) = - 1" by simp_all
  show ?thesis
  proof (cases "visible (op_at c) (db_map db) k")
    case None
    with result show ?thesis by (auto simp: neg)
  next
    case (Some e)
    then have e: "db_map db k = Some e" "\<not> is_expired e (op_at c)" by (simp_all add: visible_Some_iff)
    show ?thesis
    proof (cases "expire_at e")
      case None
      then have "e = with_expire_at (evalue e) None" by (simp add: with_expire_at_def)
      with Some None result show ?thesis
        by (auto simp: neg with_expire_at_def intro: exI [of _ "evalue e"])
    next
      case (Some t)
      with e assms(3) have r: "0 < t - op_at c" "t - op_at c \<le> from_secs i64_max"
        by (auto simp: is_expired_def)
      show ?thesis
        using \<open>visible (op_at c) (db_map db) k = Some e\<close> Some result ttl_seconds_bounds [OF r]
        by (auto simp: with_expire_at_def)
    qed
  qed
qed

lemma db_ttl_contract_witness:
  "\<exists>n. fst (db_ttl (clock_at 2000000001 None 9) ''a'' sample_db) = Ok n \<and> 0 < sint n \<and>
     sint n * 1000000000 < 2999999999 + 1000000000"
proof -
  let ?c = "clock_at 2000000001 None 9"
  have m: "db_map sample_db ''a'' = Some (with_expire_at ''2'' (Some 5000000000))"
    by code_simp
  have "visible (op_at ?c) (db_map sample_db) ''a'' = Some (with_expire_at ''2'' (Some 5000000000))"
    by code_simp
  moreover have "\<And>e t. db_map sample_db ''a'' = Some e \<Longrightarrow> expire_at e = Some t \<Longrightarrow>
      t - op_at ?c \<le> from_secs i64_max"
    unfolding m by (auto simp: with_expire_at_def from_secs_def nanos_per_sec_def i64_max_def)
  ultimately show ?thesis
    using db_ttl_contract [OF sample_db_wf, of ?c "''a''"] by fastforce
qed

text \<open>
  \<open>Database::keys\<close> returns the visible keys in strictly ascending byte order, each once and none
  left out, and two stores that show the same entries list the same keys, whatever the iteration
  order of their hash maps.
\<close>

theorem db_keys_sorted_complete:
  assumes "db_wf db"
  shows "\<exists>ks. db_keys c db = Ok ks \<and> sorted_wrt (<) ks \<and>
    (\<forall>k. k \<in> set ks \<longleftrightarrow> visible (sweep_at c k) (db_map db) k \<noteq> None) \<and>
    (\<forall>db'. db_wf db' \<longrightarrow> db_map db' = db_map db \<longrightarrow> db_keys c db' = Ok ks)"
proof -
  let ?S = "{k. visible (sweep_at c k) (db_map db) k \<noteq> None}"
  have "?S \<subseteq> dom (db_map db)" by (auto simp: visible_Some_iff)
  then have "finite ?S" using db_finite finite_subset by blast
  then show ?thesis
    using db_keys_spec assms by (intro exI [of _ "sorted_list_of_set ?S"]) auto
qed

lemma db_keys_sorted_complete_witness:
  "\<exists>ks. db_keys (clock_at 7 None 9) sample_db = Ok ks \<and> sorted_wrt (<) ks \<and> ''a'' \<in> set ks \<and> ''c'' \<notin> set ks"
proof -
  have "visible 7 (db_map sample_db) ''a'' \<noteq> None" "visible 7 (db_map sample_db) ''c'' = None"
    by code_simp+
  then show ?thesis
    using db_keys_sorted_complete [OF sample_db_wf, of "clock_at 7 None 9"] by auto
qed

text \<open>
  \<open>Database::del\<close> counts each key that was visible once, however often the client names it, and
  afterwards holds exactly the entries whose keys were not named: expired entries are dropped
  without being counted.
\<close>

theorem db_del_counts_visible_once:
  assumes "db_wf db"
  shows "fst (db_del c ks db) = Ok (card {k \<in> set ks. visible (check_at c k) (db_map db) k \<noteq> None}) \<and>
    db_map (snd (db_del c ks db)) = db_map db |` (- set ks)"
  using db_del_spec [OF assms, of c ks] by (auto simp: restrict_map_def fun_eq_iff)

lemma db_del_counts_visible_once_witness:
  "fst (db_del (clock_at 7 None 9) [''a'', ''c'', ''a'', ''d''] sample_db) = Ok 1 \<and>
   db_map (snd (db_del (clock_at 7 None 9) [''a'', ''c'', ''a'', ''d''] sample_db)) ''b'' \<noteq> None"
proof -
  have "{k \<in> set [''a'', ''c'', ''a'', ''d'']. visible 7 (db_map sample_db) k \<noteq> None} =
      set (filter (\<lambda>k. visible 7 (db_map sample_db) k \<noteq> None) [''a'', ''c'', ''d''])"
    by auto
  also have "filter (\<lambda>k. visible 7 (db_map sample_db) k \<noteq> None) [''a'', ''c'', ''d''] = [''a'']"
    by code_simp
  finally have "card {k \<in> set [''a'', ''c'', ''a'', ''d'']. visible 7 (db_map sample_db) k \<noteq> None} = 1"
    by simp
  moreover have "db_map sample_db ''b'' \<noteq> None" by code_simp
  ultimately show ?thesis
    using db_del_counts_visible_once [OF sample_db_wf, of "clock_at 7 None 9" "[''a'', ''c'', ''a'', ''d'']"]
    by (simp add: restrict_map_def)
qed

end
