(* ===== verification/Sharded.thy ===== *)
theory Sharded
  imports Database
begin

text \<open>
  \<open>struct ShardedDatabase\<close> of \<open>rustkv-core/src/db.rs\<close>: the key space split over databases by a hash
  of the key, with a counter of keys kept beside them. Each operation is modelled as it runs with
  the locks it takes held (the global lock shared or exclusive, the shard's lock), so as one step.
  The hash is \<open>DefaultHasher\<close>, whose function the standard library leaves unspecified: it is the
  parameter \<open>h\<close>. An operation whose shard operation panics unwinds past the counter update; what
  it had changed stays.
\<close>

type_synonym hasher = "bytes \<Rightarrow> nat"

record sharded =
  shards :: "database list"
  key_counter :: nat

record 'a db_outcome =
  outcome :: "(kv_error, 'a) result"
  key_count :: nat
  expired_count :: nat

record db_info =
  info_key_count :: nat
  info_memory_estimate_bytes :: nat
  info_expired_count :: nat

record db_snapshot_entry =
  snap_key :: bytes
  snap_value :: bytes
  snap_expire_at_ms :: "nat option"

record db_snapshot =
  snap_entries :: "db_snapshot_entry list"
  snap_key_count :: nat
  snap_expired_count :: nat

definition default_shard_count :: nat where "default_shard_count = 16"

section \<open>Operations\<close>

definition sharded_new :: "nat \<Rightarrow> sharded" where
  "sharded_new shard_count = \<lparr>shards = replicate (max shard_count 1) db_new, key_counter = 0\<rparr>"

definition shard_count :: "sharded \<Rightarrow> nat" where
  "shard_count sd = length (shards sd)"

definition sharded_len :: "sharded \<Rightarrow> nat" where
  "sharded_len sd = key_counter sd"

definition sharded_is_empty :: "sharded \<Rightarrow> bool" where
  "sharded_is_empty sd \<longleftrightarrow> sharded_len sd = 0"

definition shard_for_key :: "hasher \<Rightarrow> bytes \<Rightarrow> sharded \<Rightarrow> nat" where
  "shard_for_key h key sd = h key mod length (shards sd)"

definition apply_len_change :: "nat \<Rightarrow> nat \<Rightarrow> sharded \<Rightarrow> sharded" where
  "apply_len_change len_before len_after sd =
     (if len_before \<le> len_after then sd\<lparr>key_counter := key_counter sd + (len_after - len_before)\<rparr>
      else sd\<lparr>key_counter := key_counter sd - (len_before - len_after)\<rparr>)"

definition put_shard :: "nat \<Rightarrow> database \<Rightarrow> sharded \<Rightarrow> sharded" where
  "put_shard i db sd = sd\<lparr>shards := (shards sd)[i := db]\<rparr>"

text \<open>
  The body \<open>get\<close>, \<open>exists\<close>, \<open>expire\<close>, \<open>expire_at_ms\<close> and \<open>ttl\<close> share: lock the key's shard, note its
  length, run the shard's operation, apply the change of length, report what went missing.
\<close>

definition on_shard ::
  "nat \<Rightarrow> (database \<Rightarrow> ('a, database) op) \<Rightarrow> sharded \<Rightarrow> ('a db_outcome, sharded) op" where
  "on_shard i f sd =
     (let db = shards sd ! i;
          len_before = db_len db;
          (res, db') = f db;
          sd1 = put_shard i db' sd
      in if res = Panic then (Panic, sd1)
         else let len_after = db_len db';
                  sd2 = apply_len_change len_before len_after sd1
              in (Ok \<lparr>outcome = res, key_count = sharded_len sd2, expired_count = len_before - len_after\<rparr>, sd2))"

text \<open>The body of \<open>set\<close> and \<open>set_at_ms\<close>, which sweep the shard first.\<close>

definition on_swept_shard ::
  "clock \<Rightarrow> nat \<Rightarrow> (database \<Rightarrow> ('a, database) op) \<Rightarrow> sharded \<Rightarrow> ('a db_outcome, sharded) op" where
  "on_swept_shard c i f sd =
     (let db = shards sd ! i;
          len_before = db_len db;
          (expired, db1) = db_remove_expired c db;
          (res, db2) = f db1;
          sd1 = put_shard i db2 sd
      in if res = Panic then (Panic, sd1)
         else let len_after = db_len db2;
                  sd2 = apply_len_change len_before len_after sd1
              in (Ok \<lparr>outcome = res, key_count = sharded_len sd2, expired_count = expired\<rparr>, sd2))"

definition sharded_set ::
  "hasher \<Rightarrow> clock \<Rightarrow> bytes \<Rightarrow> bytes \<Rightarrow> duration option \<Rightarrow> sharded \<Rightarrow> (unit db_outcome, sharded) op" where
  "sharded_set h c key val expire sd =
     on_swept_shard c (shard_for_key h key sd) (db_set c key val expire) sd"

definition sharded_set_at_ms ::
  "hasher \<Rightarrow> clock \<Rightarrow> bytes \<Rightarrow> bytes \<Rightarrow> nat \<Rightarrow> sharded \<Rightarrow> (unit db_outcome, sharded) op" where
  "sharded_set_at_ms h c key val timestamp_ms sd =
     on_swept_shard c (shard_for_key h key sd) (db_set_at_ms c key val timestamp_ms) sd"

definition sharded_get :: "hasher \<Rightarrow> clock \<Rightarrow> bytes \<Rightarrow> sharded \<Rightarrow> (bytes option db_outcome, sharded) op" where
  "sharded_get h c key sd = on_shard (shard_for_key h key sd) (db_get c key) sd"

definition sharded_exists :: "hasher \<Rightarrow> clock \<Rightarrow> bytes \<Rightarrow> sharded \<Rightarrow> (bool db_outcome, sharded) op" where
  "sharded_exists h c key sd = on_shard (shard_for_key h key sd) (db_exists c key) sd"

definition sharded_expire :: "hasher \<Rightarrow> clock \<Rightarrow> bytes \<Rightarrow> nat \<Rightarrow> sharded \<Rightarrow> (bool db_outcome, sharded) op" where
  "sharded_expire h c key secs sd = on_shard (shard_for_key h key sd) (db_expire c key secs) sd"

definition sharded_expire_at_ms ::
  "hasher \<Rightarrow> clock \<Rightarrow> bytes \<Rightarrow> nat \<Rightarrow> sharded \<Rightarrow> (bool db_outcome, sharded) op" where
  "sharded_expire_at_ms h c key timestamp_ms sd =
     on_shard (shard_for_key h key sd) (db_expire_at_ms c key timestamp_ms) sd"

definition sharded_ttl :: "hasher \<Rightarrow> clock \<Rightarrow> bytes \<Rightarrow> sharded \<Rightarrow> (i64 db_outcome, sharded) op" where
  "sharded_ttl h c key sd = on_shard (shard_for_key h key sd) (db_ttl c key) sd"

text \<open>\<open>del\<close> visits the keys one by one, each under its own shard's lock, with two running totals.\<close>

fun sharded_del_loop ::
  "hasher \<Rightarrow> clock \<Rightarrow> bytes list \<Rightarrow> nat \<Rightarrow> nat \<Rightarrow> sharded \<Rightarrow> (nat db_outcome, sharded) op" where
  "sharded_del_loop h c [] removed expired sd =
     (Ok \<lparr>outcome = Ok removed, key_count = sharded_len sd, expired_count = expired\<rparr>, sd)"
| "sharded_del_loop h c (key # keys) removed expired sd =
     (let i = shard_for_key h key sd;
          db = shards sd ! i;
          len_before = db_len db;
          (res, db') = db_del c [key] db;
          sd1 = put_shard i db' sd;
          len_after = db_len db';
          sd2 = apply_len_change len_before len_after sd1
      in case res of
           Ok count \<Rightarrow>
             sharded_del_loop h c keys (removed + count) (expired + (len_before - len_after - count)) sd2
         | Err e \<Rightarrow> (Ok \<lparr>outcome = Err e, key_count = sharded_len sd2, expired_count = expired\<rparr>, sd2)
         | Panic \<Rightarrow> (Panic, sd1))"

definition sharded_del :: "hasher \<Rightarrow> clock \<Rightarrow> bytes list \<Rightarrow> sharded \<Rightarrow> (nat db_outcome, sharded) op" where
  "sharded_del h c keys sd = sharded_del_loop h c keys 0 0 sd"

definition sharded_keys :: "clock \<Rightarrow> sharded \<Rightarrow> (kv_error, bytes list) result" where
  "sharded_keys c sd =
     try_then (collect_results (db_keys c) (shards sd)) (\<lambda>kss. Ok (sort (concat kss)))"

text \<open>\<open>flushdb\<close> clears shard after shard, then zeroes the counter; \<open>Database::flushdb\<close> cannot fail.\<close>

fun flush_loop :: "database list \<Rightarrow> (kv_error, unit) result \<times> database list" where
  "flush_loop [] = (Ok (), [])"
| "flush_loop (db # dbs) =
     (case db_flushdb db of
        (Ok _, db') \<Rightarrow> (let (res, dbs') = flush_loop dbs in (res, db' # dbs'))
      | (Err e, db') \<Rightarrow> (Err e, db' # dbs)
      | (Panic, db') \<Rightarrow> (Panic, db' # dbs))"

definition sharded_flushdb :: "sharded \<Rightarrow> (unit db_outcome, sharded) op" where
  "sharded_flushdb sd =
     (let (res, dbs) = flush_loop (shards sd); sd1 = sd\<lparr>shards := dbs\<rparr>
      in case res of
           Ok _ \<Rightarrow> (Ok \<lparr>outcome = Ok (), key_count = 0, expired_count = 0\<rparr>, sd1\<lparr>key_counter := 0\<rparr>)
         | Err e \<Rightarrow> (Ok \<lparr>outcome = Err e, key_count = sharded_len sd1, expired_count = 0\<rparr>, sd1)
         | Panic \<Rightarrow> (Panic, sd1))"

text \<open>
  \<open>info_snapshot\<close>, \<open>remove_expired\<close> and \<open>snapshot_entries\<close> visit every shard under the exclusive
  lock. \<open>sweep_shard\<close> is what the first two do with one shard.
\<close>

definition sweep_shard :: "clock \<Rightarrow> nat \<Rightarrow> sharded \<Rightarrow> nat \<times> sharded" where
  "sweep_shard c i sd =
     (let db = shards sd ! i;
          len_before = db_len db;
          (removed, db') = db_remove_expired c db;
          len_after = db_len db'
      in (removed, apply_len_change len_before len_after (put_shard i db' sd)))"

fun sweep_loop :: "clock \<Rightarrow> nat list \<Rightarrow> nat \<Rightarrow> sharded \<Rightarrow> nat \<times> sharded" where
  "sweep_loop c [] expired sd = (expired, sd)"
| "sweep_loop c (i # is) expired sd =
     (let (removed, sd) = sweep_shard c i sd in sweep_loop c is (expired + removed) sd)"

definition sharded_remove_expired :: "clock \<Rightarrow> sharded \<Rightarrow> (nat \<times> nat) \<times> sharded" where
  "sharded_remove_expired c sd =
     (let (expired, sd) = sweep_loop c [0..<length (shards sd)] 0 sd
      in ((expired, sharded_len sd), sd))"

fun info_loop :: "layout \<Rightarrow> clock \<Rightarrow> nat list \<Rightarrow> nat \<Rightarrow> nat \<Rightarrow> sharded \<Rightarrow> nat \<times> nat \<times> sharded" where
  "info_loop ly c [] expired memory sd = (expired, memory, sd)"
| "info_loop ly c (i # is) expired memory sd =
     (let (removed, sd) = sweep_shard c i sd
      in info_loop ly c is (expired + removed)
           (memory + db_memory_estimate_bytes ly (shards sd ! i)) sd)"

definition sharded_info_snapshot :: "layout \<Rightarrow> clock \<Rightarrow> sharded \<Rightarrow> db_info \<times> sharded" where
  "sharded_info_snapshot ly c sd =
     (let (expired, memory, sd) = info_loop ly c [0..<length (shards sd)] 0 0 sd
      in (\<lparr>info_key_count = sharded_len sd, info_memory_estimate_bytes = memory,
           info_expired_count = expired\<rparr>, sd))"

text \<open>\<open>snapshot_entries\<close> compares every entry with one reading of each clock, taken at its start.\<close>

definition snapshot_entry :: "instant \<Rightarrow> nat \<Rightarrow> bytes \<times> entry \<Rightarrow> db_snapshot_entry" where
  "snapshot_entry instant_now unix_now_ms kv =
     (case kv of (key, entry) \<Rightarrow>
        \<lparr>snap_key = key, snap_value = evalue entry,
         snap_expire_at_ms =
           map_option (\<lambda>expire_at. unix_ms_after unix_now_ms (expire_at - instant_now)) (expire_at entry)\<rparr>)"

definition snapshot_retain :: "instant \<Rightarrow> database \<Rightarrow> database" where
  "snapshot_retain instant_now db =
     db\<lparr>data := hm_retain (\<lambda>_ entry. case expire_at entry of None \<Rightarrow> True | Some t \<Rightarrow> instant_now < t) (data db)\<rparr>"

fun snapshot_loop ::
  "instant \<Rightarrow> nat \<Rightarrow> nat list \<Rightarrow> db_snapshot_entry list \<Rightarrow> nat \<Rightarrow> sharded \<Rightarrow> db_snapshot_entry list \<times> nat \<times> sharded" where
  "snapshot_loop instant_now unix_now_ms [] entries expired sd = (entries, expired, sd)"
| "snapshot_loop instant_now unix_now_ms (i # is) entries expired sd =
     (let db = shards sd ! i;
          len_before = db_len db;
          db' = snapshot_retain instant_now db;
          len_after = db_len db';
          sd = apply_len_change len_before len_after (put_shard i db' sd)
      in snapshot_loop instant_now unix_now_ms is
           (entries @ map (snapshot_entry instant_now unix_now_ms) (data db')) (expired + (len_before - len_after)) sd)"

definition sharded_snapshot_entries :: "clock \<Rightarrow> sharded \<Rightarrow> db_snapshot \<times> sharded" where
  "sharded_snapshot_entries c sd =
     (let (entries, expired, sd) =
            snapshot_loop (op_at c) (current_unix_ms c) [0..<length (shards sd)] [] 0 sd
      in (\<lparr>snap_entries = sort_key snap_key entries, snap_key_count = sharded_len sd,
           snap_expired_count = expired\<rparr>, sd))"

section \<open>Abstraction and invariants\<close>

text \<open>
  The entry of a key is the one in its own shard. The store is well formed when there is a shard,
  every shard is, and every shard holds only keys that hash to it.
\<close>

definition sharded_map :: "hasher \<Rightarrow> sharded \<Rightarrow> (bytes \<rightharpoonup> entry)" where
  "sharded_map h sd = (\<lambda>k. db_map (shards sd ! shard_for_key h k sd) k)"

definition shard_wf :: "hasher \<Rightarrow> nat \<Rightarrow> nat \<Rightarrow> database \<Rightarrow> bool" where
  "shard_wf h n i db \<longleftrightarrow> db_wf db \<and> (\<forall>k \<in> dom (db_map db). h k mod n = i)"

definition sharded_wf :: "hasher \<Rightarrow> sharded \<Rightarrow> bool" where
  "sharded_wf h sd \<longleftrightarrow> shards sd \<noteq> [] \<and>
     (\<forall>i < length (shards sd). shard_wf h (length (shards sd)) i (shards sd ! i))"

definition total_len :: "sharded \<Rightarrow> nat" where
  "total_len sd = sum_list (map db_len (shards sd))"

text \<open>What the caller of an operation sees of it, as an operation of the contract.\<close>

definition flat :: "('a db_outcome, 'd) op \<Rightarrow> ('a, 'd) op" where
  "flat r = (try_then (fst r) outcome, snd r)"

lemma snd_flat [simp]: "snd (flat r) = snd r"
  by (simp add: flat_def)

lemma apply_len_change_shards [simp]: "shards (apply_len_change a b sd) = shards sd"
  by (simp add: apply_len_change_def)

lemma put_shard_shards [simp]: "shards (put_shard i db sd) = (shards sd)[i := db]"
  by (simp add: put_shard_def)

lemma shard_for_key_less: "sharded_wf h sd \<Longrightarrow> shard_for_key h k sd < length (shards sd)"
  by (simp add: sharded_wf_def shard_for_key_def)

lemma shard_wfI: "sharded_wf h sd \<Longrightarrow> i < length (shards sd) \<Longrightarrow> shard_wf h (length (shards sd)) i (shards sd ! i)"
  by (simp add: sharded_wf_def)

lemma own_shard_wf: "sharded_wf h sd \<Longrightarrow> db_wf (shards sd ! shard_for_key h k sd)"
  using shard_wfI shard_for_key_less by (auto simp: shard_wf_def)

lemma shard_entry:
  "sharded_wf h sd \<Longrightarrow> i < length (shards sd) \<Longrightarrow> db_map (shards sd ! i) k = Some e \<Longrightarrow>
     shard_for_key h k sd = i \<and> sharded_map h sd k = Some e"
  using shard_wfI [of h sd i] by (force simp: shard_wf_def shard_for_key_def sharded_map_def)

lemma shard_outcome_simps [simp]:
  "fst (flat (on_shard i f sd)) = fst (f (shards sd ! i))"
  "shards (snd (on_shard i f sd)) = (shards sd)[i := snd (f (shards sd ! i))]"
  "fst (flat (on_swept_shard c i f sd)) = fst (f (snd (db_remove_expired c (shards sd ! i))))"
  "shards (snd (on_swept_shard c i f sd)) =
     (shards sd)[i := snd (f (snd (db_remove_expired c (shards sd ! i))))]"
  by (auto simp: on_shard_def on_swept_shard_def flat_def Let_def split: prod.splits)

subsection \<open>Where operations may put keys\<close>

lemma dom_remove_if_expired:
  "db_wf db \<Longrightarrow> dom (db_map (snd (remove_if_expired c k db))) \<subseteq> dom (db_map db)"
  by (auto simp: remove_if_expired_def)

lemma dom_sweep: "db_wf db \<Longrightarrow> dom (db_map (snd (db_remove_expired c db))) \<subseteq> dom (db_map db)"
  by (auto simp: db_remove_expired_def Let_def db_map_def db_wf_def hm.get_retain split: option.splits if_splits)

lemma dom_ops:
  assumes "db_wf db"
  shows "dom (db_map (snd (db_set c k v e db))) \<subseteq> insert k (dom (db_map db))"
    and "dom (db_map (snd (db_set_at_ms c k v ms db))) \<subseteq> insert k (dom (db_map db))"
    and "dom (db_map (snd (db_get c k db))) \<subseteq> insert k (dom (db_map db))"
    and "dom (db_map (snd (db_exists c k db))) \<subseteq> insert k (dom (db_map db))"
    and "dom (db_map (snd (db_expire c k s db))) \<subseteq> insert k (dom (db_map db))"
    and "dom (db_map (snd (db_expire_at_ms c k ms db))) \<subseteq> insert k (dom (db_map db))"
    and "dom (db_map (snd (db_ttl c k db))) \<subseteq> insert k (dom (db_map db))"
    and "dom (db_map (snd (db_del c ks db))) \<subseteq> dom (db_map db)"
  using assms
  by (auto simp: db_set_spec db_set_at_ms_def db_get_def db_exists_def db_expire_def db_expire_at_ms_def
      db_ttl_def remove_if_expired_def instant_add_def Let_def db_del_spec
      split: option.splits if_splits)

lemma shard_wf_grow:
  "shard_wf h n i db \<Longrightarrow> db_wf db' \<Longrightarrow> dom (db_map db') \<subseteq> insert k (dom (db_map db)) \<Longrightarrow>
     h k mod n = i \<Longrightarrow> shard_wf h n i db'"
  by (auto simp: shard_wf_def)

lemma shard_wf_shrink:
  "shard_wf h n i db \<Longrightarrow> db_wf db' \<Longrightarrow> dom (db_map db') \<subseteq> dom (db_map db) \<Longrightarrow> shard_wf h n i db'"
  by (auto simp: shard_wf_def)

lemma sharded_wf_put:
  assumes "sharded_wf h sd" "shards sd' = (shards sd)[i := db']"
    and "i < length (shards sd) \<Longrightarrow> shard_wf h (length (shards sd)) i db'"
  shows "sharded_wf h sd'"
  unfolding sharded_wf_def
proof (intro conjI allI impI)
  show "shards sd' \<noteq> []" using assms(1,2) by (simp add: sharded_wf_def)
  fix j
  assume "j < length (shards sd')"
  then show "shard_wf h (length (shards sd')) j (shards sd' ! j)"
    using assms by (cases "j = i") (simp_all add: sharded_wf_def)
qed

lemma sharded_wf_op:
  assumes "sharded_wf h sd" "shards sd' = (shards sd)[shard_for_key h k sd := db']" "db_wf db'"
    and "dom (db_map db') \<subseteq> insert k (dom (db_map (shards sd ! shard_for_key h k sd)))"
  shows "sharded_wf h sd'"
  using assms(1,2)
proof (rule sharded_wf_put)
  assume i: "shard_for_key h k sd < length (shards sd)"
  show "shard_wf h (length (shards sd)) (shard_for_key h k sd) db'"
    by (rule shard_wf_grow [OF shard_wfI [OF assms(1) i] assms(3) assms(4)])
       (rule shard_for_key_def [symmetric])
qed

subsection \<open>What a reader of the sharded store sees\<close>

lemma shard_for_key_put:
  "shards sd' = (shards sd)[i := db'] \<Longrightarrow> shard_for_key h k sd' = shard_for_key h k sd"
  by (simp add: shard_for_key_def)

lemma sharded_map_put:
  assumes "sharded_wf h sd" "shards sd' = (shards sd)[i := db']"
  shows "sharded_map h sd' k = (if shard_for_key h k sd = i then db_map db' k else sharded_map h sd k)"
  using assms(2) shard_for_key_less [OF assms(1), of k]
  by (auto simp: sharded_map_def shard_for_key_put [OF assms(2)])

lemma visible_put_upd:
  assumes "sharded_wf h sd" "shards sd' = (shards sd)[shard_for_key h k sd := db']"
    and "visible t (db_map db') = (visible t (db_map (shards sd ! shard_for_key h k sd)))(k := x)"
  shows "visible t (sharded_map h sd') = (visible t (sharded_map h sd))(k := x)"
proof
  fix k'
  have "visible t (sharded_map h sd') k' =
      (if shard_for_key h k' sd = shard_for_key h k sd then visible t (db_map db') k'
       else visible t (sharded_map h sd) k')"
    by (simp add: visible_def sharded_map_put [OF assms(1,2)])
  also have "\<dots> = ((visible t (sharded_map h sd))(k := x)) k'"
    unfolding assms(3) by (auto simp: visible_def sharded_map_def)
  finally show "visible t (sharded_map h sd') k' = ((visible t (sharded_map h sd))(k := x)) k'" .
qed

lemma visible_put_same:
  assumes "sharded_wf h sd" "shards sd' = (shards sd)[i := db']"
    and "visible t (db_map db') = visible t (db_map (shards sd ! i))"
  shows "visible t (sharded_map h sd') = visible t (sharded_map h sd)"
proof
  fix k
  show "visible t (sharded_map h sd') k = visible t (sharded_map h sd) k"
    using fun_cong [OF assms(3), of k] sharded_map_put [OF assms(1,2), of k]
    by (auto simp: visible_def sharded_map_def)
qed

lemma visible_own_shard:
  "visible t (db_map (shards sd ! shard_for_key h k sd)) k = visible t (sharded_map h sd) k"
  by (simp add: visible_def sharded_map_def)

subsection \<open>Deletion, listing, sweeping\<close>

lemma sharded_del_round:
  assumes "sharded_wf h sd"
  obtains sd1 x' where
    "\<And>ks r. sharded_del_loop h c (k # ks) r x sd =
       sharded_del_loop h c ks (r + (if visible (check_at c k) (sharded_map h sd) k = None then 0 else 1)) x' sd1"
    "sharded_wf h sd1" "sharded_map h sd1 = (sharded_map h sd)(k := None)"
proof -
  let ?i = "shard_for_key h k sd"
  let ?db = "shards sd ! ?i"
  have wf: "db_wf ?db" by (rule own_shard_wf [OF assms])
  let ?n = "if visible (check_at c k) (sharded_map h sd) k = None then 0 else 1 :: nat"
  let ?db' = "snd (db_del c [k] ?db)"
  have "{k' \<in> set [k]. visible (check_at c k') (db_map ?db) k' \<noteq> None} =
      (if visible (check_at c k) (sharded_map h sd) k = None then {} else {k})"
    by (auto simp: visible_own_shard)
  then have fst: "fst (db_del c [k] ?db) = Ok ?n"
    using db_del_spec [OF wf, of c "[k]"] by auto
  have map': "db_map ?db' = (db_map ?db)(k := None)" "db_wf ?db'"
    using db_del_spec [OF wf, of c "[k]"] by auto
  let ?sd1 = "apply_len_change (db_len ?db) (db_len ?db') (put_shard ?i ?db' sd)"
  have sh: "shards ?sd1 = (shards sd)[?i := ?db']" by simp
  show ?thesis
  proof (rule that)
    show "sharded_wf h ?sd1"
      by (rule sharded_wf_op [OF assms sh map'(2)]) (auto simp: map'(1))
    show "sharded_map h ?sd1 = (sharded_map h sd)(k := None)"
    proof
      fix k'
      show "sharded_map h ?sd1 k' = ((sharded_map h sd)(k := None)) k'"
        unfolding sharded_map_put [OF assms sh] map'(1)
        by (auto simp: sharded_map_def)
    qed
    show "sharded_del_loop h c (k # ks) r x sd = sharded_del_loop h c ks (r + ?n)
        (x + (db_len ?db - db_len ?db' - ?n)) ?sd1" for ks r
      by (subst sharded_del_loop.simps) (simp add: Let_def fst case_prod_beta)
  qed
qed

lemma sharded_del_loop_spec:
  assumes "sharded_wf h sd"
  shows "fst (flat (sharded_del_loop h c ks r x sd)) =
      Ok (r + card {k \<in> set ks. visible (check_at c k) (sharded_map h sd) k \<noteq> None}) \<and>
    sharded_wf h (snd (sharded_del_loop h c ks r x sd)) \<and>
    sharded_map h (snd (sharded_del_loop h c ks r x sd)) =
      (\<lambda>k. if k \<in> set ks then None else sharded_map h sd k)"
  using assms
proof (induction ks arbitrary: r x sd)
  case Nil
  then show ?case by (simp add: flat_def)
next
  case (Cons k ks)
  show ?case
  proof (rule sharded_del_round [OF Cons.prems, where k = k and c = c and x = x])
    fix sd1 x'
    assume step: "\<And>ks r. sharded_del_loop h c (k # ks) r x sd = sharded_del_loop h c ks
        (r + (if visible (check_at c k) (sharded_map h sd) k = None then 0 else 1)) x' sd1"
      and sd1: "sharded_wf h sd1" "sharded_map h sd1 = (sharded_map h sd)(k := None)"
    show ?thesis
      unfolding step card_visible_Cons [OF sd1(2)]
      using Cons.IH [OF sd1(1)] by (intro conjI; simp) (simp add: sd1(2) fun_eq_iff)
  qed
qed

lemma dom_sharded_map:
  assumes "sharded_wf h sd"
  shows "dom (sharded_map h sd) = (\<Union>i < length (shards sd). dom (db_map (shards sd ! i)))"
proof -
  have "k \<in> (\<Union>i < length (shards sd). dom (db_map (shards sd ! i)))" if "k \<in> dom (sharded_map h sd)" for k
    using that shard_for_key_less [OF assms, of k] by (auto simp: sharded_map_def)
  moreover have "k \<in> dom (sharded_map h sd)"
    if "i < length (shards sd)" "k \<in> dom (db_map (shards sd ! i))" for k i
    using that shard_entry [OF assms] by blast
  ultimately show ?thesis by blast
qed

lemma sharded_finite: "sharded_wf h sd \<Longrightarrow> finite (dom (sharded_map h sd))"
  by (simp add: dom_sharded_map db_finite)

lemma total_len_card:
  assumes "sharded_wf h sd"
  shows "total_len sd = card (dom (sharded_map h sd))"
proof -
  have "card (dom (sharded_map h sd)) = (\<Sum>i < length (shards sd). card (dom (db_map (shards sd ! i))))"
    unfolding dom_sharded_map [OF assms]
  proof (rule card_UN_disjoint)
    show "\<forall>i\<in>{..<length (shards sd)}. \<forall>j\<in>{..<length (shards sd)}. i \<noteq> j \<longrightarrow>
        dom (db_map (shards sd ! i)) \<inter> dom (db_map (shards sd ! j)) = {}"
      using shard_entry [OF assms] by blast
  qed (simp_all add: db_finite)
  also have "\<dots> = (\<Sum>i < length (shards sd). db_len (shards sd ! i))"
    using shard_wfI [OF assms] by (intro sum.cong) (auto simp: shard_wf_def db_len_card)
  finally show ?thesis
    by (simp add: total_len_def sum_list_sum_nth atLeast0LessThan)
qed

lemma sharded_keys_spec:
  assumes "sharded_wf h sd"
  shows "sharded_keys c sd =
    Ok (sorted_list_of_set {k. visible (sweep_at c k) (sharded_map h sd) k \<noteq> None})"
proof -
  let ?vis = "\<lambda>db. {k. visible (sweep_at c k) (db_map db) k \<noteq> None}"
  let ?ks = "\<lambda>db. sorted_list_of_set (?vis db)"
  have fin: "finite (?vis db)" for db
    by (rule finite_subset [OF _ db_finite [of db]]) (auto simp: visible_Some_iff)
  have wf: "db_wf db" if "db \<in> set (shards sd)" for db
    using that shard_wfI [OF assms] by (auto simp: in_set_conv_nth shard_wf_def)
  have own: "shard_for_key h k sd = i \<and> visible (sweep_at c k) (sharded_map h sd) k \<noteq> None"
    if "i < length (shards sd)" "k \<in> ?vis (shards sd ! i)" for i k
    using that shard_entry [OF assms] by (fastforce simp: visible_Some_iff)
  have ks: "set (?ks db) = ?vis db" for db
    by (rule set_sorted_list_of_set [OF fin])
  have "collect_results (db_keys c) (shards sd) = Ok (map ?ks (shards sd))"
    by (rule collect_results_all_Ok) (simp add: db_keys_spec wf)
  moreover have "distinct (concat (map ?ks (shards sd)))"
  proof (rule distinct_concat_nth)
    fix i j k
    assume "i < length (map ?ks (shards sd))" "j < length (map ?ks (shards sd))"
      "k \<in> set (map ?ks (shards sd) ! i)" "k \<in> set (map ?ks (shards sd) ! j)"
    then show "i = j"
      using own [of i k] own [of j k] by (simp only: length_map nth_map ks)
  qed simp
  moreover have "set (concat (map ?ks (shards sd))) = {k. visible (sweep_at c k) (sharded_map h sd) k \<noteq> None}"
  proof -
    have "k \<in> (\<Union>i < length (shards sd). ?vis (shards sd ! i))"
      if "visible (sweep_at c k) (sharded_map h sd) k \<noteq> None" for k
      using that shard_for_key_less [OF assms, of k] visible_own_shard [of "sweep_at c k" sd h k]
      by (intro UN_I [of "shard_for_key h k sd"]) simp_all
    then have "(\<Union>i < length (shards sd). ?vis (shards sd ! i)) =
        {k. visible (sweep_at c k) (sharded_map h sd) k \<noteq> None}"
      using own by blast
    moreover have "(\<Union>i < length (shards sd). set (map ?ks (shards sd) ! i)) =
        (\<Union>i < length (shards sd). ?vis (shards sd ! i))"
      by (rule SUP_cong [OF refl]) (simp only: lessThan_iff nth_map ks)
    ultimately show ?thesis
      unfolding set_concat_nth length_map by (simp only:)
  qed
  ultimately show ?thesis
    by (simp add: sharded_keys_def sort_distinct_eq del: set_concat set_map)
qed

text \<open>Sweeping one shard, then a list of shards: nothing visible changes, and the count is exact.\<close>

lemma sweep_shard_spec:
  assumes "sharded_wf h sd" "i < length (shards sd)"
  shows "sharded_wf h (snd (sweep_shard c i sd)) \<and>
    length (shards (snd (sweep_shard c i sd))) = length (shards sd) \<and>
    (before c t \<longrightarrow> visible t (sharded_map h (snd (sweep_shard c i sd))) = visible t (sharded_map h sd)) \<and>
    fst (sweep_shard c i sd) + total_len (snd (sweep_shard c i sd)) = total_len sd"
proof -
  let ?db = "shards sd ! i"
  let ?db' = "snd (db_remove_expired c ?db)"
  let ?sd' = "snd (sweep_shard c i sd)"
  have wf: "shard_wf h (length (shards sd)) i ?db" by (rule shard_wfI [OF assms])
  then have db: "db_wf ?db" by (simp add: shard_wf_def)
  have sh: "shards ?sd' = (shards sd)[i := ?db']"
    by (simp add: sweep_shard_def Let_def case_prod_beta)
  have "fst (sweep_shard c i sd) + db_len ?db' = db_len ?db"
    using hm.len_retain_le [of "data ?db"] db
    by (simp add: sweep_shard_def Let_def case_prod_beta db_remove_expired_def db_len_def db_wf_def)
  then have "fst (sweep_shard c i sd) + total_len ?sd' = total_len sd"
    using sum_list_update_nat [OF assms(2), of db_len ?db'] by (simp add: total_len_def sh)
  moreover have "sharded_wf h ?sd'"
    by (rule sharded_wf_put [OF assms(1) sh])
       (rule shard_wf_shrink [OF wf db_wf_sweep [OF db] dom_sweep [OF db]])
  moreover have "visible t (sharded_map h ?sd') = visible t (sharded_map h sd)" if "before c t"
    by (rule visible_put_same [OF assms(1) sh visible_sweep [OF db that]])
  ultimately show ?thesis by (simp add: sh)
qed

lemma sweep_loop_spec:
  assumes "sharded_wf h sd" "\<forall>i \<in> set is. i < length (shards sd)"
  shows "sharded_wf h (snd (sweep_loop c is x sd)) \<and>
    length (shards (snd (sweep_loop c is x sd))) = length (shards sd) \<and>
    (before c t \<longrightarrow> visible t (sharded_map h (snd (sweep_loop c is x sd))) = visible t (sharded_map h sd)) \<and>
    fst (sweep_loop c is x sd) + total_len (snd (sweep_loop c is x sd)) = x + total_len sd"
  using assms
proof (induction "is" arbitrary: x sd)
  case Nil
  then show ?case by simp
next
  case (Cons i "is")
  let ?sd1 = "snd (sweep_shard c i sd)"
  have s: "sharded_wf h ?sd1" "length (shards ?sd1) = length (shards sd)"
    "before c t \<longrightarrow> visible t (sharded_map h ?sd1) = visible t (sharded_map h sd)"
    "fst (sweep_shard c i sd) + total_len ?sd1 = total_len sd"
    using sweep_shard_spec [OF Cons.prems(1), of i] Cons.prems(2) by simp_all
  show ?case
    using Cons.IH [OF s(1), of "x + fst (sweep_shard c i sd)"] Cons.prems(2) s
    by (simp add: case_prod_beta)
qed

lemma sharded_remove_expired_spec:
  assumes "sharded_wf h sd"
  shows "sharded_wf h (snd (sharded_remove_expired c sd)) \<and>
    (before c t \<longrightarrow> visible t (sharded_map h (snd (sharded_remove_expired c sd))) = visible t (sharded_map h sd)) \<and>
    fst (fst (sharded_remove_expired c sd)) + total_len (snd (sharded_remove_expired c sd)) = total_len sd"
  using sweep_loop_spec [OF assms, of "[0..<length (shards sd)]" c 0 t]
  by (simp add: sharded_remove_expired_def case_prod_beta)

text \<open>The info snapshot sweeps in the same way and adds up the memory it finds.\<close>

lemma info_loop_sweeps:
  "fst (info_loop ly c is x m sd) = fst (sweep_loop c is x sd) \<and>
   snd (snd (info_loop ly c is x m sd)) = snd (sweep_loop c is x sd)"
  by (induction "is" arbitrary: x m sd) (simp_all add: case_prod_beta)

lemma flush_loop_eq: "flush_loop dbs = (Ok (), map (\<lambda>db. db\<lparr>data := []\<rparr>) dbs)"
  by (induction dbs) (simp_all add: db_flushdb_def)

lemma sharded_flushdb_eq:
  "sharded_flushdb sd =
     (Ok \<lparr>outcome = Ok (), key_count = 0, expired_count = 0\<rparr>,
      sd\<lparr>shards := map (\<lambda>db. db\<lparr>data := []\<rparr>) (shards sd), key_counter := 0\<rparr>)"
  by (simp add: sharded_flushdb_def flush_loop_eq)

lemma sharded_flush_spec:
  assumes "sharded_wf h sd"
  shows "sharded_wf h (snd (sharded_flushdb sd)) \<and> sharded_map h (snd (sharded_flushdb sd)) = (\<lambda>_. None)"
proof -
  have "db_map (map (\<lambda>db. db\<lparr>data := []\<rparr>) (shards sd) ! shard_for_key h k sd) k = None" for k
    using shard_for_key_less [OF assms, of k] by simp
  then show ?thesis
    using assms
    by (auto simp: sharded_flushdb_eq sharded_wf_def shard_wf_def sharded_map_def shard_for_key_def)
qed

lemma sharded_flush_result: "fst (flat (sharded_flushdb sd)) = Ok ()"
  by (simp add: flat_def sharded_flushdb_eq)

subsection \<open>The sharded store keeps the contract\<close>

text \<open>
  The lifting: an operation of the key's own shard that changes at most what readers see under that
  key changes the whole store in the same way. \<open>upd_at k u\<close> is such a change.
\<close>

definition upd_at :: "bytes \<Rightarrow> entry option option \<Rightarrow> (bytes \<rightharpoonup> entry) \<Rightarrow> (bytes \<rightharpoonup> entry)" where
  "upd_at k u m = (case u of None \<Rightarrow> m | Some x \<Rightarrow> m(k := x))"

lemma lift_shard_op:
  assumes "sharded_wf h sd" "shards sd' = (shards sd)[shard_for_key h k sd := db']" "db_wf db'"
    and "dom (db_map db') \<subseteq> insert k (dom (db_map (shards sd ! shard_for_key h k sd)))"
    and "before c t \<Longrightarrow>
      visible t (db_map db') = upd_at k u (visible t (db_map (shards sd ! shard_for_key h k sd)))"
  shows "sharded_wf h sd' \<and>
    (before c t \<longrightarrow> visible t (sharded_map h sd') = upd_at k u (visible t (sharded_map h sd)))"
proof (intro conjI impI)
  show "sharded_wf h sd'" by (rule sharded_wf_op [OF assms(1-4)])
  assume "before c t"
  then show "visible t (sharded_map h sd') = upd_at k u (visible t (sharded_map h sd))"
    using visible_put_same [OF assms(1,2), of t] visible_put_upd [OF assms(1,2), of t] assms(5)
    by (cases u) (simp_all add: upd_at_def)
qed

lemma lift_on_shard:
  assumes "sharded_wf h sd"
    and "db_wf (snd (f (shards sd ! shard_for_key h k sd)))"
    and "dom (db_map (snd (f (shards sd ! shard_for_key h k sd)))) \<subseteq>
      insert k (dom (db_map (shards sd ! shard_for_key h k sd)))"
    and "before c t \<Longrightarrow> visible t (db_map (snd (f (shards sd ! shard_for_key h k sd)))) =
      upd_at k u (visible t (db_map (shards sd ! shard_for_key h k sd)))"
  shows "sharded_wf h (snd (on_shard (shard_for_key h k sd) f sd)) \<and>
    (before c t \<longrightarrow> visible t (sharded_map h (snd (on_shard (shard_for_key h k sd) f sd))) =
      upd_at k u (visible t (sharded_map h sd)))"
  by (rule lift_shard_op [OF assms(1) _ assms(2-4)]) simp

lemma lift_on_swept_shard:
  fixes f
  assumes "sharded_wf h sd"
    and f: "\<And>db. db_wf db \<Longrightarrow> db_wf (snd (f db)) \<and>
      dom (db_map (snd (f db))) \<subseteq> insert k (dom (db_map db)) \<and>
      (before c t \<longrightarrow> visible t (db_map (snd (f db))) = upd_at k u (visible t (db_map db)))"
  shows "sharded_wf h (snd (on_swept_shard c (shard_for_key h k sd) f sd)) \<and>
    (before c t \<longrightarrow> visible t (sharded_map h (snd (on_swept_shard c (shard_for_key h k sd) f sd))) =
      upd_at k u (visible t (sharded_map h sd)))"
proof -
  let ?db = "shards sd ! shard_for_key h k sd"
  let ?db1 = "snd (db_remove_expired c ?db)"
  have db: "db_wf ?db" by (rule own_shard_wf [OF assms(1)])
  note f1 = f [OF db_wf_sweep [OF db, of c]]
  show ?thesis
  proof (rule lift_shard_op [OF assms(1) shard_outcome_simps(4)])
    show "db_wf (snd (f ?db1))" using f1 by blast
    show "dom (db_map (snd (f ?db1))) \<subseteq> insert k (dom (db_map ?db))"
      using f1 dom_sweep [OF db, of c] by blast
    show "visible t (db_map (snd (f ?db1))) = upd_at k u (visible t (db_map ?db))" if "before c t"
      using f1 visible_sweep [OF db that] that by simp
  qed
qed

lemma upd_at_simps [simp]: "upd_at k None m = m" "upd_at k (Some x) m = m(k := x)"
  by (simp_all add: upd_at_def)

lemma sharded_set_lift:
  assumes "sharded_wf h sd"
  shows "sharded_wf h (snd (sharded_set h c k v e sd)) \<and>
    (before c t \<longrightarrow> visible t (sharded_map h (snd (sharded_set h c k v e sd))) =
      upd_at k (if representable c e then Some (fresh t (with_expire_at v (deadline c e))) else None)
        (visible t (sharded_map h sd)))"
  unfolding sharded_set_def
  by (rule lift_on_swept_shard [OF assms]) (simp add: db.wf_ops dom_ops db.set_visible)

lemma sharded_set_at_lift:
  assumes "sharded_wf h sd"
  shows "sharded_wf h (snd (sharded_set_at_ms h c k v ms sd)) \<and>
    (before c t \<longrightarrow> visible t (sharded_map h (snd (sharded_set_at_ms h c k v ms sd))) =
      upd_at k (case duration_until_unix_ms c ms of
           None \<Rightarrow> Some None
         | Some r \<Rightarrow> if representable c (Some r)
             then Some (fresh t (with_expire_at v (deadline c (Some r)))) else None)
        (visible t (sharded_map h sd)))"
  unfolding sharded_set_at_ms_def
  by (rule lift_on_swept_shard [OF assms])
     (simp add: db.wf_at_ops dom_ops db.set_at_visible split: option.splits)

lemma sharded_read_lift:
  assumes "sharded_wf h sd"
  shows "sharded_wf h (snd (sharded_get h c k sd)) \<and>
      (before c t \<longrightarrow> visible t (sharded_map h (snd (sharded_get h c k sd))) = visible t (sharded_map h sd))"
    and "sharded_wf h (snd (sharded_exists h c k sd)) \<and>
      (before c t \<longrightarrow> visible t (sharded_map h (snd (sharded_exists h c k sd))) = visible t (sharded_map h sd))"
    and "sharded_wf h (snd (sharded_ttl h c k sd)) \<and>
      (before c t \<longrightarrow> visible t (sharded_map h (snd (sharded_ttl h c k sd))) = visible t (sharded_map h sd))"
  unfolding sharded_get_def sharded_exists_def sharded_ttl_def
  by (rule lift_on_shard [OF assms, where u = None, simplified];
      simp add: own_shard_wf [OF assms] db.wf_ops dom_ops db.visible_laws)+

lemma sharded_expire_lift:
  assumes "sharded_wf h sd"
  shows "sharded_wf h (snd (sharded_expire h c k s sd)) \<and>
    (before c t \<longrightarrow> visible t (sharded_map h (snd (sharded_expire h c k s sd))) =
      upd_at k (case visible (check_at c k) (sharded_map h sd) k of
           None \<Rightarrow> None
         | Some e \<Rightarrow> if representable c (Some (from_secs s))
             then Some (fresh t (e\<lparr>expire_at := deadline c (Some (from_secs s))\<rparr>)) else None)
        (visible t (sharded_map h sd)))"
  unfolding sharded_expire_def
  by (rule lift_on_shard [OF assms])
     (simp_all add: own_shard_wf [OF assms] db.wf_ops dom_ops db.expire_visible visible_own_shard
       split: option.splits)

lemma sharded_expire_at_lift:
  assumes "sharded_wf h sd"
  shows "sharded_wf h (snd (sharded_expire_at_ms h c k ms sd)) \<and>
    (before c t \<longrightarrow> visible t (sharded_map h (snd (sharded_expire_at_ms h c k ms sd))) =
      upd_at k (case visible (check_at c k) (sharded_map h sd) k of
           None \<Rightarrow> None
         | Some e \<Rightarrow> (case duration_until_unix_ms c ms of
             None \<Rightarrow> Some None
           | Some r \<Rightarrow> if representable c (Some r)
               then Some (fresh t (e\<lparr>expire_at := deadline c (Some r)\<rparr>)) else None))
        (visible t (sharded_map h sd)))"
  unfolding sharded_expire_at_ms_def
  by (rule lift_on_shard [OF assms])
     (simp_all add: own_shard_wf [OF assms] db.wf_at_ops dom_ops db.expire_at_visible visible_own_shard
       split: option.splits)

lemma sharded_results:
  assumes "sharded_wf h sd"
  shows "fst (flat (sharded_set h c k v e sd)) = (if representable c e then Ok () else Panic)"
    and "fst (flat (sharded_set_at_ms h c k v ms sd)) =
      (if representable c (duration_until_unix_ms c ms) then Ok () else Panic)"
    and "fst (flat (sharded_get h c k sd)) =
      Ok (map_option evalue (visible (check_at c k) (sharded_map h sd) k))"
    and "fst (flat (sharded_exists h c k sd)) = Ok (visible (check_at c k) (sharded_map h sd) k \<noteq> None)"
    and "fst (flat (sharded_expire h c k s sd)) =
      (if visible (check_at c k) (sharded_map h sd) k = None then Ok False
       else if representable c (Some (from_secs s)) then Ok True else Panic)"
    and "fst (flat (sharded_expire_at_ms h c k ms sd)) =
      (if visible (check_at c k) (sharded_map h sd) k = None then Ok False
       else if representable c (duration_until_unix_ms c ms) then Ok True else Panic)"
    and "monotonic c \<Longrightarrow> fst (flat (sharded_ttl h c k sd)) =
      Ok (case visible (op_at c) (sharded_map h sd) k of
            None \<Rightarrow> - 2
          | Some e \<Rightarrow> (case expire_at e of None \<Rightarrow> - 1 | Some t \<Rightarrow> ttl_seconds (t - op_at c)))"
  using own_shard_wf [OF assms, of k]
  by (simp_all add: sharded_set_def sharded_set_at_ms_def sharded_get_def sharded_exists_def
      sharded_expire_def sharded_expire_at_ms_def sharded_ttl_def db.result_laws db.set_at_result
      db.expire_at_result db_wf_sweep visible_own_shard)

interpretation sharded: timed_storage "sharded_wf h" "sharded_map h"
  "\<lambda>c k v e sd. flat (sharded_set h c k v e sd)" "\<lambda>c k sd. flat (sharded_get h c k sd)"
  "\<lambda>c ks sd. flat (sharded_del h c ks sd)" "\<lambda>c k sd. flat (sharded_exists h c k sd)" sharded_keys
  "\<lambda>c k s sd. flat (sharded_expire h c k s sd)" "\<lambda>c k sd. flat (sharded_ttl h c k sd)"
  "\<lambda>sd. flat (sharded_flushdb sd)"
  "\<lambda>c sd. (fst (fst (sharded_remove_expired c sd)), snd (sharded_remove_expired c sd))"
  "\<lambda>c k v ms sd. flat (sharded_set_at_ms h c k v ms sd)"
  "\<lambda>c k ms sd. flat (sharded_expire_at_ms h c k ms sd)"
  for h
proof unfold_locales
  fix sd c ks t
  assume wf: "sharded_wf h sd"
  show "finite (dom (sharded_map h sd))" by (rule sharded_finite [OF wf])
  show "visible t (sharded_map h (snd (flat (sharded_del h c ks sd)))) =
      (\<lambda>k. if k \<in> set ks then None else visible t (sharded_map h sd) k)"
    using sharded_del_loop_spec [OF wf, of c ks 0 0] by (auto simp: sharded_del_def visible_def)
  show "fst (fst (fst (sharded_remove_expired c sd)), snd (sharded_remove_expired c sd)) =
      card (dom (sharded_map h sd)) - card (dom (sharded_map h (snd (fst (fst (sharded_remove_expired c sd)),
        snd (sharded_remove_expired c sd)))))"
    using sharded_remove_expired_spec [OF wf, of c t] by (auto simp: total_len_card [symmetric] wf)
qed (simp_all add: sharded_set_lift sharded_set_at_lift sharded_read_lift sharded_expire_lift
  sharded_expire_at_lift sharded_results sharded_keys_spec sharded_flush_spec sharded_flush_result
  sharded_remove_expired_spec sharded_del_def sharded_del_loop_spec split: option.splits)

section \<open>The sharded store behaves as one database\<close>

fun sharded_call :: "hasher \<Rightarrow> clock \<Rightarrow> store_call \<Rightarrow> sharded \<Rightarrow> reply \<times> sharded" where
  "sharded_call h c (Call_set k v e) sd = answer (\<lambda>_. Done) (flat (sharded_set h c k v e sd))"
| "sharded_call h c (Call_set_at_ms k v ms) sd = answer (\<lambda>_. Done) (flat (sharded_set_at_ms h c k v ms sd))"
| "sharded_call h c (Call_get k) sd = answer Found (flat (sharded_get h c k sd))"
| "sharded_call h c (Call_del ks) sd = answer Count (flat (sharded_del h c ks sd))"
| "sharded_call h c (Call_exists k) sd = answer Flag (flat (sharded_exists h c k sd))"
| "sharded_call h c Call_keys sd = answer Names (sharded_keys c sd, sd)"
| "sharded_call h c (Call_expire k s) sd = answer Flag (flat (sharded_expire h c k s sd))"
| "sharded_call h c (Call_expire_at_ms k ms) sd = answer Flag (flat (sharded_expire_at_ms h c k ms sd))"
| "sharded_call h c (Call_ttl k) sd = answer Seconds (flat (sharded_ttl h c k sd))"
| "sharded_call h c Call_flushdb sd = answer (\<lambda>_. Done) (flat (sharded_flushdb sd))"
| "sharded_call h c Call_remove_expired sd = (Ok Swept, snd (sharded_remove_expired c sd))"

interpretation both: two_stores "sharded_wf h" "sharded_map h"
  "\<lambda>c k v e sd. flat (sharded_set h c k v e sd)" "\<lambda>c k sd. flat (sharded_get h c k sd)"
  "\<lambda>c ks sd. flat (sharded_del h c ks sd)" "\<lambda>c k sd. flat (sharded_exists h c k sd)" sharded_keys
  "\<lambda>c k s sd. flat (sharded_expire h c k s sd)" "\<lambda>c k sd. flat (sharded_ttl h c k sd)"
  "\<lambda>sd. flat (sharded_flushdb sd)"
  "\<lambda>c sd. (fst (fst (sharded_remove_expired c sd)), snd (sharded_remove_expired c sd))"
  "\<lambda>c k v ms sd. flat (sharded_set_at_ms h c k v ms sd)"
  "\<lambda>c k ms sd. flat (sharded_expire_at_ms h c k ms sd)"
  db_wf db_map db_set db_get db_del db_exists db_keys db_expire db_ttl
  db_flushdb db_remove_expired db_set_at_ms db_expire_at_ms
  for h
  by unfold_locales

lemma call_alike:
  assumes "both.alike h t sd db" "since t c" "monotonic c"
  shows "fst (sharded_call h c call sd) = fst (db_call c call db)"
    and "both.alike h (op_at c) (snd (sharded_call h c call sd)) (snd (db_call c call db))"
  using both.same_answers [OF assms] both.stays_alike [OF assms]
  by (cases call; simp)+

lemma run_alike:
  "both.alike h t sd db \<Longrightarrow> chronological t prog \<Longrightarrow>
     run_calls (sharded_call h) prog sd = run_calls db_call prog db"
proof (induction prog arbitrary: t sd db)
  case Nil
  then show ?case by simp
next
  case (Cons step prog)
  obtain c call where step: "step = (c, call)" by (cases step)
  with Cons.prems(2) have c: "since t c" "monotonic c" "chronological (op_at c) prog" by simp_all
  note now = call_alike [OF Cons.prems(1) c(1,2), of call]
  show ?case
    using Cons.IH [OF now(2) c(3)] now(1) by (simp add: step case_prod_beta)
qed

lemma sharded_new_wf: "sharded_wf h (sharded_new n)"
  by (auto simp: sharded_wf_def shard_wf_def sharded_new_def db_new_def db_wf_def db_map_def hm.wf_empty
      hm.get_empty)

lemma new_alike: "both.alike h t (sharded_new n) db_new"
proof -
  have "sharded_map h (sharded_new n) k = None" for k
    by (simp add: sharded_map_def shard_for_key_def sharded_new_def db_new_def db_map_def hm.get_empty)
  then have "sharded_map h (sharded_new n) = (\<lambda>_. None)" by blast
  moreover have "db_map db_new = (\<lambda>_. None)"
    by (simp add: db_new_def db_map_def hm.get_empty fun_eq_iff)
  moreover have "db_wf db_new" by (simp add: db_new_def db_wf_def hm.wf_empty)
  ultimately show ?thesis by (simp add: both.alike_def sharded_new_wf agree_def)
qed

text \<open>
  C2: Whatever the number of shards and the hash function, a \<open>ShardedDatabase\<close> answers every
  chronological sequence of calls exactly as one \<open>Database\<close> does, panics included: the sweep that
  \<open>set\<close> makes in the key's shard, and where the keys are kept, cannot be observed.
\<close>

theorem sharded_equals_database:
  assumes "chronological t prog"
  shows "run_calls (sharded_call h) prog (sharded_new n) = run_calls db_call prog db_new"
  by (rule run_alike [OF new_alike assms])

lemma sharded_equals_database_witness:
  "run_calls (sharded_call length)
     [(clock_at 1 None 9, Call_set ''a'' ''1'' (Some 3)), (clock_at 2 None 9, Call_set ''bc'' ''2'' None),
      (clock_at 4 None 9, Call_get ''a''), (clock_at 5 None 9, Call_keys)] (sharded_new 2) =
   [Ok Done, Ok Done, Ok (Found None), Ok (Names [''bc''])]"
proof -
  let ?prog = "[(clock_at 1 None 9, Call_set ''a'' ''1'' (Some 3)), (clock_at 2 None 9, Call_set ''bc'' ''2'' None),
      (clock_at 4 None 9, Call_get ''a''), (clock_at 5 None 9, Call_keys)]"
  have "chronological 0 ?prog"
    by (simp add: since_def)
  moreover have "run_calls db_call ?prog db_new = [Ok Done, Ok Done, Ok (Found None), Ok (Names [''bc''])]"
    by code_simp
  ultimately show ?thesis
    by (simp only: sharded_equals_database)
qed

section \<open>The key counter\<close>

text \<open>
  The counter never falls below the number of stored entries, and is that number as long as no
  operation has panicked (\<open>exact\<close>).
\<close>

definition counter_ok :: "bool \<Rightarrow> sharded \<Rightarrow> bool" where
  "counter_ok exact sd \<longleftrightarrow> total_len sd \<le> key_counter sd \<and> (exact \<longrightarrow> key_counter sd = total_len sd)"

lemma total_len_put:
  "i < length (shards sd) \<Longrightarrow>
     total_len (put_shard i db' sd) + db_len (shards sd ! i) = total_len sd + db_len db'"
  by (simp add: total_len_def sum_list_update_nat)

lemma counter_put:
  assumes "i < length (shards sd)" "counter_ok b sd"
  shows "counter_ok b (apply_len_change (db_len (shards sd ! i)) (db_len db') (put_shard i db' sd))"
proof -
  have "db_len (shards sd ! i) \<le> total_len sd"
    using member_le_sum_list_nat [OF assms(1), of db_len] by (simp add: total_len_def)
  moreover have "total_len (apply_len_change a a' sd') = total_len sd'" for a a' sd'
    by (simp add: total_len_def)
  moreover have "key_counter (put_shard i db' sd) = key_counter sd" by (simp add: put_shard_def)
  ultimately show ?thesis
    using assms(2) total_len_put [OF assms(1), of db']
    by (auto simp: counter_ok_def) (auto simp: apply_len_change_def)
qed

lemma counter_unwound:
  assumes "i < length (shards sd)" "counter_ok b sd" "db_len db' \<le> db_len (shards sd ! i)"
  shows "counter_ok False (put_shard i db' sd)"
proof -
  have "key_counter (put_shard i db' sd) = key_counter sd" by (simp add: put_shard_def)
  then show ?thesis
    using assms(2,3) total_len_put [OF assms(1), of db'] by (simp add: counter_ok_def)
qed

text \<open>An operation of a shard that panics leaves the shard as it found it.\<close>

definition unwinds_clean :: "(database \<Rightarrow> ('a, database) op) \<Rightarrow> bool" where
  "unwinds_clean f \<longleftrightarrow> (\<forall>db. fst (f db) = Panic \<longrightarrow> snd (f db) = db)"

lemma shard_ops_unwind_clean:
  "unwinds_clean (db_set c k v e)" "unwinds_clean (db_set_at_ms c k v ms)" "unwinds_clean (db_get c k)"
  "unwinds_clean (db_exists c k)" "unwinds_clean (db_expire c k s)" "unwinds_clean (db_expire_at_ms c k ms)"
  "unwinds_clean (db_ttl c k)"
  by (auto simp: unwinds_clean_def db_set_def db_set_at_ms_def db_get_def db_exists_def db_expire_def
      db_expire_at_ms_def db_ttl_def remove_if_expired_def Let_def
      split: result.splits option.splits if_splits)

lemma counter_on_shard:
  assumes "counter_ok b sd" "i < length (shards sd)" "unwinds_clean f"
  shows "counter_ok (b \<and> fst (flat (on_shard i f sd)) \<noteq> Panic) (snd (on_shard i f sd))"
proof (cases "fst (f (shards sd ! i)) = Panic")
  case True
  then have "snd (on_shard i f sd) = put_shard i (snd (f (shards sd ! i))) sd"
    by (simp add: on_shard_def Let_def case_prod_beta)
  with True assms show ?thesis
    by (simp add: counter_unwound unwinds_clean_def)
next
  case False
  then have "snd (on_shard i f sd) = apply_len_change (db_len (shards sd ! i))
      (db_len (snd (f (shards sd ! i)))) (put_shard i (snd (f (shards sd ! i))) sd)"
    by (simp add: on_shard_def Let_def case_prod_beta)
  with False assms show ?thesis by (simp add: counter_put)
qed

lemma db_len_sweep: "db_wf db \<Longrightarrow> db_len (snd (db_remove_expired c db)) \<le> db_len db"
  by (simp add: db_remove_expired_def Let_def db_len_def db_wf_def hm.len_retain_le)

lemma counter_on_swept_shard:
  assumes "counter_ok b sd" "i < length (shards sd)" "unwinds_clean f" "db_wf (shards sd ! i)"
  shows "counter_ok (b \<and> fst (flat (on_swept_shard c i f sd)) \<noteq> Panic) (snd (on_swept_shard c i f sd))"
proof (cases "fst (f (snd (db_remove_expired c (shards sd ! i)))) = Panic")
  case True
  then have "snd (on_swept_shard c i f sd) = put_shard i (snd (db_remove_expired c (shards sd ! i))) sd"
    using assms(3) by (simp add: on_swept_shard_def Let_def case_prod_beta unwinds_clean_def)
  with True assms show ?thesis
    by (simp add: counter_unwound db_len_sweep)
next
  case False
  then have "snd (on_swept_shard c i f sd) = apply_len_change (db_len (shards sd ! i))
      (db_len (snd (f (snd (db_remove_expired c (shards sd ! i))))))
      (put_shard i (snd (f (snd (db_remove_expired c (shards sd ! i))))) sd)"
    by (simp add: on_swept_shard_def Let_def case_prod_beta)
  with False assms show ?thesis by (simp add: counter_put)
qed

lemma counter_del_loop:
  assumes "counter_ok b sd" "sharded_wf h sd"
  shows "counter_ok b (snd (sharded_del_loop h c ks r x sd))"
  using assms
proof (induction ks arbitrary: r x sd)
  case Nil
  then show ?case by simp
next
  case (Cons k ks)
  let ?i = "shard_for_key h k sd"
  let ?db = "shards sd ! ?i"
  let ?db' = "snd (db_del c [k] ?db)"
  let ?sd1 = "apply_len_change (db_len ?db) (db_len ?db') (put_shard ?i ?db' sd)"
  obtain n where n: "fst (db_del c [k] ?db) = Ok n" by (simp add: db_del_def case_prod_beta)
  have db: "db_wf ?db" by (rule own_shard_wf [OF Cons.prems(2)])
  have "dom (db_map ?db') \<subseteq> insert k (dom (db_map ?db))" using dom_ops(8) [OF db] by blast
  then have "sharded_wf h ?sd1"
    using sharded_wf_op [OF Cons.prems(2), of ?sd1 k ?db'] db_del_spec [OF db] by simp
  moreover have "counter_ok b ?sd1"
    by (rule counter_put [OF shard_for_key_less [OF Cons.prems(2)] Cons.prems(1)])
  ultimately show ?case
    using Cons.IH by (simp add: Let_def case_prod_beta n)
qed

lemma counter_sweep_shard:
  assumes "counter_ok b sd" "i < length (shards sd)"
  shows "counter_ok b (snd (sweep_shard c i sd))"
  by (simp add: sweep_shard_def Let_def case_prod_beta counter_put assms)

lemma counter_sweep_loop:
  "counter_ok b sd \<Longrightarrow> \<forall>i \<in> set is. i < length (shards sd) \<Longrightarrow> counter_ok b (snd (sweep_loop c is x sd))"
proof (induction "is" arbitrary: x sd)
  case (Cons i "is")
  moreover have "length (shards (snd (sweep_shard c i sd))) = length (shards sd)"
    by (simp add: sweep_shard_def Let_def case_prod_beta)
  ultimately show ?case
    by (simp add: case_prod_beta counter_sweep_shard)
qed simp

lemma counter_sweeps:
  "counter_ok b sd \<Longrightarrow> counter_ok b (snd (sharded_remove_expired c sd))"
  "counter_ok b sd \<Longrightarrow> counter_ok b (snd (sharded_info_snapshot ly c sd))"
  by (simp_all add: sharded_remove_expired_def sharded_info_snapshot_def case_prod_beta counter_sweep_loop
      info_loop_sweeps)

lemma counter_call:
  assumes "counter_ok b sd" "sharded_wf h sd"
  shows "counter_ok (b \<and> fst (sharded_call h c call sd) \<noteq> Panic) (snd (sharded_call h c call sd))"
proof -
  note on = counter_on_shard [OF assms(1) shard_for_key_less [OF assms(2)]]
    counter_on_swept_shard [OF assms(1) shard_for_key_less [OF assms(2)] _ own_shard_wf [OF assms(2)]]
  have panic: "fst (answer f r) = Panic \<longleftrightarrow> fst r = Panic" for f :: "'x \<Rightarrow> store_answer" and r :: "('x, sharded) op"
    by (simp add: result_simps)
  have "total_len (snd (sharded_flushdb sd)) = 0 \<and> key_counter (snd (sharded_flushdb sd)) = 0"
    by (simp add: sharded_flushdb_eq total_len_def comp_def db_len_def hm.len_empty)
  then have flush: "counter_ok True (snd (sharded_flushdb sd))" by (simp add: counter_ok_def)
  have weaken: "counter_ok True s \<Longrightarrow> counter_ok b' s" for b' s by (simp add: counter_ok_def)
  have weak: "counter_ok b s \<Longrightarrow> counter_ok (b \<and> b') s" for b' s by (auto simp: counter_ok_def)
  show ?thesis
    by (cases call)
       (simp_all only: sharded_call.simps panic answer_simps(2) snd_flat sharded_set_def
          sharded_set_at_ms_def sharded_get_def sharded_exists_def sharded_expire_def
          sharded_expire_at_ms_def sharded_ttl_def sharded_del_def snd_conv on shard_ops_unwind_clean
          weaken [OF flush] weak [OF assms(1)] weak [OF counter_sweeps(1) [OF assms(1)]]
          weak [OF counter_del_loop [OF assms]])
qed

section \<open>Snapshots\<close>

text \<open>A snapshot sweeps with the one reading it took at its start.\<close>

lemma snapshot_retain_sweeps:
  "snapshot_retain t db = snd (db_remove_expired (clock_at t u l) db)"
proof -
  have "(case expire_at e of None \<Rightarrow> True | Some t' \<Rightarrow> t < t') = (\<not> is_expired e t)" for e
    by (auto simp: is_expired_def split: option.splits)
  then show ?thesis by (simp add: snapshot_retain_def db_remove_expired_def Let_def)
qed

lemma snapshot_loop_sweeps:
  "snd (snd (snapshot_loop t un is es x sd)) = snd (sweep_loop (clock_at t u l) is y sd)"
proof (induction "is" arbitrary: es x y sd)
  case (Cons i "is")
  then show ?case
    by (simp add: Let_def case_prod_beta sweep_shard_def snapshot_retain_sweeps [of t _ u l])
qed simp

lemma snapshot_loop_counts:
  "sharded_wf h sd \<Longrightarrow> \<forall>i \<in> set is. i < length (shards sd) \<Longrightarrow>
     fst (snd (snapshot_loop t un is es x sd)) = fst (sweep_loop (clock_at t u l) is x sd)"
proof (induction "is" arbitrary: es x sd)
  case (Cons i "is")
  let ?c = "clock_at t u l"
  let ?db = "shards sd ! i"
  have db: "db_wf ?db" using shard_wfI [OF Cons.prems(1), of i] Cons.prems(2) by (simp add: shard_wf_def)
  have n: "fst (sweep_shard ?c i sd) = db_len ?db - db_len (snd (db_remove_expired ?c ?db))"
    by (simp add: sweep_shard_def Let_def case_prod_beta db_remove_expired_def)
  have sd1: "sharded_wf h (snd (sweep_shard ?c i sd))"
      "length (shards (snd (sweep_shard ?c i sd))) = length (shards sd)"
    using sweep_shard_spec [OF Cons.prems(1), of i ?c] Cons.prems(2) by simp_all
  have step: "snd (sweep_shard ?c i sd) = apply_len_change (db_len ?db)
      (db_len (snd (db_remove_expired ?c ?db))) (put_shard i (snd (db_remove_expired ?c ?db)) sd)"
    by (simp add: sweep_shard_def Let_def case_prod_beta)
  show ?case
    using Cons.IH [OF sd1(1)] Cons.prems(2)
    by (simp add: Let_def case_prod_beta snapshot_retain_sweeps [of t _ u l] n step [symmetric] sd1(2))
qed simp

lemma snapshot_loop_entries:
  "distinct is \<Longrightarrow> \<forall>i \<in> set is. i < length (shards sd) \<Longrightarrow>
     fst (snapshot_loop t un is es x sd) =
       es @ concat (map (\<lambda>i. map (snapshot_entry t un) (data (snapshot_retain t (shards sd ! i)))) is)"
proof (induction "is" arbitrary: es x sd)
  case (Cons i "is")
  let ?sd1 = "apply_len_change (db_len (shards sd ! i)) (db_len (snapshot_retain t (shards sd ! i)))
    (put_shard i (snapshot_retain t (shards sd ! i)) sd)"
  have "\<forall>j \<in> set is. i \<noteq> j" using Cons.prems(1) by auto
  then have "\<forall>j \<in> set is. shards ?sd1 ! j = shards sd ! j" by simp
  then show ?case
    using Cons.IH [of ?sd1] Cons.prems by (simp add: Let_def cong: map_cong)
qed simp

lemma snapshot_retain_map:
  assumes "db_wf db"
  shows "db_wf (snapshot_retain t db)" and "db_map (snapshot_retain t db) = visible t (db_map db)"
proof -
  have "db_map (snapshot_retain t db) k = visible t (db_map db) k" for k
    using assms
    by (simp add: snapshot_retain_sweeps [of t db None 0] db_remove_expired_def Let_def db_map_def db_wf_def
        hm.get_retain visible_def fresh_def split: option.splits)
  then show "db_map (snapshot_retain t db) = visible t (db_map db)" by blast
  show "db_wf (snapshot_retain t db)"
    by (simp add: snapshot_retain_sweeps [of t db None 0] db_wf_sweep assms)
qed

lemma snap_key_snapshot_entry [simp]: "snap_key (snapshot_entry t un kv) = fst kv"
  by (simp add: snapshot_entry_def split: prod.splits)

lemma snapshot_entries_raw:
  fixes t :: instant and un :: nat
  assumes "sharded_wf h sd"
  defines "es \<equiv> fst (snapshot_loop t un [0..<length (shards sd)] [] 0 sd)"
  shows "set es = {snapshot_entry t un (k, e) | k e. visible t (sharded_map h sd) k = Some e}"
    and "distinct (map snap_key es)"
proof -
  let ?kept = "\<lambda>i. data (snapshot_retain t (shards sd ! i))"
  have db: "db_wf (shards sd ! i)" if "i < length (shards sd)" for i
    using shard_wfI [OF assms(1) that] by (simp add: shard_wf_def)
  have es: "es = concat (map (\<lambda>i. map (snapshot_entry t un) (?kept i)) [0..<length (shards sd)])"
    by (simp add: es_def snapshot_loop_entries)
  have kept: "(k, e) \<in> set (?kept i) \<longleftrightarrow> shard_for_key h k sd = i \<and> visible t (sharded_map h sd) k = Some e"
    if i: "i < length (shards sd)" for i k e
  proof -
    have "(k, e) \<in> set (?kept i) \<longleftrightarrow> visible t (db_map (shards sd ! i)) k = Some e"
      using snapshot_retain_map [OF db [OF i], of t] hm_get_iff [of "?kept i" k e]
      by (simp add: db_wf_def hm_get_db_map)
    also have "\<dots> \<longleftrightarrow> shard_for_key h k sd = i \<and> visible t (sharded_map h sd) k = Some e"
      using shard_entry [OF assms(1) i, of k e] by (auto simp: visible_Some_iff sharded_map_def)
    finally show ?thesis .
  qed
  show "set es = {snapshot_entry t un (k, e) | k e. visible t (sharded_map h sd) k = Some e}"
  proof -
    have "set es = (\<Union>i < length (shards sd). snapshot_entry t un ` set (?kept i))"
      by (auto simp: es)
    also have "\<dots> = {snapshot_entry t un (k, e) | k e. visible t (sharded_map h sd) k = Some e}"
    proof (intro equalityI subsetI)
      fix x
      assume "x \<in> (\<Union>i < length (shards sd). snapshot_entry t un ` set (?kept i))"
      then obtain i k e where "i < length (shards sd)" "(k, e) \<in> set (?kept i)" "x = snapshot_entry t un (k, e)"
        by auto
      then show "x \<in> {snapshot_entry t un (k, e) | k e. visible t (sharded_map h sd) k = Some e}"
        using kept by blast
    next
      fix x
      assume "x \<in> {snapshot_entry t un (k, e) | k e. visible t (sharded_map h sd) k = Some e}"
      then obtain k e where x: "x = snapshot_entry t un (k, e)" "visible t (sharded_map h sd) k = Some e"
        by blast
      then have "(k, e) \<in> set (?kept (shard_for_key h k sd))"
        using kept [OF shard_for_key_less [OF assms(1)], of k e k] by blast
      then show "x \<in> (\<Union>i < length (shards sd). snapshot_entry t un ` set (?kept i))"
        using x(1) shard_for_key_less [OF assms(1), of k] by blast
    qed
    finally show ?thesis .
  qed
  have keys: "map snap_key es = concat (map (\<lambda>i. map fst (?kept i)) [0..<length (shards sd)])"
    by (simp add: es map_concat comp_def)
  show "distinct (map snap_key es)"
    unfolding keys
  proof (rule distinct_concat_nth)
    fix i
    assume "i < length (map (\<lambda>i. map fst (?kept i)) [0..<length (shards sd)])"
    then show "distinct (map (\<lambda>i. map fst (?kept i)) [0..<length (shards sd)] ! i)"
      using snapshot_retain_map(1) [OF db, of i t] by (simp add: db_wf_def hm_wf_def)
  next
    fix i j k
    assume "i < length (map (\<lambda>i. map fst (?kept i)) [0..<length (shards sd)])"
      "j < length (map (\<lambda>i. map fst (?kept i)) [0..<length (shards sd)])"
      "k \<in> set (map (\<lambda>i. map fst (?kept i)) [0..<length (shards sd)] ! i)"
      "k \<in> set (map (\<lambda>i. map fst (?kept i)) [0..<length (shards sd)] ! j)"
    then show "i = j" using kept by auto
  qed
qed

lemma sharded_snapshot_parts:
  "snd (sharded_snapshot_entries c sd) =
     snd (sweep_loop (clock_at (op_at c) None 0) [0..<length (shards sd)] 0 sd)"
  "snap_entries (fst (sharded_snapshot_entries c sd)) =
     sort_key snap_key (fst (snapshot_loop (op_at c) (current_unix_ms c) [0..<length (shards sd)] [] 0 sd))"
  "snap_key_count (fst (sharded_snapshot_entries c sd)) = key_counter (snd (sharded_snapshot_entries c sd))"
  "snap_expired_count (fst (sharded_snapshot_entries c sd)) =
     fst (snd (snapshot_loop (op_at c) (current_unix_ms c) [0..<length (shards sd)] [] 0 sd))"
  by (simp_all add: sharded_snapshot_entries_def case_prod_beta sharded_len_def
      snapshot_loop_sweeps [where u = None and l = 0 and y = 0])

lemma counter_snapshot:
  "counter_ok b sd \<Longrightarrow> counter_ok b (snd (sharded_snapshot_entries c sd))"
  by (simp add: sharded_snapshot_parts(1) counter_sweep_loop)

lemma snapshot_wf: "sharded_wf h sd \<Longrightarrow> sharded_wf h (snd (sharded_snapshot_entries c sd))"
  using sweep_loop_spec [of h sd "[0..<length (shards sd)]"] by (simp add: sharded_snapshot_parts(1))

section \<open>Properties of every reachable store\<close>

text \<open>
  The stores an execution reaches from an empty one by calls, info snapshots and snapshots at any
  times; the flag says that no call has panicked so far.
\<close>

inductive reached :: "hasher \<Rightarrow> layout \<Rightarrow> bool \<Rightarrow> sharded \<Rightarrow> bool" for h ly where
  start: "reached h ly True (sharded_new n)"
| call: "reached h ly ok sd \<Longrightarrow> sharded_call h c call sd = (reply, sd') \<Longrightarrow>
    reached h ly (ok \<and> reply \<noteq> Panic) sd'"
| info: "reached h ly ok sd \<Longrightarrow> sharded_info_snapshot ly c sd = (i, sd') \<Longrightarrow> reached h ly ok sd'"
| snapshot: "reached h ly ok sd \<Longrightarrow> sharded_snapshot_entries c sd = (s, sd') \<Longrightarrow> reached h ly ok sd'"

lemma sharded_wf_call: "sharded_wf h sd \<Longrightarrow> sharded_wf h (snd (sharded_call h c call sd))"
  by (cases call)
     (simp_all add: sharded.wf_ops [simplified] sharded.wf_at_ops [simplified])

lemma sharded_wf_info: "sharded_wf h sd \<Longrightarrow> sharded_wf h (snd (sharded_info_snapshot ly c sd))"
  using sweep_loop_spec [of h sd "[0..<length (shards sd)]"]
  by (simp add: sharded_info_snapshot_def case_prod_beta info_loop_sweeps)

lemma reached_invariant: "reached h ly ok sd \<Longrightarrow> sharded_wf h sd \<and> counter_ok ok sd"
proof (induction rule: reached.induct)
  case (start n)
  have "total_len (sharded_new n) = 0 \<and> key_counter (sharded_new n) = 0"
    by (simp add: total_len_def sharded_new_def db_new_def db_len_def hm.len_empty sum_list_replicate)
  then show ?case by (simp add: sharded_new_wf counter_ok_def)
next
  case (call ok sd c call reply sd')
  then show ?case
    using counter_call [of ok sd h c call] sharded_wf_call [of h sd c call] by simp
next
  case (info ok sd c i sd')
  then show ?case
    using counter_sweeps(2) [of ok sd ly c] sharded_wf_info [of h sd ly c] by simp
next
  case (snapshot ok sd c s sd')
  then show ?case
    using counter_snapshot [of ok sd c] snapshot_wf [of h sd c] by simp
qed

text \<open>
  C4: In every store an execution reaches, each key is in the shard its hash selects, the counter
  behind \<open>len\<close> is never below the number of stored keys, and it is exactly that number as long as
  no operation has panicked.
\<close>

theorem key_count_is_number_of_keys:
  assumes "reached h ly ok sd"
  shows "sharded_wf h sd \<and> card (dom (sharded_map h sd)) \<le> sharded_len sd \<and>
    (ok \<longrightarrow> sharded_len sd = card (dom (sharded_map h sd)))"
  using reached_invariant [OF assms]
  by (auto simp: counter_ok_def sharded_len_def total_len_card)

lemma key_count_is_number_of_keys_witness:
  "sharded_len (snd (sharded_call length (clock_at 1 None 9) (Call_set ''a'' ''1'' None) (sharded_new 4))) =
   card (dom (sharded_map length
     (snd (sharded_call length (clock_at 1 None 9) (Call_set ''a'' ''1'' None) (sharded_new 4)))))"
proof -
  let ?r = "sharded_call length (clock_at 1 None 9) (Call_set ''a'' ''1'' None) (sharded_new 4)"
  have "fst ?r = Ok Done" by code_simp
  moreover have "reached length \<lparr>size_of_string = 24, size_of_entry = 40\<rparr> (True \<and> fst ?r \<noteq> Panic) (snd ?r)"
    by (rule reached.call [OF reached.start surjective_pairing])
  ultimately show ?thesis
    using key_count_is_number_of_keys [of length "\<lparr>size_of_string = 24, size_of_entry = 40\<rparr>" _ "snd ?r"] by simp
qed

text \<open>
  A client reads what it wrote: after \<open>set\<close>, a \<open>get\<close> of the key at a later time returns the value
  until the deadline and nothing from the deadline on, and every other key reads as before.
\<close>

theorem sharded_read_your_write:
  assumes "sharded_wf h sd" and "representable c e" and "before c t" and "check_at c' k' = t"
  shows "fst (flat (sharded_get h c' k' (snd (sharded_set h c k v e sd)))) =
    (if k' = k then Ok (if \<exists>d. e = Some d \<and> op_at c + d \<le> t then None else Some v)
     else fst (flat (sharded_get h c' k' sd)))"
  using sharded.read_your_write [OF assms(1,2), of c' k v] sharded.write_frame [OF assms(1), of c c' k' k v e]
    assms(3,4)
  by (auto simp: deadline_def split: option.splits)

lemma sharded_read_your_write_witness:
  "fst (flat (sharded_get length (clock_at 4 None 9) ''a''
     (snd (sharded_set length (clock_at 1 None 9) ''a'' ''1'' (Some 5) (sharded_new 4))))) = Ok (Some ''1'')"
  using sharded_read_your_write [OF sharded_new_wf, of "clock_at 1 None 9" "Some 5" 4 "clock_at 4 None 9" "''a''"]
  by (simp add: representable_def)

text \<open>
  C39: A relative expiry beyond the largest \<open>Instant\<close> makes \<open>set\<close> panic (and no other does): nothing
  readers see changes, but the sweep of the shard has already happened and the key counter is not
  updated, so from then on it may exceed the number of keys.
\<close>

theorem sharded_set_overflow_unwinds:
  assumes "sharded_wf h sd"
  shows "(fst (sharded_set h c k v e sd) = Panic \<longleftrightarrow> \<not> representable c e) \<and>
    (\<not> representable c e \<longrightarrow>
       sharded_len (snd (sharded_set h c k v e sd)) = sharded_len sd \<and>
       (\<forall>t. before c t \<longrightarrow> visible t (sharded_map h (snd (sharded_set h c k v e sd))) = visible t (sharded_map h sd)) \<and>
       dom (sharded_map h (snd (sharded_set h c k v e sd))) \<inter> {k'. shard_for_key h k' sd = shard_for_key h k sd} =
         {k' \<in> dom (sharded_map h sd). shard_for_key h k' sd = shard_for_key h k sd \<and>
            visible (sweep_at c k') (sharded_map h sd) k' \<noteq> None})"
proof -
  let ?i = "shard_for_key h k sd"
  let ?db = "shards sd ! ?i"
  let ?sd' = "snd (sharded_set h c k v e sd)"
  have db: "db_wf ?db" by (rule own_shard_wf [OF assms])
  have "fst (sharded_set h c k v e sd) = Panic \<longleftrightarrow> \<not> representable c e"
    by (simp add: sharded_set_def on_swept_shard_def Let_def case_prod_beta db_set_spec)
  moreover have "sharded_len ?sd' = sharded_len sd"
    and sh: "shards ?sd' = (shards sd)[?i := snd (db_remove_expired c ?db)]" if "\<not> representable c e"
    using that
    by (simp_all add: sharded_set_def on_swept_shard_def Let_def case_prod_beta db_set_spec put_shard_def
        sharded_len_def)
  moreover have "visible t (sharded_map h ?sd') = visible t (sharded_map h sd)"
    if "\<not> representable c e" "before c t" for t
    using sharded_set_lift [OF assms, of c k v e t] that by simp
  moreover have "k' \<in> dom (sharded_map h ?sd') \<longleftrightarrow> visible (sweep_at c k') (sharded_map h sd) k' \<noteq> None"
    if "\<not> representable c e" "shard_for_key h k' sd = ?i" for k'
    using that(2) db
    by (simp add: sharded_map_put [OF assms sh [OF that(1)]] domIff)
       (simp add: db_remove_expired_def Let_def db_map_def db_wf_def hm.get_retain sharded_map_def visible_def
        fresh_def split: option.splits)
  moreover have "k' \<in> dom (sharded_map h sd)" if "visible t (sharded_map h sd) k' \<noteq> None" for k' t
    using that by (auto simp: visible_Some_iff)
  ultimately show ?thesis by blast
qed

lemma sharded_set_overflow_unwinds_witness:
  "let sd = snd (sharded_set length (clock_at 1 None 9) ''a'' ''1'' (Some 2) (sharded_new 1));
       r = sharded_set length (clock_at 5 None 9) ''b'' ''2'' (Some 100) sd
   in fst r = Panic \<and> sharded_len (snd r) = 1 \<and> total_len (snd r) = 0"
proof -
  let ?sd = "snd (sharded_set length (clock_at 1 None 9) ''a'' ''1'' (Some 2) (sharded_new 1))"
  let ?r = "sharded_set length (clock_at 5 None 9) ''b'' ''2'' (Some 100) ?sd"
  have "sharded_wf length ?sd"
    using sharded_set_lift [OF sharded_new_wf] by blast
  moreover have "\<not> representable (clock_at 5 None 9) (Some 100)" by (simp add: representable_def)
  moreover have "sharded_len ?sd = 1" "total_len (snd ?r) = 0" by code_simp+
  ultimately show ?thesis
    using sharded_set_overflow_unwinds [of length ?sd "clock_at 5 None 9" "''b''" "''2''" "Some 100"]
    by (simp add: Let_def)
qed

lemma snapshot_ascending:
  assumes "sharded_wf h sd"
  shows "sorted_wrt (<) (map snap_key (snap_entries (fst (sharded_snapshot_entries c sd))))"
proof -
  let ?raw = "fst (snapshot_loop (op_at c) (current_unix_ms c) [0..<length (shards sd)] [] 0 sd)"
  have "distinct (map snap_key (sort_key snap_key ?raw))"
    using snapshot_entries_raw(2) [OF assms, of "op_at c" "current_unix_ms c"] distinct_sort
    by (metis distinct_map set_sort)
  then show ?thesis by (simp add: sharded_snapshot_parts strict_sorted_iff)
qed

lemma snapshot_holds_visible:
  assumes "sharded_wf h sd"
  shows "set (snap_entries (fst (sharded_snapshot_entries c sd))) =
      {\<lparr>snap_key = k, snap_value = evalue e,
        snap_expire_at_ms = map_option (\<lambda>t. unix_ms_after (current_unix_ms c) (t - op_at c)) (expire_at e)\<rparr> | k e.
       visible (op_at c) (sharded_map h sd) k = Some e}"
  using snapshot_entries_raw(1) [OF assms, of "op_at c" "current_unix_ms c"]
  by (simp add: sharded_snapshot_parts snapshot_entry_def)

text \<open>
  C38: A snapshot holds exactly the entries visible at the instant it reads at its start, each once, in
  strictly ascending key order, with its deadline as absolute Unix milliseconds; the number of
  entries it dropped as expired and the number it kept add up, and no reader at that instant or
  later sees a difference.
\<close>

theorem snapshot_is_the_visible_store:
  assumes "sharded_wf h sd"
  shows "sorted_wrt (<) (map snap_key (snap_entries (fst (sharded_snapshot_entries c sd)))) \<and>
    set (snap_entries (fst (sharded_snapshot_entries c sd))) =
      {\<lparr>snap_key = k, snap_value = evalue e,
        snap_expire_at_ms = map_option (\<lambda>t. unix_ms_after (current_unix_ms c) (t - op_at c)) (expire_at e)\<rparr> | k e.
       visible (op_at c) (sharded_map h sd) k = Some e} \<and>
    snap_expired_count (fst (sharded_snapshot_entries c sd)) + total_len (snd (sharded_snapshot_entries c sd)) =
      total_len sd \<and>
    (\<forall>t \<ge> op_at c. visible t (sharded_map h (snd (sharded_snapshot_entries c sd))) = visible t (sharded_map h sd))"
proof (intro conjI allI impI snapshot_ascending [OF assms] snapshot_holds_visible [OF assms])
  let ?idx = "[0..<length (shards sd)]"
  note sweep = sweep_loop_spec [OF assms, of ?idx "clock_at (op_at c) None 0" 0]
  show "snap_expired_count (fst (sharded_snapshot_entries c sd)) +
      total_len (snd (sharded_snapshot_entries c sd)) = total_len sd"
    using sweep by (simp add: sharded_snapshot_parts snapshot_loop_counts [OF assms, where u = None and l = 0])
  show "visible t (sharded_map h (snd (sharded_snapshot_entries c sd))) = visible t (sharded_map h sd)"
    if "op_at c \<le> t" for t
    using sweep [of t] that by (simp add: sharded_snapshot_parts)
qed

lemma snapshot_is_the_visible_store_witness:
  "let sd = snd (sharded_set length (clock_at 1 None 9) ''a'' ''1'' (Some 5) (sharded_new 2));
       s = fst (sharded_snapshot_entries (clock_at 4 (Some 7000000) 9) sd)
   in \<lparr>snap_key = ''a'', snap_value = ''1'', snap_expire_at_ms = Some 7\<rparr> \<in> set (snap_entries s)"
proof -
  let ?sd = "snd (sharded_set length (clock_at 1 None 9) ''a'' ''1'' (Some 5) (sharded_new 2))"
  let ?c = "clock_at 4 (Some 7000000) 9"
  have "sharded_wf length ?sd"
    using sharded_set_lift [OF sharded_new_wf] by blast
  moreover have "visible 4 (sharded_map length ?sd) ''a'' = Some (with_expire_at ''1'' (Some 6))" by code_simp
  moreover have "unix_ms_after (current_unix_ms ?c) 2 = 7" by code_simp
  ultimately show ?thesis
    using snapshot_is_the_visible_store [of length ?sd ?c] by (force simp: with_expire_at_def Let_def)
qed

end
