(* ===== verification/Stats.thy ===== *)
theory Stats
  imports Kv_Error
begin

text \<open>
  \<open>rustkv-core/src/stats.rs\<close>: the server's counters. The fields are atomics, updated one at a time;
  a counter is a 64-bit word and \<open>fetch_add\<close> wraps. \<open>now\<close> is the reading of the monotonic clock
  that \<open>started_at.elapsed()\<close> makes. Serialisation itself is serde's.
\<close>

record server_stats =
  server_version :: bytes
  role :: bytes
  addr :: bytes
  memory_estimate_bytes :: u64
  aof_enabled :: bool
  max_frame_size :: u64
  total_commands :: u64
  connected_clients :: u64
  stat_key_count :: u64
  expired_keys :: u64
  get_count :: u64
  set_count :: u64
  del_count :: u64
  uptime_seconds :: u64
  started_at :: instant

record stats_snapshot =
  snapshot_server_version :: bytes
  snapshot_role :: bytes
  snapshot_uptime_seconds :: u64
  snapshot_memory_estimate_bytes :: u64
  snapshot_aof_enabled :: bool
  snapshot_addr :: bytes
  snapshot_max_frame_size :: u64
  snapshot_total_commands :: u64
  snapshot_connected_clients :: u64
  snapshot_key_count :: u64
  snapshot_expired_keys :: u64
  snapshot_get_count :: u64
  snapshot_set_count :: u64
  snapshot_del_count :: u64

text \<open>The version is that of the crate's manifest.\<close>

definition stats_new :: "instant \<Rightarrow> server_stats" where
  "stats_new now = \<lparr>server_version = ''0.1.0'', role = ''standalone'', addr = ''unknown'',
     memory_estimate_bytes = 0, aof_enabled = False, max_frame_size = 0, total_commands = 0,
     connected_clients = 0, stat_key_count = 0, expired_keys = 0, get_count = 0, set_count = 0,
     del_count = 0, uptime_seconds = 0, started_at = now\<rparr>"

definition configure_runtime :: "bytes \<Rightarrow> bool \<Rightarrow> nat \<Rightarrow> server_stats \<Rightarrow> server_stats" where
  "configure_runtime a enabled frame_size st =
     st\<lparr>addr := a, aof_enabled := enabled, max_frame_size := u64_of frame_size\<rparr>"

definition stats_snapshot_at :: "instant \<Rightarrow> server_stats \<Rightarrow> stats_snapshot \<times> server_stats" where
  "stats_snapshot_at now st =
     (let uptime = max (uptime_seconds st) (u64_of (as_secs (now - started_at st)));
          st = st\<lparr>uptime_seconds := uptime\<rparr>
      in (\<lparr>snapshot_server_version = server_version st, snapshot_role = role st,
           snapshot_uptime_seconds = uptime,
           snapshot_memory_estimate_bytes = memory_estimate_bytes st,
           snapshot_aof_enabled = aof_enabled st, snapshot_addr = addr st,
           snapshot_max_frame_size = max_frame_size st, snapshot_total_commands = total_commands st,
           snapshot_connected_clients = connected_clients st, snapshot_key_count = stat_key_count st,
           snapshot_expired_keys = expired_keys st, snapshot_get_count = get_count st,
           snapshot_set_count = set_count st, snapshot_del_count = del_count st\<rparr>, st))"

definition incr_total_commands :: "server_stats \<Rightarrow> server_stats" where
  "incr_total_commands st = st\<lparr>total_commands := total_commands st + 1\<rparr>"

definition incr_connected_clients :: "server_stats \<Rightarrow> server_stats" where
  "incr_connected_clients st = st\<lparr>connected_clients := connected_clients st + 1\<rparr>"

text \<open>\<open>fetch_update\<close> with \<open>checked_sub\<close>: a counter at zero stays there.\<close>

definition decr_connected_clients :: "server_stats \<Rightarrow> server_stats" where
  "decr_connected_clients st =
     (if connected_clients st = 0 then st else st\<lparr>connected_clients := connected_clients st - 1\<rparr>)"

definition set_key_count :: "nat \<Rightarrow> server_stats \<Rightarrow> server_stats" where
  "set_key_count n st = st\<lparr>stat_key_count := u64_of n\<rparr>"

definition set_memory_estimate_bytes :: "nat \<Rightarrow> server_stats \<Rightarrow> server_stats" where
  "set_memory_estimate_bytes n st = st\<lparr>memory_estimate_bytes := u64_of n\<rparr>"

definition incr_expired_keys_by :: "nat \<Rightarrow> server_stats \<Rightarrow> server_stats" where
  "incr_expired_keys_by n st = st\<lparr>expired_keys := expired_keys st + u64_of n\<rparr>"

definition incr_get_count :: "server_stats \<Rightarrow> server_stats" where
  "incr_get_count st = st\<lparr>get_count := get_count st + 1\<rparr>"

definition incr_set_count :: "server_stats \<Rightarrow> server_stats" where
  "incr_set_count st = st\<lparr>set_count := set_count st + 1\<rparr>"

definition incr_del_count :: "server_stats \<Rightarrow> server_stats" where
  "incr_del_count st = st\<lparr>del_count := del_count st + 1\<rparr>"

lemmas stats_updates = incr_total_commands_def set_key_count_def set_memory_estimate_bytes_def
  incr_expired_keys_by_def incr_get_count_def incr_set_count_def incr_del_count_def

lemma u64_of_add: "u64_of (n + m) = u64_of n + u64_of m"
  by (simp add: u64_of_def)

lemma u64_of_simps [simp]: "u64_of 0 = 0" "u64_of 1 = 1" "u64_of (Suc n) = u64_of n + 1"
  by (simp_all add: u64_of_def)

text \<open>
  The uptime that snapshots report never goes back: it is the largest of what was reported before
  and the whole seconds elapsed, and taking a snapshot changes nothing else of the statistics.
\<close>

theorem uptime_never_decreases:
  assumes "stats_snapshot_at now st = (s, st')" and "stats_snapshot_at now' st' = (s', st'')"
  shows "snapshot_uptime_seconds s \<le> snapshot_uptime_seconds s' \<and>
    u64_of (as_secs (now' - started_at st)) \<le> snapshot_uptime_seconds s' \<and>
    st'' = st\<lparr>uptime_seconds := snapshot_uptime_seconds s'\<rparr>"
  using assms by (auto simp: stats_snapshot_at_def Let_def)

theorem uptime_never_decreases_witness:
  "let (s, st) = stats_snapshot_at 3000000000 (stats_new 0); (s', st') = stats_snapshot_at 1000000000 st
   in snapshot_uptime_seconds s \<le> snapshot_uptime_seconds s' \<and> snapshot_uptime_seconds s = 3"
proof -
  let ?r = "stats_snapshot_at 3000000000 (stats_new 0)"
  have "snapshot_uptime_seconds (fst ?r) = 3" by code_simp
  then show ?thesis
    using uptime_never_decreases [OF surjective_pairing surjective_pairing, of 3000000000 "stats_new 0" 1000000000]
    by (simp add: case_prod_beta Let_def)
qed

text \<open>The gauge of connected clients, as a number.\<close>

lemma connected_clients_incr:
  "unat (connected_clients st) < u64_max \<Longrightarrow>
     unat (connected_clients (incr_connected_clients st)) = unat (connected_clients st) + 1"
  by (simp add: incr_connected_clients_def u64_max_def unat_word_ariths)

lemma connected_clients_decr:
  "unat (connected_clients (decr_connected_clients st)) = unat (connected_clients st) - 1"
proof (cases "connected_clients st = 0")
  case False
  then show ?thesis by (simp add: decr_connected_clients_def unat_minus_one)
qed (simp add: decr_connected_clients_def)

end
