(* ===== verification/Parser.thy ===== *)
theory Parser
  imports Resp
begin

text \<open>
  \<open>rustkv-protocol/src/parser.rs\<close>: the recursive-descent RESP parser over an input slice and a
  position. \<open>limits\<close> holds what the machine grants the parser: the largest array header for
  which \<open>Vec::with_capacity\<close> succeeds and the number of nested \<open>parse_value\<close> calls that fit on
  the thread's stack; going past either is a \<open>Panic\<close>.
\<close>

record limits =
  max_capacity :: nat
  max_depth :: nat

text \<open>Small limits, for the examples.\<close>

definition sample_limits :: limits where
  "sample_limits = \<lparr>max_capacity = 8, max_depth = 4\<rparr>"

type_synonym 'a parse = "(protocol_error, 'a \<times> nat) result"

section \<open>Lexical steps\<close>

definition read_byte :: "bytes \<Rightarrow> nat \<Rightarrow> byte parse" where
  "read_byte input pos =
     (if pos < length input then Ok (input ! pos, pos + 1) else Err Incomplete)"

definition subslice :: "nat \<Rightarrow> nat \<Rightarrow> bytes \<Rightarrow> bytes" where
  "subslice start stop xs = take (stop - start) (drop start xs)"

text \<open>The scan of \<open>read_line\<close>: \<open>stop\<close> is the source's loop variable \<open>end\<close>.\<close>

function read_line_from :: "bytes \<Rightarrow> nat \<Rightarrow> nat \<Rightarrow> bytes parse" where
  "read_line_from input start stop =
     (if stop + 1 < length input
      then if input ! stop = CR \<and> input ! (stop + 1) = LF
           then Ok (subslice start stop input, stop + 2)
           else read_line_from input start (stop + 1)
      else Err Incomplete)"
  by pat_completeness auto
termination
  by (relation "measure (\<lambda>(input, start, stop). length input - stop)") auto

declare read_line_from.simps [simp del]

definition read_line :: "bytes \<Rightarrow> nat \<Rightarrow> bytes parse" where
  "read_line input pos = read_line_from input pos pos"

text \<open>\<open>usize::checked_add\<close>.\<close>

definition checked_add :: "nat \<Rightarrow> nat \<Rightarrow> nat option" where
  "checked_add a b = (if a + b \<le> usize_max then Some (a + b) else None)"

definition read_bulk_bytes :: "bytes \<Rightarrow> nat \<Rightarrow> nat \<Rightarrow> bytes parse" where
  "read_bulk_bytes input pos len =
     try_then (ok_or (InvalidFormat ''bulk string overflow'') (checked_add pos len)) (\<lambda>stop.
     try_then (ok_or (InvalidFormat ''bulk string overflow'') (checked_add stop 2)) (\<lambda>crlf_end.
       if crlf_end > length input then Err Incomplete
       else if input ! stop \<noteq> CR \<or> input ! (stop + 1) \<noteq> LF
         then Err (InvalidFormat ''bulk string is not terminated by CRLF'')
       else Ok (subslice pos stop input, crlf_end)))"

definition parse_i64 :: "bytes \<Rightarrow> (protocol_error, int) result" where
  "parse_i64 bs =
     try_then (ok_or InvalidInteger (from_utf8 bs)) (\<lambda>text.
       if text = [] then Err InvalidInteger
       else ok_or InvalidInteger (parse_int64 text))"

section \<open>The grammar\<close>

definition parse_simple_string :: "bytes \<Rightarrow> nat \<Rightarrow> resp_frame parse" where
  "parse_simple_string input pos =
     try_then (read_line input pos) (\<lambda>(line, pos).
     try_then (ok_or InvalidUtf8 (from_utf8 line)) (\<lambda>text. Ok (FSimpleString text, pos)))"

definition parse_error :: "bytes \<Rightarrow> nat \<Rightarrow> resp_frame parse" where
  "parse_error input pos =
     try_then (read_line input pos) (\<lambda>(line, pos).
     try_then (ok_or InvalidUtf8 (from_utf8 line)) (\<lambda>text. Ok (FError text, pos)))"

definition parse_integer :: "bytes \<Rightarrow> nat \<Rightarrow> resp_frame parse" where
  "parse_integer input pos =
     try_then (read_line input pos) (\<lambda>(line, pos).
     try_then (parse_i64 line) (\<lambda>n. Ok (FInteger (word_of_int n), pos)))"

definition parse_bulk_string :: "bytes \<Rightarrow> nat \<Rightarrow> resp_frame parse" where
  "parse_bulk_string input pos =
     try_then (read_line input pos) (\<lambda>(line, pos).
     try_then (parse_i64 line) (\<lambda>len.
       if len = -1 then Ok (FNull, pos)
       else if len < -1
         then Err (InvalidFormat ''bulk string length must be -1 or non-negative'')
       else try_then (read_bulk_bytes input pos (nat len)) (\<lambda>(bs, pos). Ok (FBulkString bs, pos))))"

text \<open>
  \<open>parse_value\<close> spends one unit of stack per nested call; \<open>parse_elems\<close> is the \<open>for\<close> loop of
  \<open>parse_array\<close>, which inherits the stack that is left.
\<close>

fun parse_value :: "limits \<Rightarrow> nat \<Rightarrow> bytes \<Rightarrow> nat \<Rightarrow> resp_frame parse"
and parse_array :: "limits \<Rightarrow> nat \<Rightarrow> bytes \<Rightarrow> nat \<Rightarrow> resp_frame parse"
and parse_elems :: "limits \<Rightarrow> nat \<Rightarrow> nat \<Rightarrow> bytes \<Rightarrow> nat \<Rightarrow> resp_frame list parse" where
  "parse_value lim 0 input pos = Panic"
| "parse_value lim (Suc stack) input pos =
     try_then (read_byte input pos) (\<lambda>(type_byte, pos).
       if type_byte = CHR ''+'' then parse_simple_string input pos
       else if type_byte = CHR ''-'' then parse_error input pos
       else if type_byte = CHR '':'' then parse_integer input pos
       else if type_byte = CHR ''$'' then parse_bulk_string input pos
       else if type_byte = CHR ''*'' then parse_array lim stack input pos
       else Err (InvalidTypeByte type_byte))"
| "parse_array lim stack input pos =
     try_then (read_line input pos) (\<lambda>(line, pos).
     try_then (parse_i64 line) (\<lambda>len.
       if len = -1 then Ok (FNull, pos)
       else if len < -1 then Err (InvalidFormat ''array length must be -1 or non-negative'')
       else if nat len > max_capacity lim then Panic
       else try_then (parse_elems lim stack (nat len) input pos) (\<lambda>(values, pos).
              Ok (FArray values, pos))))"
| "parse_elems lim stack 0 input pos = Ok ([], pos)"
| "parse_elems lim stack (Suc n) input pos =
     try_then (parse_value lim stack input pos) (\<lambda>(v, pos).
     try_then (parse_elems lim stack n input pos) (\<lambda>(vs, pos). Ok (v # vs, pos)))"

definition parse_resp :: "limits \<Rightarrow> bytes \<Rightarrow> resp_frame parse" where
  "parse_resp lim input = parse_value lim (max_depth lim) input 0"

section \<open>Three contracts every scanning step keeps\<close>

text \<open>
  \<open>chunk_stable\<close>: a result other than "incomplete" does not change when more bytes arrive.
  \<open>advances k\<close>: a successful step moves the position forward by at least \<open>k\<close> and not past the
  end. \<open>looks_no_further\<close>: a successful step has read nothing beyond the position it reports. All are
  closed under sequencing, so the facts about the grammar are assembled from the
  facts about its lexical steps.
\<close>

definition chunk_stable :: "(bytes \<Rightarrow> nat \<Rightarrow> 'a parse) \<Rightarrow> bool" where
  "chunk_stable p \<longleftrightarrow> (\<forall>input tail pos. p input pos \<noteq> Err Incomplete \<longrightarrow>
     p (input @ tail) pos = p input pos)"

definition advances :: "nat \<Rightarrow> (bytes \<Rightarrow> nat \<Rightarrow> 'a parse) \<Rightarrow> bool" where
  "advances k p \<longleftrightarrow> (\<forall>input pos x pos'. pos \<le> length input \<longrightarrow> p input pos = Ok (x, pos') \<longrightarrow>
     pos + k \<le> pos' \<and> pos' \<le> length input)"

definition looks_no_further :: "(bytes \<Rightarrow> nat \<Rightarrow> 'a parse) \<Rightarrow> bool" where
  "looks_no_further p \<longleftrightarrow> advances 0 p \<and> (\<forall>input tail pos x pos'. pos \<le> length input \<longrightarrow>
     p (input @ tail) pos = Ok (x, pos') \<longrightarrow> pos' \<le> length input \<longrightarrow> p input pos = Ok (x, pos'))"

named_theorems stable_intros \<open>scanning steps whose result survives more input\<close>
named_theorems advances_intros \<open>scanning steps that move forward inside the input\<close>

lemma stableD: "chunk_stable p \<Longrightarrow> p input pos \<noteq> Err Incomplete \<Longrightarrow> p (input @ tail) pos = p input pos"
  by (simp add: chunk_stable_def)

lemma advancesD:
  "advances k p \<Longrightarrow> p input pos = Ok (x, pos') \<Longrightarrow> pos \<le> length input \<Longrightarrow>
     pos + k \<le> pos' \<and> pos' \<le> length input"
  unfolding advances_def by blast

lemma stable_const [stable_intros]: "chunk_stable (\<lambda>input pos. r pos)"
  by (simp add: chunk_stable_def)

lemma stable_if [stable_intros]:
  "chunk_stable p \<Longrightarrow> chunk_stable q \<Longrightarrow> chunk_stable (\<lambda>input pos. if b then p input pos else q input pos)"
  by (cases b) simp_all

lemma stable_then [stable_intros]:
  assumes "chunk_stable p" "\<And>x. chunk_stable (f x)"
  shows "chunk_stable (\<lambda>input pos. try_then (p input pos) (\<lambda>(x, pos). f x input pos))"
  unfolding chunk_stable_def
proof (intro allI impI)
  fix input tail pos
  assume nz: "try_then (p input pos) (\<lambda>(x, pos). f x input pos) \<noteq> Err Incomplete"
  then have "p input pos \<noteq> Err Incomplete" by auto
  with assms(1) have same: "p (input @ tail) pos = p input pos" by (rule stableD)
  show "try_then (p (input @ tail) pos) (\<lambda>(x, pos). f x (input @ tail) pos) =
      try_then (p input pos) (\<lambda>(x, pos). f x input pos)"
  proof (cases "p input pos")
    case (Ok r)
    obtain x q where r: "r = (x, q)" by (cases r)
    with nz Ok have "f x input q \<noteq> Err Incomplete" by simp
    then have "f x (input @ tail) q = f x input q" by (rule stableD [OF assms(2)])
    with same Ok r show ?thesis by simp
  qed (simp_all add: same)
qed

lemma stable_pure_then [stable_intros]:
  "(\<And>x. chunk_stable (f x)) \<Longrightarrow> chunk_stable (\<lambda>input pos. try_then r (\<lambda>x. f x input pos))"
  by (cases r) (simp_all add: stable_const)

lemma advances_if [advances_intros]:
  "advances k p \<Longrightarrow> advances k q \<Longrightarrow> advances k (\<lambda>input pos. if b then p input pos else q input pos)"
  by (cases b) simp_all

lemma advances_Ok [advances_intros]: "advances 0 (\<lambda>input pos. Ok (x, pos))"
  by (simp add: advances_def)

lemma advances_Err [advances_intros]: "advances k (\<lambda>input pos. Err e)"
  by (simp add: advances_def)

lemma advances_Panic [advances_intros]: "advances k (\<lambda>input pos. Panic)"
  by (simp add: advances_def)

lemma advances_weaken: "advances k p \<Longrightarrow> j \<le> k \<Longrightarrow> advances j p"
  unfolding advances_def by (meson add_left_mono order_trans)

lemma advances_then_add:
  assumes "advances j p" "\<And>x. advances k (f x)"
  shows "advances (j + k) (\<lambda>input pos. try_then (p input pos) (\<lambda>(x, pos). f x input pos))"
  unfolding advances_def
proof (intro allI impI)
  fix input pos y pos'
  assume pos: "pos \<le> length input"
    and ok: "try_then (p input pos) (\<lambda>(x, pos). f x input pos) = Ok (y, pos')"
  then obtain x mid where p: "p input pos = Ok (x, mid)" and f: "f x input mid = Ok (y, pos')"
    by (auto simp: result_simps)
  from advancesD [OF assms(1) p pos] advancesD [OF assms(2) f]
  show "pos + (j + k) \<le> pos' \<and> pos' \<le> length input" by auto
qed

lemma advances_then [advances_intros]:
  "advances k p \<Longrightarrow> (\<And>x. advances 0 (f x)) \<Longrightarrow>
     advances k (\<lambda>input pos. try_then (p input pos) (\<lambda>(x, pos). f x input pos))"
  using advances_then_add [of k p 0 f] by simp

lemma advances_pure_then [advances_intros]:
  "(\<And>x. advances k (f x)) \<Longrightarrow> advances k (\<lambda>input pos. try_then r (\<lambda>x. f x input pos))"
  by (cases r) (simp_all add: advances_intros)

named_theorems local_intros \<open>scanning steps that look no further than they advance\<close>

lemma localD:
  "looks_no_further p \<Longrightarrow> p (input @ tail) pos = Ok (x, pos') \<Longrightarrow> pos \<le> length input \<Longrightarrow>
     pos' \<le> length input \<Longrightarrow> p input pos = Ok (x, pos')"
  unfolding looks_no_further_def by blast

lemma local_advances: "looks_no_further p \<Longrightarrow> advances 0 p"
  by (simp add: looks_no_further_def)

lemma local_consts [local_intros]:
  "looks_no_further (\<lambda>input pos. Ok (x, pos))" "looks_no_further (\<lambda>input pos. Err e)"
  "looks_no_further (\<lambda>input pos. Panic)"
  by (simp_all add: looks_no_further_def advances_intros)

lemma local_if [local_intros]:
  "looks_no_further p \<Longrightarrow> looks_no_further q \<Longrightarrow>
     looks_no_further (\<lambda>input pos. if b then p input pos else q input pos)"
  by (cases b) simp_all

lemma local_then [local_intros]:
  assumes "looks_no_further p" "\<And>x. looks_no_further (f x)"
  shows "looks_no_further (\<lambda>input pos. try_then (p input pos) (\<lambda>(x, pos). f x input pos))"
  unfolding looks_no_further_def
proof (intro conjI allI impI)
  show "advances 0 (\<lambda>input pos. try_then (p input pos) (\<lambda>(x, pos). f x input pos))"
    by (intro advances_then local_advances assms)
  fix input tail pos y pos'
  assume pos: "pos \<le> length input" "pos' \<le> length input"
    and "try_then (p (input @ tail) pos) (\<lambda>(x, pos). f x (input @ tail) pos) = Ok (y, pos')"
  then obtain x mid where p: "p (input @ tail) pos = Ok (x, mid)" and f: "f x (input @ tail) mid = Ok (y, pos')"
    by (auto simp: result_simps)
  have "mid \<le> length (input @ tail)"
    using advancesD [OF local_advances [OF assms(1)] p] pos(1) by simp
  then have "mid \<le> length input"
    using advancesD [OF local_advances [OF assms(2)] f] pos(2) by simp
  then show "try_then (p input pos) (\<lambda>(x, pos). f x input pos) = Ok (y, pos')"
    using localD [OF assms(1) p pos(1)] localD [OF assms(2) f _ pos(2)] by simp
qed

lemma local_pure_then [local_intros]:
  "(\<And>x. looks_no_further (f x)) \<Longrightarrow> looks_no_further (\<lambda>input pos. try_then r (\<lambda>x. f x input pos))"
  by (cases r) (simp_all add: local_consts)

section \<open>The lexical steps keep them\<close>

lemma stable_read_byte [stable_intros]: "chunk_stable read_byte"
  by (auto simp: chunk_stable_def read_byte_def nth_append)

lemma advances_read_byte [advances_intros]: "advances 1 read_byte"
  by (auto simp: advances_def read_byte_def split: if_splits)

lemma subslice_append: "stop \<le> length input \<Longrightarrow> subslice start stop (input @ tail) = subslice start stop input"
  by (simp add: subslice_def)

lemma read_line_from_stable:
  "read_line_from input start stop \<noteq> Err Incomplete \<Longrightarrow>
     read_line_from (input @ tail) start stop = read_line_from input start stop"
proof (induction input start stop rule: read_line_from.induct)
  case (1 input start stop)
  then have "stop + 1 < length input"
    by (simp add: read_line_from.simps [of input start stop] split: if_split_asm)
  with 1 show ?case
    by (simp add: read_line_from.simps [of _ start stop] nth_append subslice_append split: if_split_asm)
qed

lemma read_line_from_Ok:
  "read_line_from input start stop = Ok (line, pos') \<Longrightarrow>
     stop + 2 \<le> pos' \<and> pos' \<le> length input \<and> line = subslice start (pos' - 2) input"
proof (induction input start stop rule: read_line_from.induct)
  case (1 input start stop)
  then show ?case
    by (auto simp: read_line_from.simps [of input start stop] split: if_split_asm)
qed

lemma read_line_from_not_Panic: "read_line_from input start stop \<noteq> Panic"
proof (induction input start stop rule: read_line_from.induct)
  case (1 input start stop)
  then show ?case by (simp add: read_line_from.simps [of input start stop])
qed

lemma stable_read_line [stable_intros]: "chunk_stable read_line"
  by (auto simp: chunk_stable_def read_line_def read_line_from_stable)

lemma advances_read_line [advances_intros]: "advances 2 read_line"
  by (auto simp: advances_def read_line_def dest: read_line_from_Ok)

lemma stable_read_bulk_bytes [stable_intros]: "chunk_stable (\<lambda>input pos. read_bulk_bytes input pos len)"
  by (auto simp: chunk_stable_def read_bulk_bytes_def checked_add_def nth_append subslice_append
      result_simps split: if_splits)

lemma advances_read_bulk_bytes [advances_intros]:
  "advances 2 (\<lambda>input pos. read_bulk_bytes input pos len)"
  by (auto simp: advances_def read_bulk_bytes_def checked_add_def result_simps split: if_splits)

lemma localI:
  assumes "advances k p"
    and "\<And>input tail pos x pos'. pos \<le> length input \<Longrightarrow> pos' \<le> length input \<Longrightarrow>
      p (input @ tail) pos = Ok (x, pos') \<Longrightarrow> p input pos = Ok (x, pos')"
  shows "looks_no_further p"
  using assms(2) advances_weaken [OF assms(1) le0] by (simp add: looks_no_further_def)

lemma local_read_byte [local_intros]: "looks_no_further read_byte"
  by (rule localI [OF advances_read_byte]) (auto simp: read_byte_def nth_append split: if_splits)

lemma read_line_from_local:
  "read_line_from (input @ tail) start stop = Ok (line, pos') \<Longrightarrow> pos' \<le> length input \<Longrightarrow>
     read_line_from input start stop = Ok (line, pos')"
proof (induction "input @ tail" start stop rule: read_line_from.induct)
  case (1 start stop)
  from read_line_from_Ok [OF 1(2)] 1(3) have "stop + 1 < length input" by simp
  with 1 show ?case
    by (auto simp: read_line_from.simps [of _ start stop] nth_append subslice_append split: if_split_asm)
qed

lemma local_read_line [local_intros]: "looks_no_further read_line"
  by (rule localI [OF advances_read_line]) (unfold read_line_def, rule read_line_from_local)

lemma local_read_bulk_bytes [local_intros]: "looks_no_further (\<lambda>input pos. read_bulk_bytes input pos len)"
  by (rule localI [OF advances_read_bulk_bytes])
     (auto simp: read_bulk_bytes_def checked_add_def nth_append subslice_append result_simps split: if_splits)

section \<open>The grammar keeps them\<close>

lemma stable_parse_lines [stable_intros]:
  "chunk_stable parse_simple_string" "chunk_stable parse_error" "chunk_stable parse_integer" "chunk_stable parse_bulk_string"
  unfolding parse_simple_string_def parse_error_def parse_integer_def parse_bulk_string_def
  by (intro stable_intros)+

lemma advances_parse_lines [advances_intros]:
  "advances 2 parse_simple_string" "advances 2 parse_error" "advances 2 parse_integer"
  "advances 2 parse_bulk_string"
  unfolding parse_simple_string_def parse_error_def parse_integer_def parse_bulk_string_def
  by (intro advances_intros advances_weaken [OF advances_read_bulk_bytes] le0)+

lemma local_parse_lines [local_intros]:
  "looks_no_further parse_simple_string" "looks_no_further parse_error" "looks_no_further parse_integer"
  "looks_no_further parse_bulk_string"
  unfolding parse_simple_string_def parse_error_def parse_integer_def parse_bulk_string_def
  by (intro local_intros)+

end
