(* ===== verification/Framing.thy ===== *)
theory Framing
  imports Prelude
begin

text \<open>
  The interface between the protocol crate and its clients: a decoder that takes frames off the
  front of a byte buffer (\<open>framing\<close>) and an encoder that writes frames it reads back
  (\<open>codec\<close>). The connection buffer and the AOF replay only rely on these laws.
\<close>

locale framing =
  fixes dec :: "bytes \<Rightarrow> ('e, 'v \<times> nat) result"
    and incomplete :: 'e
  assumes more_input: "dec bs \<noteq> Err incomplete \<Longrightarrow> dec (bs @ rest) = dec bs"
    and consumes: "dec bs = Ok (v, n) \<Longrightarrow> 0 < n \<and> n \<le> length bs"
    and only_consumed: "dec bs = Ok (v, n) \<Longrightarrow> dec (take n bs) = Ok (v, n)"
begin

lemma ignores_rest: "dec w = Ok (v, n) \<Longrightarrow> dec (w @ rest) = Ok (v, n)"
  using more_input [of w rest] by simp

lemma prefix_incomplete:
  assumes "dec w = Ok (v, length w)" "m < length w"
  shows "dec (take m w) = Err incomplete"
proof (rule ccontr)
  assume "dec (take m w) \<noteq> Err incomplete"
  from more_input [OF this, of "drop m w"] have "dec (take m w) = Ok (v, length w)"
    using assms(1) by simp
  from consumes [OF this] assms(2) show False by simp
qed

lemma empty_not_Ok: "dec [] \<noteq> Ok (v, n)"
  using consumes [of "[]" v n] by auto

lemma remaining_shorter: "dec bs = Ok (v, n) \<Longrightarrow> length (drop n bs) < length bs"
  using consumes [of bs v n] by auto

text \<open>Whatever the chunk boundaries, a buffer that holds a frame and a longer one agree.\<close>

lemma same_frame_any_chunking:
  "dec bs = Ok (v, n) \<Longrightarrow> dec (bs @ rest) = Ok (v', n') \<Longrightarrow>
     v' = v \<and> n' = n \<and> drop n' (bs @ rest) = drop n bs @ rest"
  using ignores_rest [of bs v n rest] consumes [of bs v n] by simp

end

locale codec = framing dec incomplete
  for dec :: "bytes \<Rightarrow> ('e, 'v \<times> nat) result" and incomplete :: 'e +
  fixes enc :: "'x \<Rightarrow> bytes" and img :: "'x \<Rightarrow> 'v" and valid :: "'x \<Rightarrow> bool"
  assumes dec_enc: "valid x \<Longrightarrow> dec (enc x) = Ok (img x, length (enc x))"
begin

lemma dec_enc_append: "valid x \<Longrightarrow> dec (enc x @ rest) = Ok (img x, length (enc x))"
  by (rule ignores_rest) (rule dec_enc)

lemma enc_nonempty: "valid x \<Longrightarrow> enc x \<noteq> []"
  using consumes [OF dec_enc, of x] by auto

lemma enc_prefix_incomplete: "valid x \<Longrightarrow> m < length (enc x) \<Longrightarrow> dec (take m (enc x)) = Err incomplete"
  by (rule prefix_incomplete) (rule dec_enc)

text \<open>A stream of frames can be read back in one way only.\<close>

lemma stream_unique:
  "list_all valid xs \<Longrightarrow> list_all valid ys \<Longrightarrow> concat (map enc xs) = concat (map enc ys) \<Longrightarrow>
     map img xs = map img ys"
proof (induction xs arbitrary: ys)
  case Nil
  then show ?case by (cases ys) (auto dest: enc_nonempty)
next
  case (Cons x xs)
  show ?case
  proof (cases ys)
    case Nil
    with Cons.prems show ?thesis by (auto dest: enc_nonempty)
  next
    case (Cons y zs)
    note ys = this
    let ?s = "enc x @ concat (map enc xs)"
    from Cons.prems ys have vx: "valid x" and vy: "valid y" and eq: "?s = enc y @ concat (map enc zs)"
      by auto
    from dec_enc_append [OF vx, of "concat (map enc xs)"] dec_enc_append [OF vy, of "concat (map enc zs)"]
    have img: "img x = img y" and len: "length (enc x) = length (enc y)" by (simp_all add: eq)
    from eq len have "concat (map enc xs) = concat (map enc zs)" by simp
    with img show ?thesis using Cons.IH [of zs] Cons.prems ys by simp
  qed
qed

end

end
