(* ===== verification/Wire.thy ===== *)
theory Wire
  imports Parser Framing
begin

text \<open>
  What the protocol crate promises about its parser and encoder together: results are stable
  under more input and stay inside it, encoding and parsing are inverse on well-formed values,
  every proper prefix of an encoding is incomplete, and the only panics are the two resource
  limits.
\<close>

section \<open>The recursive parser is stable and bounded\<close>

lemma parse_value_0: "parse_value lim 0 = (\<lambda>input pos. Panic)"
  by (intro ext) simp

lemma parse_value_Suc:
  "parse_value lim (Suc stack) = (\<lambda>input pos.
     try_then (read_byte input pos) (\<lambda>(type_byte, pos).
       if type_byte = CHR ''+'' then parse_simple_string input pos
       else if type_byte = CHR ''-'' then parse_error input pos
       else if type_byte = CHR '':'' then parse_integer input pos
       else if type_byte = CHR ''$'' then parse_bulk_string input pos
       else if type_byte = CHR ''*'' then parse_array lim stack input pos
       else Err (InvalidTypeByte type_byte)))"
  by (intro ext) simp

lemma parse_array_eq:
  "parse_array lim stack = (\<lambda>input pos.
     try_then (read_line input pos) (\<lambda>(line, pos).
     try_then (parse_i64 line) (\<lambda>len.
       if len = -1 then Ok (FNull, pos)
       else if len < -1 then Err (InvalidFormat ''array length must be -1 or non-negative'')
       else if nat len > max_capacity lim then Panic
       else try_then (parse_elems lim stack (nat len) input pos) (\<lambda>(values, pos).
              Ok (FArray values, pos)))))"
  by (intro ext) simp

lemma parse_elems_0: "parse_elems lim stack 0 = (\<lambda>input pos. Ok ([], pos))"
  by (intro ext) simp

lemma parse_elems_Suc:
  "parse_elems lim stack (Suc n) = (\<lambda>input pos.
     try_then (parse_value lim stack input pos) (\<lambda>(v, pos).
     try_then (parse_elems lim stack n input pos) (\<lambda>(vs, pos). Ok (v # vs, pos))))"
  by (intro ext) simp

lemmas parse_eqs = parse_value_0 parse_value_Suc parse_array_eq parse_elems_0 parse_elems_Suc

declare parse_value.simps [simp del] parse_array.simps [simp del] parse_elems.simps [simp del]

lemma stable_parse_elems:
  assumes "chunk_stable (parse_value lim stack)"
  shows "chunk_stable (parse_elems lim stack n)"
proof (induction n)
  case 0
  show ?case unfolding parse_eqs by (rule stable_const)
next
  case (Suc n)
  show ?case
    unfolding parse_eqs by (intro stable_then stable_const assms Suc)
qed

lemma stable_parse_array:
  "chunk_stable (parse_value lim stack) \<Longrightarrow> chunk_stable (parse_array lim stack)"
  unfolding parse_array_eq by (intro stable_intros stable_parse_elems)

lemma stable_parse_value: "chunk_stable (parse_value lim stack)"
proof (induction stack)
  case 0
  show ?case unfolding parse_eqs by (rule stable_const)
next
  case (Suc stack)
  then show ?case
    unfolding parse_eqs(2) by (intro stable_intros stable_parse_array)
qed

lemma advances_parse_elems:
  assumes "advances k (parse_value lim stack)"
  shows "advances 0 (parse_elems lim stack n)"
proof (induction n)
  case 0
  show ?case unfolding parse_eqs by (rule advances_Ok)
next
  case (Suc n)
  from assms have "advances 0 (parse_value lim stack)" by (rule advances_weaken) simp
  then show ?case
    unfolding parse_eqs by (intro advances_then advances_Ok Suc)
qed

lemma advances_parse_array:
  "advances k (parse_value lim stack) \<Longrightarrow> advances 2 (parse_array lim stack)"
  unfolding parse_array_eq by (intro advances_intros advances_parse_elems)

lemma advances_parse_value: "advances 3 (parse_value lim stack)"
proof (induction stack)
  case 0
  show ?case unfolding parse_eqs by (rule advances_Panic)
next
  case (Suc stack)
  have "advances (1 + 2) (parse_value lim (Suc stack))"
    unfolding parse_eqs(2)
    by (intro advances_then_add advances_read_byte advances_if advances_parse_lines
        advances_parse_array [OF Suc] advances_Err)
  then show ?case by (simp add: numeral_3_eq_3)
qed

lemma local_parse_elems:
  assumes "looks_no_further (parse_value lim stack)"
  shows "looks_no_further (parse_elems lim stack n)"
proof (induction n)
  case 0
  show ?case unfolding parse_eqs by (rule local_consts)
next
  case (Suc n)
  show ?case
    unfolding parse_eqs by (intro local_then local_consts assms Suc)
qed

lemma local_parse_value: "looks_no_further (parse_value lim stack)"
proof (induction stack)
  case 0
  show ?case unfolding parse_eqs by (rule local_consts)
next
  case (Suc stack)
  have "looks_no_further (parse_array lim stack)"
    unfolding parse_array_eq by (intro local_intros local_parse_elems Suc)
  then show ?case
    unfolding parse_eqs(2) by (intro local_intros)
qed

section \<open>Parsing what the encoder wrote\<close>

text \<open>
  The lexical steps read back what was written at any offset. \<open>fits\<close> says the input is no
  longer than a Rust slice can be, so that \<open>checked_add\<close> does not fail.
\<close>

definition fits :: "bytes \<Rightarrow> bool" where
  "fits input \<longleftrightarrow> length input \<le> i64_max"

lemma read_byte_at: "read_byte (pre @ b # rest) (length pre) = Ok (b, Suc (length pre))"
  by (simp add: read_byte_def)

lemma crlf_free_scan:
  assumes "crlf_free line" "i < length line"
  shows "\<not> ((pre @ line @ crlf @ rest) ! (length pre + i) = CR \<and>
            (pre @ line @ crlf @ rest) ! Suc (length pre + i) = LF)"
proof (cases "Suc i < length line")
  case True
  then show ?thesis
    using crlf_free_nth [OF assms(1) True] by (simp add: nth_append)
next
  case False
  with assms(2) have "i = length line - 1" "line \<noteq> []" by auto
  then show ?thesis by (simp add: nth_append)
qed

lemma read_line_from_at:
  assumes "crlf_free line" "i \<le> length line"
  shows "read_line_from (pre @ line @ crlf @ rest) (length pre) (length pre + i) =
         Ok (line, length pre + length line + 2)"
  using assms(2)
proof (induction i rule: inc_induct)
  case base
  show ?case
    by (subst read_line_from.simps) (simp add: nth_append subslice_def)
next
  case (step i)
  from crlf_free_scan [OF assms(1) step.hyps(2)] step.IH step.hyps show ?case
    by (subst read_line_from.simps) simp
qed

lemma read_line_at:
  "crlf_free line \<Longrightarrow>
     read_line (pre @ line @ crlf @ rest) (length pre) = Ok (line, length pre + length line + 2)"
  using read_line_from_at [of line 0] by (simp add: read_line_def)

lemma read_bulk_bytes_at:
  assumes "fits (pre @ bs @ crlf @ rest)"
  shows "read_bulk_bytes (pre @ bs @ crlf @ rest) (length pre) (length bs) =
         Ok (bs, length pre + length bs + 2)"
  using assms
  by (simp add: read_bulk_bytes_def checked_add_def fits_def i64_max_def usize_max_def
      nth_append subslice_def)

lemma parse_i64_show_nat: "n \<le> i64_max \<Longrightarrow> parse_i64 (show_nat n) = Ok (int n)"
  by (simp add: parse_i64_def from_utf8_def parse_int64_show_nat)

lemma parse_i64_show_sint: "parse_i64 (show_int (sint (w :: i64))) = Ok (sint w)"
  using sint_range_size [of w]
  by (simp add: parse_i64_def from_utf8_def parse_int64_show_int i64_max_def word_size)

text \<open>One line-headed form covers all six kinds: a type byte, a line, CRLF.\<close>

lemma read_header:
  assumes "crlf_free line"
  shows "read_byte (pre @ (b # line @ crlf @ rest)) (length pre) = Ok (b, Suc (length pre))"
    and "read_line (pre @ (b # line @ crlf @ rest)) (Suc (length pre)) =
         Ok (line, length pre + length line + 3)"
  using read_byte_at read_line_at [OF assms, of "pre @ [b]"] by simp_all

lemma parse_elems_at:
  assumes "\<And>v pre rest. v \<in> set vs \<Longrightarrow> fits (pre @ encode_resp v @ rest) \<Longrightarrow>
     parse_value lim stack (pre @ encode_resp v @ rest) (length pre) =
       Ok (frame_of v, length pre + length (encode_resp v))"
    and "fits (pre @ concat (map encode_resp vs) @ rest)"
  shows "parse_elems lim stack (length vs) (pre @ concat (map encode_resp vs) @ rest) (length pre) =
     Ok (map frame_of vs, length pre + length (concat (map encode_resp vs)))"
  using assms
proof (induction vs arbitrary: pre)
  case Nil
  show ?case by (simp add: parse_eqs)
next
  case (Cons v vs)
  from Cons.prems(1) [of v pre "concat (map encode_resp vs) @ rest"] Cons.prems(2)
  have head: "parse_value lim stack (pre @ concat (map encode_resp (v # vs)) @ rest) (length pre) =
      Ok (frame_of v, length pre + length (encode_resp v))"
    by simp
  from Cons.prems Cons.IH [of "pre @ encode_resp v"]
  have "parse_elems lim stack (length vs) (pre @ concat (map encode_resp (v # vs)) @ rest)
      (length pre + length (encode_resp v)) =
      Ok (map frame_of vs, length pre + length (concat (map encode_resp (v # vs))))"
    by simp
  with head show ?case by (simp add: parse_eqs)
qed

lemma parse_array_at:
  assumes "length vs \<le> i64_max" "length vs \<le> max_capacity lim"
    and elems: "\<And>pre. fits (pre @ concat (map encode_resp vs) @ rest) \<Longrightarrow>
      parse_elems lim stack (length vs) (pre @ concat (map encode_resp vs) @ rest) (length pre) =
      Ok (map frame_of vs, length pre + length (concat (map encode_resp vs)))"
    and "fits (pre @ encode_resp (Array vs) @ rest)"
  shows "parse_value lim (Suc stack) (pre @ encode_resp (Array vs) @ rest) (length pre) =
     Ok (FArray (map frame_of vs), length pre + length (encode_resp (Array vs)))"
proof -
  let ?n = "show_nat (length vs)"
  let ?input = "pre @ CHR ''*'' # ?n @ crlf @ concat (map encode_resp vs) @ rest"
  have header: "read_byte ?input (length pre) = Ok (CHR ''*'', Suc (length pre))"
    "read_line ?input (Suc (length pre)) = Ok (?n, length pre + length ?n + 3)"
    by (rule read_header, simp)+
  from elems [of "pre @ CHR ''*'' # ?n @ crlf"] assms(4)
  have "parse_elems lim stack (length vs) ?input (length pre + length ?n + 3) =
      Ok (map frame_of vs, length pre + length (encode_resp (Array vs)))"
    by (simp add: add.assoc eval_nat_numeral)
  then have "parse_value lim (Suc stack) ?input (length pre) =
      Ok (FArray (map frame_of vs), length pre + length (encode_resp (Array vs)))"
    by (simp add: parse_eqs header parse_i64_show_nat assms(1) leD [OF assms(2)] del: append.simps)
  then show ?thesis by simp
qed

lemma parse_value_at:
  assumes "wf_value v" "depth v \<le> stack" "widest v \<le> max_capacity lim"
    and "fits (pre @ encode_resp v @ rest)"
  shows "parse_value lim stack (pre @ encode_resp v @ rest) (length pre) =
     Ok (frame_of v, length pre + length (encode_resp v))"
  using assms
proof (induction v arbitrary: stack pre rest)
  case (SimpleString t)
  from SimpleString obtain s where "stack = Suc s" by (cases stack) auto
  with SimpleString show ?case
    using read_header [of t pre "CHR ''+''" rest]
    by (simp add: parse_eqs parse_simple_string_def from_utf8_def)
next
  case (Error t)
  from Error obtain s where "stack = Suc s" by (cases stack) auto
  with Error show ?case
    using read_header [of t pre "CHR ''-''" rest]
    by (simp add: parse_eqs parse_error_def from_utf8_def)
next
  case (Integer n)
  from Integer obtain s where "stack = Suc s" by (cases stack) auto
  then show ?case
    using read_header [of "show_int (sint n)" pre "CHR '':''" rest]
    by (simp add: parse_eqs parse_integer_def parse_i64_show_sint)
next
  case (BulkString b)
  from BulkString obtain s where "stack = Suc s" by (cases stack) auto
  with BulkString show ?case
    using read_header [of "show_nat (length b)" pre "CHR ''$''" "b @ crlf @ rest"]
      read_bulk_bytes_at [of "pre @ CHR ''$'' # show_nat (length b) @ crlf" b rest]
    by (simp add: parse_eqs parse_bulk_string_def parse_i64_show_nat eval_nat_numeral)
next
  case (Array vs)
  from Array.prems obtain s where s: "stack = Suc s" by (cases stack) auto
  have elem: "parse_value lim s (pre @ encode_resp v @ rest) (length pre) =
      Ok (frame_of v, length pre + length (encode_resp v))"
    if "v \<in> set vs" "fits (pre @ encode_resp v @ rest)" for v pre rest
    using that Array s depth_elem [of v vs] widest_elem [of v vs]
    by (simp add: list_all_iff del: depth.simps widest.simps)
  from Array.prems widest_length [of vs] show ?case
    unfolding s frame_of.simps
    by (intro parse_array_at parse_elems_at elem) (auto simp del: widest.simps)
next
  case Null
  from Null obtain s where "stack = Suc s" by (cases stack) auto
  then show ?case
    using read_header [of "''-1''" pre "CHR ''$''" rest]
    by (simp add: parse_eqs parse_bulk_string_def parse_i64_def from_utf8_def utf8_tail.simps
        parse_int64_def digit_val_def code_def i64_max_def)
qed

section \<open>When the parser panics\<close>

named_theorems no_panic \<open>steps that always return\<close>

lemma no_panic_read [no_panic]:
  "read_byte input pos \<noteq> Panic" "read_line input pos \<noteq> Panic"
  "read_bulk_bytes input pos len \<noteq> Panic" "parse_i64 bs \<noteq> Panic"
  by (auto simp: read_byte_def read_line_def read_line_from_not_Panic read_bulk_bytes_def
      parse_i64_def result_simps split: if_splits)

lemma no_panic_parse_lines [no_panic]:
  "parse_simple_string input pos \<noteq> Panic" "parse_error input pos \<noteq> Panic"
  "parse_integer input pos \<noteq> Panic" "parse_bulk_string input pos \<noteq> Panic"
  by (auto simp: parse_simple_string_def parse_error_def parse_integer_def parse_bulk_string_def
      result_simps no_panic split: if_splits)

lemma parse_i64_Ok:
  assumes "parse_i64 bs = Ok v"
  shows "bs \<noteq> []" "v \<le> int i64_max"
  using assms
  by (auto simp: parse_i64_def parse_int64_def from_utf8_def Let_def result_simps
      split: if_splits option.splits)

lemma read_line_length:
  "read_line input pos = Ok (line, pos') \<Longrightarrow> pos' = pos + length line + 2 \<and> pos' \<le> length input"
  by (auto simp: read_line_def subslice_def dest!: read_line_from_Ok)

text \<open>An array header costs at least four bytes: the star, one digit and CRLF.\<close>

lemma array_header_cost:
  "read_byte input pos = Ok (b, p1) \<Longrightarrow> read_line input p1 = Ok (line, p2) \<Longrightarrow>
     parse_i64 line = Ok len \<Longrightarrow> pos + 4 \<le> p2 \<and> p2 \<le> length input"
  using parse_i64_Ok(1) [of line len] read_line_length [of input p1 line p2]
  by (cases line) (auto simp: read_byte_def split: if_splits)

lemma parse_elems_no_panic:
  assumes "\<And>q. pos \<le> q \<Longrightarrow> q \<le> length input \<Longrightarrow> parse_value lim stack input q \<noteq> Panic"
    and "pos \<le> length input"
  shows "parse_elems lim stack n input pos \<noteq> Panic"
  using assms
proof (induction n arbitrary: pos)
  case 0
  show ?case by (simp add: parse_eqs)
next
  case (Suc n)
  have rest: "parse_elems lim stack n input q \<noteq> Panic"
    if "parse_value lim stack input pos = Ok (v, q)" for v q
    using advancesD [OF advances_parse_value that Suc.prems(2)]
    by (intro Suc.IH Suc.prems(1)) auto
  show ?case
    using Suc.prems rest by (auto simp: parse_eqs result_simps)
qed

lemma parse_value_no_panic:
  assumes "i64_max \<le> max_capacity lim" "pos \<le> length input" "length input < pos + 4 * stack"
  shows "parse_value lim stack input pos \<noteq> Panic"
  using assms(2,3)
proof (induction stack arbitrary: pos)
  case 0
  then show ?case by simp
next
  case (Suc stack)
  have array: "parse_array lim stack input p1 \<noteq> Panic" if b: "read_byte input pos = Ok (b, p1)" for b p1
  proof
    assume "parse_array lim stack input p1 = Panic"
    then obtain line p2 len where l: "read_line input p1 = Ok (line, p2)" and i: "parse_i64 line = Ok len"
      and bad: "nat len > max_capacity lim \<or> parse_elems lim stack (nat len) input p2 = Panic"
      by (auto simp: parse_eqs result_simps no_panic split: if_splits)
    have "nat len \<le> max_capacity lim"
      using parse_i64_Ok(2) [OF i] assms(1) by linarith
    moreover have "parse_elems lim stack (nat len) input p2 \<noteq> Panic"
      using array_header_cost [OF b l i] Suc.prems
      by (intro parse_elems_no_panic Suc.IH) auto
    ultimately show False using bad by simp
  qed
  then show ?case
    by (auto simp: parse_eqs(2) result_simps no_panic split: if_splits)
qed

lemma parse_value_nested_panic:
  assumes "1 \<le> max_capacity lim" "stack \<le> d"
  shows "parse_value lim stack (pre @ concat (replicate d (''*1'' @ crlf)) @ rest) (length pre) = Panic"
  using assms(2)
proof (induction stack arbitrary: pre d)
  case 0
  show ?case by (simp add: parse_eqs)
next
  case (Suc stack)
  then obtain e where d: "d = Suc e" "stack \<le> e" by (cases d) auto
  let ?tl = "concat (replicate e (''*1'' @ crlf)) @ rest"
  have header: "read_byte (pre @ CHR ''*'' # ''1'' @ crlf @ ?tl) (length pre) = Ok (CHR ''*'', Suc (length pre))"
    "read_line (pre @ CHR ''*'' # ''1'' @ crlf @ ?tl) (Suc (length pre)) = Ok (''1'', length pre + length ''1'' + 3)"
    by (rule read_header, simp)+
  have one: "parse_i64 ''1'' = Ok 1"
    using parse_i64_show_nat [of 1] by (simp add: show_nat.simps digit_char_def i64_max_def)
  from Suc.IH [of e "pre @ ''*1'' @ crlf"] d(2)
  have "parse_value lim stack (pre @ CHR ''*'' # ''1'' @ crlf @ ?tl) (length pre + 4) = Panic"
    by (simp add: eval_nat_numeral)
  with header one assms(1) show ?case
    by (simp add: d(1) parse_eqs eval_nat_numeral)
qed

lemma parse_value_capacity_panic:
  assumes "max_capacity lim < n" "n \<le> i64_max"
  shows "parse_value lim (Suc stack) (pre @ ''*'' @ show_nat n @ crlf @ rest) (length pre) = Panic"
  using read_header [of "show_nat n" pre "CHR ''*''" rest] assms
  by (simp add: parse_eqs parse_i64_show_nat)

section \<open>Every parsed frame has a canonical encoding\<close>

fun value_of :: "resp_frame \<Rightarrow> resp_value" where
  "value_of (FSimpleString t) = SimpleString t"
| "value_of (FError t) = Error t"
| "value_of (FInteger n) = Integer n"
| "value_of (FBulkString b) = BulkString b"
| "value_of (FArray fs) = Array (map value_of fs)"
| "value_of FNull = Null"

lemma frame_of_value_of [simp]: "frame_of (value_of f) = f"
  by (induction f) (simp_all add: map_idI)

lemma read_line_from_no_crlf:
  "read_line_from input start stop = Ok (line, pos') \<Longrightarrow> start \<le> stop \<Longrightarrow>
     (\<And>i. start \<le> i \<Longrightarrow> i < stop \<Longrightarrow> \<not> (input ! i = CR \<and> input ! Suc i = LF)) \<Longrightarrow>
     start \<le> i \<Longrightarrow> Suc i < pos' - 2 \<Longrightarrow> \<not> (input ! i = CR \<and> input ! Suc i = LF)"
proof (induction input start stop rule: read_line_from.induct)
  case (1 input start stop)
  show ?case
  proof (cases "input ! stop = CR \<and> input ! (stop + 1) = LF")
    case True
    with 1 show ?thesis
      by (auto simp: read_line_from.simps [of input start stop] split: if_split_asm)
  next
    case False
    with 1 show ?thesis
      by (auto simp: read_line_from.simps [of input start stop] less_Suc_eq split: if_split_asm)
  qed
qed

lemma crlf_freeI: "(\<And>i. Suc i < length xs \<Longrightarrow> \<not> (xs ! i = CR \<and> xs ! Suc i = LF)) \<Longrightarrow> crlf_free xs"
proof (induction xs rule: crlf_free.induct)
  case (1 a b xs)
  from "1.prems" [of 0] have "\<not> (a = CR \<and> b = LF)" by simp
  moreover have "crlf_free (b # xs)"
  proof (rule "1.IH")
    fix i assume "Suc i < length (b # xs)"
    with "1.prems" [of "Suc i"] show "\<not> ((b # xs) ! i = CR \<and> (b # xs) ! Suc i = LF)" by simp
  qed
  ultimately show ?case by simp
qed simp_all

lemma read_line_crlf_free:
  assumes "read_line input pos = Ok (line, pos')"
  shows "crlf_free line"
proof (rule crlf_freeI)
  fix i assume i: "Suc i < length line"
  from assms have r: "read_line_from input pos pos = Ok (line, pos')"
    by (simp add: read_line_def)
  with read_line_from_Ok [OF r] i
  have line: "line = subslice pos (pos' - 2) input" and le: "Suc (pos + i) < pos' - 2"
    by (auto simp: subslice_def)
  have nth: "line ! j = input ! (pos + j)" if "j \<le> Suc i" for j
    using that le read_line_length [OF assms] by (subst line) (simp add: subslice_def)
  from read_line_from_no_crlf [OF r _ _ _ le] nth [of i] nth [of "Suc i"]
  show "\<not> (line ! i = CR \<and> line ! Suc i = LF)" by simp
qed

lemma parse_digits_bound:
  "parse_digits acc cs = Some n \<Longrightarrow> n < (acc + 1) * 10 ^ length cs"
proof (induction acc cs rule: parse_digits.induct)
  case (2 acc c cs)
  then obtain d where d: "digit_val c = Some d" "parse_digits (acc * 10 + d) cs = Some n"
    by (auto split: option.splits)
  from d(1) have "d < 10"
    by (auto simp: digit_val_def code_def less_eq_char_def split: if_splits)
  from "2.IH" [OF d] have "n < (acc * 10 + d + 1) * 10 ^ length cs" .
  also have "\<dots> \<le> ((acc + 1) * 10) * 10 ^ length cs"
    using \<open>d < 10\<close> by (intro mult_le_mono1) simp
  finally show ?case by (simp add: algebra_simps)
qed simp

lemma show_nat_length: "n < 10 ^ k \<Longrightarrow> 0 < k \<Longrightarrow> length (show_nat n) \<le> k"
proof (induction n arbitrary: k rule: show_nat.induct)
  case (1 n)
  show ?case
  proof (cases "n < 10")
    case True
    with "1.prems" show ?thesis by (subst show_nat.simps) simp
  next
    case False
    with "1.prems" have "k \<noteq> 1" by auto
    with "1.prems" obtain j where k: "k = Suc j" "0 < j"
      by (intro that [of "k - 1"]) auto
    with "1.prems" have "n div 10 < 10 ^ j" by (simp add: less_mult_imp_div_less)
    with False k "1.IH" [of j] show ?thesis by (subst show_nat.simps) simp
  qed
qed

lemma parse_i64_canonical:
  assumes "parse_i64 bs = Ok v"
  shows "- int i64_max - 1 \<le> v" "length (show_int v) \<le> length bs"
proof -
  from assms have some: "parse_int64 bs = Some v"
    by (auto simp: parse_i64_def from_utf8_def result_simps split: if_splits)
  then show "- int i64_max - 1 \<le> v"
    by (auto simp: parse_int64_def Let_def split: if_splits option.splits)
  have len: "length (show_nat n) \<le> length ds" if "parse_digits 0 ds = Some n" "ds \<noteq> []" for ds n
    using parse_digits_bound [OF that(1)] that(2) by (intro show_nat_length) auto
  from some show "length (show_int v) \<le> length bs"
    by (cases bs)
       (auto simp: parse_int64_def show_int_def Let_def le_SucI
         simp del: parse_digits.simps split: if_splits option.splits dest!: len)
qed

text \<open>
  \<open>canonical\<close> collects what is needed to parse the re-encoding of a frame: it is well-formed, no
  deeper and no wider than the parser allowed, and no longer than the bytes it was read from.
\<close>

definition canonical :: "limits \<Rightarrow> nat \<Rightarrow> nat \<Rightarrow> resp_frame \<Rightarrow> bool" where
  "canonical lim stack n f \<longleftrightarrow>
     wf_value (value_of f) \<and> depth (value_of f) \<le> stack \<and>
     widest (value_of f) \<le> max_capacity lim \<and> length (encode_resp (value_of f)) \<le> n"

lemma sint_i64_of_int:
  "- int i64_max - 1 \<le> v \<Longrightarrow> v \<le> int i64_max \<Longrightarrow> sint (word_of_int v :: i64) = v"
  by (simp add: sint_sbintrunc' i64_max_def signed_take_bit_int_eq_self)

lemma canonical_lines:
  assumes "fits input" "read_byte input pos = Ok (b, p)"
  shows "parse_simple_string input p = Ok (f, q) \<Longrightarrow> canonical lim (Suc stack) (q - pos) f"
    and "parse_error input p = Ok (f, q) \<Longrightarrow> canonical lim (Suc stack) (q - pos) f"
    and "parse_integer input p = Ok (f, q) \<Longrightarrow> canonical lim (Suc stack) (q - pos) f"
proof -
  from assms(2) have p: "p = Suc pos" by (auto simp: read_byte_def split: if_splits)
  show "parse_simple_string input p = Ok (f, q) \<Longrightarrow> canonical lim (Suc stack) (q - pos) f"
    "parse_error input p = Ok (f, q) \<Longrightarrow> canonical lim (Suc stack) (q - pos) f"
    by (auto simp: parse_simple_string_def parse_error_def canonical_def p from_utf8_def result_simps
        dest: read_line_crlf_free read_line_length split: if_splits)
  show "canonical lim (Suc stack) (q - pos) f" if "parse_integer input p = Ok (f, q)"
  proof -
    from that obtain line v where l: "read_line input p = Ok (line, q)"
      and v: "parse_i64 line = Ok v" and f: "f = FInteger (word_of_int v)"
      by (auto simp: parse_integer_def result_simps)
    have "sint (word_of_int v :: i64) = v"
      using parse_i64_Ok(2) [OF v] parse_i64_canonical(1) [OF v] by (intro sint_i64_of_int)
    then show ?thesis
      using read_line_length [OF l] parse_i64_canonical(2) [OF v] by (simp add: canonical_def f p)
  qed
qed

lemma canonical_bulk:
  assumes "fits input" "read_byte input pos = Ok (b, p)" "parse_bulk_string input p = Ok (f, q)"
  shows "canonical lim (Suc stack) (q - pos) f"
proof -
  from assms(2) have p: "p = Suc pos" by (auto simp: read_byte_def split: if_splits)
  from assms(3) obtain line r len where l: "read_line input p = Ok (line, r)"
    and len: "parse_i64 line = Ok len"
    and cases: "len = -1 \<and> f = FNull \<and> q = r \<or>
      0 \<le> len \<and> (\<exists>bs. f = FBulkString bs \<and> read_bulk_bytes input r (nat len) = Ok (bs, q))"
    by (auto simp: parse_bulk_string_def result_simps split: if_splits)
  from cases show ?thesis
  proof
    assume null: "len = -1 \<and> f = FNull \<and> q = r"
    with parse_i64_canonical(2) [OF len] read_line_length [OF l] show ?thesis
      by (simp add: canonical_def p show_int_def show_nat.simps)
  next
    assume "0 \<le> len \<and> (\<exists>bs. f = FBulkString bs \<and> read_bulk_bytes input r (nat len) = Ok (bs, q))"
    then obtain bs where nn: "0 \<le> len" and f: "f = FBulkString bs"
      and bs: "length bs = nat len" "q = r + nat len + 2"
      by (auto simp: read_bulk_bytes_def checked_add_def subslice_def result_simps split: if_splits)
    have "length (show_nat (nat len)) \<le> length line"
      using parse_i64_canonical(2) [OF len] nn by (simp add: show_int_def)
    moreover have "nat len \<le> i64_max" using parse_i64_Ok(2) [OF len] by linarith
    ultimately show ?thesis
      using read_line_length [OF l] bs by (simp add: canonical_def f p)
  qed
qed

lemma canonical_elems:
  assumes "\<And>pos f q. pos \<le> length input \<Longrightarrow> parse_value lim stack input pos = Ok (f, q) \<Longrightarrow>
     canonical lim stack (q - pos) f"
    and "pos \<le> length input" "parse_elems lim stack n input pos = Ok (fs, q)"
  shows "length fs = n \<and> list_all (\<lambda>f. wf_value (value_of f)) fs \<and>
     (\<forall>f \<in> set fs. depth (value_of f) \<le> stack \<and> widest (value_of f) \<le> max_capacity lim) \<and>
     length (concat (map (encode_resp \<circ> value_of) fs)) + pos \<le> q"
  using assms(2,3)
proof (induction n arbitrary: pos fs)
  case 0
  then show ?case by (simp add: parse_eqs)
next
  case (Suc n)
  then obtain f r gs where f: "parse_value lim stack input pos = Ok (f, r)"
    and gs: "parse_elems lim stack n input r = Ok (gs, q)" and fs: "fs = f # gs"
    by (auto simp: parse_eqs result_simps)
  have "pos \<le> r" "r \<le> length input"
    using advancesD [OF advances_parse_value f Suc.prems(1)] by auto
  with Suc.IH [OF _ gs] assms(1) [OF Suc.prems(1) f] show ?case
    by (auto simp: fs canonical_def)
qed

lemma parse_value_canonical:
  assumes "fits input" "pos \<le> length input" "parse_value lim stack input pos = Ok (f, q)"
  shows "canonical lim stack (q - pos) f"
  using assms(2,3)
proof (induction stack arbitrary: pos f q)
  case 0
  then show ?case by (simp add: parse_eqs)
next
  case (Suc stack)
  from Suc.prems(2) obtain b p where b: "read_byte input pos = Ok (b, p)"
    and "parse_simple_string input p = Ok (f, q) \<or> parse_error input p = Ok (f, q) \<or>
      parse_integer input p = Ok (f, q) \<or> parse_bulk_string input p = Ok (f, q) \<or>
      parse_array lim stack input p = Ok (f, q)"
    by (auto simp: parse_eqs(2) result_simps split: if_splits)
  then consider (line) "canonical lim (Suc stack) (q - pos) f"
    | (array) "parse_array lim stack input p = Ok (f, q)"
    using canonical_lines [OF assms(1) b] canonical_bulk [OF assms(1) b] by blast
  then show ?case
  proof cases
    case array
    from b have p: "p = Suc pos" by (auto simp: read_byte_def split: if_splits)
    from array obtain line r len where l: "read_line input p = Ok (line, r)"
      and len: "parse_i64 line = Ok len"
      and cases: "len = -1 \<and> f = FNull \<and> q = r \<or>
        0 \<le> len \<and> nat len \<le> max_capacity lim \<and>
        (\<exists>fs. f = FArray fs \<and> parse_elems lim stack (nat len) input r = Ok (fs, q))"
      by (auto simp: parse_eqs(3) result_simps split: if_splits)
    note short = parse_i64_canonical(2) [OF len] and line = read_line_length [OF l]
    from cases show ?thesis
    proof
      assume "len = -1 \<and> f = FNull \<and> q = r"
      with short line show ?thesis by (simp add: canonical_def p show_int_def show_nat.simps)
    next
      assume "0 \<le> len \<and> nat len \<le> max_capacity lim \<and>
        (\<exists>fs. f = FArray fs \<and> parse_elems lim stack (nat len) input r = Ok (fs, q))"
      then obtain fs where nn: "0 \<le> len" "nat len \<le> max_capacity lim" and f: "f = FArray fs"
        and fs: "parse_elems lim stack (nat len) input r = Ok (fs, q)" by blast
      from line have "r \<le> length input" by simp
      from canonical_elems [OF Suc.IH this fs] have elems: "length fs = nat len"
        "list_all (\<lambda>f. wf_value (value_of f)) fs"
        "\<forall>f \<in> set fs. depth (value_of f) \<le> stack \<and> widest (value_of f) \<le> max_capacity lim"
        "length (concat (map (encode_resp \<circ> value_of) fs)) + r \<le> q"
        by auto
      moreover have "nat len \<le> i64_max" using parse_i64_Ok(2) [OF len] by linarith
      ultimately show ?thesis
        using short line nn
        by (simp add: canonical_def f p show_int_def list_all_length comp_def)
    qed
  qed
qed

section \<open>The protocol as a codec\<close>

definition encodable :: "limits \<Rightarrow> resp_value \<Rightarrow> bool" where
  "encodable lim v \<longleftrightarrow> wf_value v \<and> depth v \<le> max_depth lim \<and>
     widest v \<le> max_capacity lim \<and> fits (encode_resp v)"

interpretation resp: codec "parse_resp lim" Incomplete encode_resp frame_of "encodable lim" for lim
proof unfold_locales
  fix bs rest
  assume "parse_resp lim bs \<noteq> Err Incomplete"
  then show "parse_resp lim (bs @ rest) = parse_resp lim bs"
    unfolding parse_resp_def by (rule stableD [OF stable_parse_value])
next
  fix bs v n
  assume "parse_resp lim bs = Ok (v, n)"
  then show "0 < n \<and> n \<le> length bs"
    unfolding parse_resp_def using advancesD [OF advances_parse_value] by fastforce
next
  fix bs v n
  assume ok: "parse_resp lim bs = Ok (v, n)"
  then have "n \<le> length bs"
    unfolding parse_resp_def using advancesD [OF advances_parse_value] by fastforce
  with ok show "parse_resp lim (take n bs) = Ok (v, n)"
    unfolding parse_resp_def using localD [OF local_parse_value, of lim "max_depth lim" "take n bs" "drop n bs" 0 v n]
    by simp
next
  fix x
  assume "encodable lim x"
  then show "parse_resp lim (encode_resp x) = Ok (frame_of x, length (encode_resp x))"
    using parse_value_at [of x "max_depth lim" lim "[]" "[]"]
    by (simp add: encodable_def parse_resp_def)
qed

section \<open>Properties\<close>

text \<open>
  C1: Parsing what the encoder wrote gives the value back and consumes exactly the encoding,
  whatever bytes follow, for every value whose line texts hold no CRLF, whose nesting and array
  widths the machine grants and whose encoding fits a slice.
\<close>

theorem parse_encode_roundtrip:
  assumes "encodable lim v"
  shows "parse_resp lim (encode_resp v @ rest) = Ok (frame_of v, length (encode_resp v))"
  by (rule resp.dec_enc_append) (rule assms)

theorem parse_encode_roundtrip_witness:
  "parse_resp \<lparr>max_capacity = 8, max_depth = 4\<rparr>
     (encode_resp (Array [BulkString ''GET'', Integer (- 7), Null, Array [SimpleString ''k'']]) @ ''+OK'')
   = Ok (FArray [FBulkString ''GET'', FInteger (- 7), FNull, FArray [FSimpleString ''k'']],
         length (encode_resp (Array [BulkString ''GET'', Integer (- 7), Null, Array [SimpleString ''k'']])))"
proof -
  let ?v = "Array [BulkString ''GET'', Integer (- 7), Null, Array [SimpleString ''k'']]"
  have "encodable \<lparr>max_capacity = 8, max_depth = 4\<rparr> ?v"
    by code_simp
  from parse_encode_roundtrip [OF this, of "''+OK''"] show ?thesis by simp
qed

text \<open>
  C5: A result other than "incomplete" is final: appending more bytes to the buffer changes
  neither the frame, nor the count of consumed bytes, nor a hard error, so the connection may parse
  after every read without depending on how TCP cut the stream.
\<close>

theorem parse_resp_more_input:
  assumes "parse_resp lim bs \<noteq> Err Incomplete"
  shows "parse_resp lim (bs @ rest) = parse_resp lim bs"
  by (rule resp.more_input) (rule assms)

theorem parse_resp_more_input_witness:
  "parse_resp \<lparr>max_capacity = 8, max_depth = 4\<rparr> (''?x'' @ ''y'') = Err (InvalidTypeByte (CHR ''?''))"
proof -
  have bad: "parse_resp \<lparr>max_capacity = 8, max_depth = 4\<rparr> ''?x'' = Err (InvalidTypeByte (CHR ''?''))"
    by code_simp
  with parse_resp_more_input [of "\<lparr>max_capacity = 8, max_depth = 4\<rparr>" "''?x''" "''y''"]
  show ?thesis by simp
qed

text \<open>
  C6: Every proper prefix of an encoded value is reported as incomplete, never as a shorter
  frame and never as an error: a reader that waits for more bytes does not lose synchronisation.
\<close>

theorem encode_prefix_incomplete:
  assumes "encodable lim v" "m < length (encode_resp v)"
  shows "parse_resp lim (take m (encode_resp v)) = Err Incomplete"
  using assms by (rule resp.enc_prefix_incomplete)

theorem encode_prefix_incomplete_witness:
  "parse_resp \<lparr>max_capacity = 8, max_depth = 4\<rparr> (take 7 (encode_resp (BulkString ''hello''))) = Err Incomplete"
  by (rule encode_prefix_incomplete) code_simp+

text \<open>
  Every frame the parser accepts, including those written with plus signs or leading
  zeros, is UTF-8 and CRLF-free where its type says text, and its canonical re-encoding is no
  longer than the bytes consumed and parses back to the same frame.
\<close>

theorem parse_resp_reencode:
  assumes "parse_resp lim input = Ok (f, n)" "fits input"
  shows "wf_value (value_of f) \<and> length (encode_resp (value_of f)) \<le> n \<and>
     parse_resp lim (encode_resp (value_of f)) = Ok (f, length (encode_resp (value_of f)))"
proof -
  have can: "canonical lim (max_depth lim) n f"
    using parse_value_canonical [OF assms(2), of 0] assms(1) by (simp add: parse_resp_def)
  with resp.consumes [OF assms(1)] assms(2) have "encodable lim (value_of f)"
    by (simp add: canonical_def encodable_def fits_def)
  from resp.dec_enc [OF this] can show ?thesis by (simp add: canonical_def)
qed

theorem parse_resp_reencode_witness:
  "parse_resp \<lparr>max_capacity = 8, max_depth = 4\<rparr> (encode_resp (value_of (FInteger 5))) =
     Ok (FInteger 5, length (encode_resp (value_of (FInteger 5))))"
proof -
  have "parse_resp \<lparr>max_capacity = 8, max_depth = 4\<rparr> ('':+05'' @ crlf) = Ok (FInteger 5, 6)"
    by code_simp
  from parse_resp_reencode [OF this] show ?thesis by (simp add: fits_def i64_max_def)
qed

text \<open>
  The parser never reads past its input and always makes progress: a frame consumes at
  least one byte and at most the buffer.
\<close>

theorem parse_resp_consumes:
  assumes "parse_resp lim bs = Ok (f, n)"
  shows "0 < n \<and> n \<le> length bs"
  using assms by (rule resp.consumes)

theorem parse_resp_consumes_witness: "0 < (5::nat) \<and> 5 \<le> length (''$-1'' @ crlf @ ''+'')"
  by (rule parse_resp_consumes [of "\<lparr>max_capacity = 8, max_depth = 4\<rparr>" _ FNull])
     code_simp

text \<open>
  On a machine whose allocator grants every array header, an input of fewer than four
  bytes per available stack frame never makes the parser panic.
\<close>

theorem parse_resp_no_panic:
  assumes "i64_max \<le> max_capacity lim" "length input < 4 * max_depth lim"
  shows "parse_resp lim input \<noteq> Panic"
  unfolding parse_resp_def by (rule parse_value_no_panic) (use assms in auto)

theorem parse_resp_no_panic_witness:
  "parse_resp \<lparr>max_capacity = i64_max, max_depth = 2\<rparr> (''*1'' @ crlf) \<noteq> Panic"
  by (rule parse_resp_no_panic) simp_all

text \<open>
  That bound is sharp: the recursion depth is chosen by the peer. For every stack size
  there is an input of four bytes per frame, a chain of one-element array headers, that exhausts the
  stack.
\<close>

theorem parse_resp_nested_panic:
  assumes "1 \<le> max_capacity lim"
  shows "parse_resp lim (concat (replicate (max_depth lim) (''*1'' @ crlf))) = Panic \<and>
     length (concat (replicate (max_depth lim) (''*1'' @ crlf))) = 4 * max_depth lim"
  using parse_value_nested_panic [OF assms order_refl, where pre = "[]" and rest = "[]"]
  by (simp add: parse_resp_def length_concat sum_list_replicate)

theorem parse_resp_nested_panic_witness:
  "parse_resp \<lparr>max_capacity = 1, max_depth = 2\<rparr> (''*1'' @ crlf @ ''*1'' @ crlf) = Panic"
  using parse_resp_nested_panic [of "\<lparr>max_capacity = 1, max_depth = 2\<rparr>"]
  by (simp add: eval_nat_numeral)

text \<open>
  An array header is trusted before any element has arrived: a header announcing more
  elements than the allocator can grant panics inside \<open>Vec::with_capacity\<close>, whatever follows it
  (\<open>*9223372036854775807\<close> is 22 bytes on the wire).
\<close>

theorem parse_resp_capacity_panic:
  assumes "max_capacity lim < n" "n \<le> i64_max" "0 < max_depth lim"
  shows "parse_resp lim (''*'' @ show_nat n @ crlf @ rest) = Panic"
proof -
  from assms(3) obtain d where d: "max_depth lim = Suc d" by (cases "max_depth lim") auto
  show ?thesis
    using parse_value_capacity_panic [OF assms(1,2), of d "[]" rest] by (simp add: parse_resp_def d)
qed

theorem parse_resp_capacity_panic_witness:
  "parse_resp \<lparr>max_capacity = 1000000, max_depth = 64\<rparr> (''*'' @ show_nat i64_max @ crlf @ []) = Panic"
  by (rule parse_resp_capacity_panic) (simp_all add: i64_max_def)

end
