(* ===== verification/Executor.thy ===== *)
theory Executor
  imports Command Sharded Stats Wire
begin

text \<open>
  \<open>rustkv-core/src/executor.rs\<close>: \<open>execute_command\<close>, which runs one command on the store, keeps the
  statistics and builds the reply. What it does between two awaits is one step here; a panic in the
  store unwinds through it, leaving the statistics as far as they had got. \<open>json\<close> stands for
  \<open>serde_json::to_string\<close> on the statistics snapshot.
\<close>

type_synonym json = "stats_snapshot \<Rightarrow> (bytes, bytes) result"

type_synonym exec = "(kv_error, resp_value) result \<times> sharded \<times> server_stats"

definition error_response :: "bytes \<Rightarrow> resp_value" where
  "error_response text = Error text"

definition bulk_response :: "bytes \<Rightarrow> resp_value" where
  "bulk_response bs = BulkString bs"

text \<open>
  A \<open>Result\<close> becomes a reply: the given text of a value, or the error's own text. The last equation
  is never used: an outcome that was returned holds no panic.
\<close>

fun result_response :: "('a \<Rightarrow> resp_value) \<Rightarrow> (kv_error, 'a) result \<Rightarrow> resp_value" where
  "result_response f (Ok x) = f x"
| "result_response f (Err e) = error_response (show_kv_error e)"
| "result_response f Panic = Null"

definition result_to_ok_response :: "(kv_error, unit) result \<Rightarrow> resp_value" where
  "result_to_ok_response res = result_response (\<lambda>_. SimpleString ''OK'') res"

definition bool_response :: "bool \<Rightarrow> resp_value" where
  "bool_response b = (if b then Integer 1 else Integer 0)"

text \<open>Serialising the statistics takes the snapshot, which stores the uptime it reports.\<close>

definition to_json_string :: "json \<Rightarrow> instant \<Rightarrow> server_stats \<Rightarrow> (kv_error, bytes) result \<times> server_stats" where
  "to_json_string json now st =
     (let (snap, st) = stats_snapshot_at now st in (map_err Serde (json snap), st))"

text \<open>After an awaited store operation: go on with its outcome, or unwind.\<close>

definition after_op ::
  "('a db_outcome, sharded) op \<Rightarrow> server_stats \<Rightarrow> ('a db_outcome \<Rightarrow> resp_value \<times> server_stats) \<Rightarrow> exec" where
  "after_op r st f =
     (case fst r of
        Ok out \<Rightarrow> (let (reply, st) = f out in (Ok reply, snd r, st))
      | Err e \<Rightarrow> (Err e, snd r, st)
      | Panic \<Rightarrow> (Panic, snd r, st))"

text \<open>The two updates that follow every operation on keys.\<close>

definition note_outcome :: "'a db_outcome \<Rightarrow> server_stats \<Rightarrow> server_stats" where
  "note_outcome out st = incr_expired_keys_by (expired_count out) (set_key_count (key_count out) st)"

fun run_command ::
  "hasher \<Rightarrow> layout \<Rightarrow> json \<Rightarrow> clock \<Rightarrow> command \<Rightarrow> sharded \<Rightarrow> server_stats \<Rightarrow> exec" where
  "run_command h ly json c Ping sd st = (Ok (SimpleString ''PONG''), sd, st)"
| "run_command h ly json c (Set k v e) sd st =
     after_op (sharded_set h c k v e sd) st (\<lambda>out.
       (result_to_ok_response (outcome out), note_outcome out (incr_set_count st)))"
| "run_command h ly json c (SetPxAt k v ms) sd st =
     after_op (sharded_set_at_ms h c k v ms sd) st (\<lambda>out.
       (result_to_ok_response (outcome out), note_outcome out (incr_set_count st)))"
| "run_command h ly json c (Get k) sd st =
     after_op (sharded_get h c k sd) st (\<lambda>out.
       (result_response (\<lambda>found. case found of Some v \<Rightarrow> bulk_response v | None \<Rightarrow> Null) (outcome out),
        note_outcome out (incr_get_count st)))"
| "run_command h ly json c (Del ks) sd st =
     after_op (sharded_del h c ks sd) st (\<lambda>out.
       (result_response (\<lambda>count. Integer (word_of_nat count)) (outcome out),
        note_outcome out (incr_del_count st)))"
| "run_command h ly json c (Exists k) sd st =
     after_op (sharded_exists h c k sd) st (\<lambda>out.
       (result_response bool_response (outcome out), note_outcome out st))"
| "run_command h ly json c Keys sd st =
     (Ok (result_response (\<lambda>ks. Array (map bulk_response ks)) (sharded_keys c sd)), sd, st)"
| "run_command h ly json c (Expire k secs) sd st =
     after_op (sharded_expire h c k secs sd) st (\<lambda>out.
       (result_response bool_response (outcome out), note_outcome out st))"
| "run_command h ly json c (ExpireAt k ms) sd st =
     after_op (sharded_expire_at_ms h c k ms sd) st (\<lambda>out.
       (result_response bool_response (outcome out), note_outcome out st))"
| "run_command h ly json c (Ttl k) sd st =
     after_op (sharded_ttl h c k sd) st (\<lambda>out.
       (result_response Integer (outcome out), note_outcome out st))"
| "run_command h ly json c FlushDb sd st =
     after_op (sharded_flushdb sd) st (\<lambda>out.
       (result_to_ok_response (outcome out), set_key_count (key_count out) st))"
| "run_command h ly json c Info sd st =
     (let (snapshot, sd) = sharded_info_snapshot ly c sd;
          st = set_key_count (info_key_count snapshot) st;
          st = set_memory_estimate_bytes (info_memory_estimate_bytes snapshot) st;
          st = incr_expired_keys_by (info_expired_count snapshot) st;
          (res, st) = to_json_string json (op_at c) st
      in (Ok (result_response bulk_response res), sd, st))"
| "run_command h ly json c (Unknown name) sd st =
     (Ok (error_response (''ERR unknown command '' @ [CHR 0x27] @ name @ [CHR 0x27])), sd, st)"

definition execute_command ::
  "hasher \<Rightarrow> layout \<Rightarrow> json \<Rightarrow> clock \<Rightarrow> command \<Rightarrow> sharded \<Rightarrow> server_stats \<Rightarrow> exec" where
  "execute_command h ly json c cmd sd st =
     run_command h ly json c cmd sd (if cmd = Info then st else incr_total_commands st)"

section \<open>The executor and the store\<close>

text \<open>The call of the store that a command makes, and the reply it makes of the answer.\<close>

fun store_call_of :: "command \<Rightarrow> store_call option" where
  "store_call_of (Set k v e) = Some (Call_set k v e)"
| "store_call_of (SetPxAt k v ms) = Some (Call_set_at_ms k v ms)"
| "store_call_of (Get k) = Some (Call_get k)"
| "store_call_of (Del ks) = Some (Call_del ks)"
| "store_call_of (Exists k) = Some (Call_exists k)"
| "store_call_of Keys = Some Call_keys"
| "store_call_of (Expire k s) = Some (Call_expire k s)"
| "store_call_of (ExpireAt k ms) = Some (Call_expire_at_ms k ms)"
| "store_call_of (Ttl k) = Some (Call_ttl k)"
| "store_call_of FlushDb = Some Call_flushdb"
| "store_call_of Ping = None"
| "store_call_of Info = None"
| "store_call_of (Unknown n) = None"

fun answer_response :: "store_answer \<Rightarrow> resp_value" where
  "answer_response Done = SimpleString ''OK''"
| "answer_response (Found None) = Null"
| "answer_response (Found (Some v)) = BulkString v"
| "answer_response (Count n) = Integer (word_of_nat n)"
| "answer_response (Flag b) = Integer (if b then 1 else 0)"
| "answer_response (Names ks) = Array (map BulkString ks)"
| "answer_response (Seconds n) = Integer n"
| "answer_response Swept = Null"

lemmas response_defs = error_response_def bulk_response_def result_to_ok_response_def bool_response_def

fun reply_value :: "reply \<Rightarrow> (kv_error, resp_value) result" where
  "reply_value (Ok a) = Ok (answer_response a)"
| "reply_value (Err e) = Ok (Error (show_kv_error e))"
| "reply_value Panic = Panic"

text \<open>An operation of the sharded store returns an outcome without a panic inside, or unwinds.\<close>

definition proper :: "('a db_outcome, sharded) op \<Rightarrow> bool" where
  "proper r \<longleftrightarrow> (\<forall>e. fst r \<noteq> Err e) \<and> (\<forall>out. fst r = Ok out \<longrightarrow> outcome out \<noteq> Panic)"

lemma proper_shard_ops: "proper (on_shard i f sd)" "proper (on_swept_shard c i f sd)"
  by (auto simp: proper_def on_shard_def on_swept_shard_def Let_def split: prod.splits if_splits)

lemma proper_del_loop: "proper (sharded_del_loop h c ks r x sd)"
proof (induction ks arbitrary: r x sd)
  case Nil
  then show ?case by (simp add: proper_def)
next
  case (Cons k ks)
  then show ?case
    by (cases "fst (db_del c [k] (shards sd ! shard_for_key h k sd))")
       (simp_all add: Let_def case_prod_beta, simp_all add: proper_def)
qed

lemma proper_ops:
  "proper (sharded_set h c k v e sd)" "proper (sharded_set_at_ms h c k v ms sd)"
  "proper (sharded_get h c k sd)" "proper (sharded_del h c ks sd)" "proper (sharded_exists h c k sd)"
  "proper (sharded_expire h c k s sd)" "proper (sharded_expire_at_ms h c k ms sd)"
  "proper (sharded_ttl h c k sd)" "proper (sharded_flushdb sd)"
  by (simp_all add: sharded_set_def sharded_set_at_ms_def sharded_get_def sharded_del_def sharded_exists_def
      sharded_expire_def sharded_expire_at_ms_def sharded_ttl_def proper_shard_ops proper_del_loop)
     (simp add: proper_def sharded_flushdb_eq)

lemma after_op_store [simp]: "fst (snd (after_op r st f)) = snd r"
  by (simp add: after_op_def case_prod_beta split: result.splits)

lemma after_op_reply:
  assumes "proper r" and "\<And>out. fst (f out) = result_response g (outcome out)"
    and "\<And>x. g x = answer_response (tag x)"
  shows "fst (after_op r st f) = reply_value (map_ok tag (fst (flat r)))"
proof (cases "fst r")
  case (Ok out)
  with assms show ?thesis
    by (cases "outcome out") (auto simp: after_op_def flat_def case_prod_beta proper_def error_response_def)
qed (use assms in \<open>simp_all add: after_op_def flat_def proper_def\<close>)

lemma run_command_store:
  "store_call_of cmd = Some call \<Longrightarrow> fst (snd (run_command h ly json c cmd sd st)) = snd (sharded_call h c call sd)"
  by (cases cmd) auto

lemma run_command_reply:
  assumes "store_call_of cmd = Some call"
  shows "fst (run_command h ly json c cmd sd st) = reply_value (fst (sharded_call h c call sd))"
proof (cases cmd)
  case Keys
  have "sharded_keys c sd \<noteq> Panic"
    by (simp add: sharded_keys_def result_simps collect_results_not_Panic db_keys_def)
  with Keys assms show ?thesis
    by (cases "sharded_keys c sd") (auto simp: response_defs)
next
  case (Get k)
  have "fst (run_command h ly json c cmd sd st) = reply_value (map_ok Found (fst (flat (sharded_get h c k sd))))"
    unfolding Get run_command.simps
    by (rule after_op_reply [OF proper_ops(3),
          where g = "\<lambda>found. case found of Some v \<Rightarrow> bulk_response v | None \<Rightarrow> Null" and tag = Found])
       (simp_all add: bulk_response_def split: option.splits)
  with Get assms show ?thesis by auto
qed (use assms in \<open>auto simp: response_defs intro!: after_op_reply proper_ops\<close>)

section \<open>Programs of commands\<close>

text \<open>
  Commands run one after another, at their clocks: the replies and what is left. \<open>reference\<close> is the
  same run on one \<open>Database\<close>; it covers the commands whose reply depends only on the stored keys.
\<close>

fun run_commands ::
  "hasher \<Rightarrow> layout \<Rightarrow> json \<Rightarrow> (clock \<times> command) list \<Rightarrow> sharded \<Rightarrow> server_stats \<Rightarrow>
    (kv_error, resp_value) result list \<times> sharded \<times> server_stats" where
  "run_commands h ly json [] sd st = ([], sd, st)"
| "run_commands h ly json ((c, cmd) # rest) sd st =
     (let (reply, sd, st) = execute_command h ly json c cmd sd st;
          (replies, sd, st) = run_commands h ly json rest sd st
      in (reply # replies, sd, st))"

fun reference_command :: "clock \<Rightarrow> command \<Rightarrow> database \<Rightarrow> (kv_error, resp_value) result \<times> database" where
  "reference_command c cmd db =
     (case store_call_of cmd of
        Some call \<Rightarrow> (let (answer, db) = db_call c call db in (reply_value answer, db))
      | None \<Rightarrow>
          (case cmd of
             Unknown name \<Rightarrow> (Ok (Error (''ERR unknown command '' @ [CHR 0x27] @ name @ [CHR 0x27])), db)
           | _ \<Rightarrow> (Ok (SimpleString ''PONG''), db)))"

fun reference_run :: "(clock \<times> command) list \<Rightarrow> database \<Rightarrow> (kv_error, resp_value) result list" where
  "reference_run [] db = []"
| "reference_run ((c, cmd) # rest) db =
     (let (reply, db) = reference_command c cmd db in reply # reference_run rest db)"

fun in_time :: "instant \<Rightarrow> (clock \<times> command) list \<Rightarrow> bool" where
  "in_time t [] \<longleftrightarrow> True"
| "in_time t ((c, cmd) # rest) \<longleftrightarrow> since t c \<and> monotonic c \<and> cmd \<noteq> Info \<and> in_time (op_at c) rest"

lemma alike_mono: "both.alike h t sd db \<Longrightarrow> t \<le> t' \<Longrightarrow> both.alike h t' sd db"
  unfolding both.alike_def agree_def using agreeD [unfolded agree_def, of t _ _ t'] by blast

lemma execute_alike:
  assumes "both.alike h t sd db" "since t c" "monotonic c" "cmd \<noteq> Info"
  shows "fst (execute_command h ly json c cmd sd st) = fst (reference_command c cmd db)"
    and "both.alike h (op_at c) (fst (snd (execute_command h ly json c cmd sd st)))
      (snd (reference_command c cmd db))"
proof -
  have later: "both.alike h (op_at c) sd db"
    by (rule alike_mono [OF assms(1) sinceD(3) [OF assms(2)]])
  consider call where "store_call_of cmd = Some call" | "cmd = Ping" | name where "cmd = Unknown name"
    using assms(4) by (cases cmd) auto
  then have "fst (execute_command h ly json c cmd sd st) = fst (reference_command c cmd db) \<and>
    both.alike h (op_at c) (fst (snd (execute_command h ly json c cmd sd st))) (snd (reference_command c cmd db))"
  proof cases
    case (1 call)
    then show ?thesis
      using call_alike [OF assms(1-3), of call] assms(4)
      by (simp add: execute_command_def run_command_reply run_command_store case_prod_beta)
  qed (use later in \<open>simp_all add: execute_command_def response_defs\<close>)
  then show "fst (execute_command h ly json c cmd sd st) = fst (reference_command c cmd db)"
    "both.alike h (op_at c) (fst (snd (execute_command h ly json c cmd sd st))) (snd (reference_command c cmd db))"
    by simp_all
qed

lemma run_commands_alike:
  "both.alike h t sd db \<Longrightarrow> in_time t prog \<Longrightarrow>
     fst (run_commands h ly json prog sd st) = reference_run prog db"
proof (induction prog arbitrary: t sd db st)
  case (Cons step prog)
  obtain c cmd where step: "step = (c, cmd)" by (cases step)
  with Cons.prems(2) have c: "since t c" "monotonic c" "cmd \<noteq> Info" "in_time (op_at c) prog" by simp_all
  note now = execute_alike [OF Cons.prems(1) c(1-3), of ly json st]
  show ?case
    using Cons.IH [OF now(2) c(4)] now(1) by (simp add: step case_prod_beta del: reference_command.simps)
qed simp

text \<open>
  C3: For every chronological sequence of commands (\<open>INFO\<close> apart) the server's executor, on any
  number of shards and with any hash function, sends exactly the replies of the reference
  interpreter on a single database, error texts and panics included.
\<close>

theorem executor_refines_reference:
  assumes "in_time t prog"
  shows "fst (run_commands h ly json prog (sharded_new n) st) = reference_run prog db_new"
  by (rule run_commands_alike [OF new_alike assms])

definition sample_layout :: layout where
  "sample_layout = \<lparr>size_of_string = 24, size_of_entry = 40\<rparr>"

definition sample_json :: json where
  "sample_json snap = Ok (''keys='' @ show_nat (unat (snapshot_key_count snap)))"

theorem executor_refines_reference_witness:
  "fst (run_commands length sample_layout sample_json
      [(clock_at 1 None 9, Set ''a'' ''1'' (Some 3)), (clock_at 2 None 9, Del [''a'', ''b'']),
       (clock_at 3 None 9, Set ''a'' ''2'' (Some 100)), (clock_at 3 None 9, Get ''a'')] (sharded_new 2) (stats_new 0)) =
   [Ok (SimpleString ''OK''), Ok (Integer 1), Panic, Ok Null]"
proof -
  let ?prog = "[(clock_at 1 None 9, Set ''a'' ''1'' (Some 3)), (clock_at 2 None 9, Del [''a'', ''b'']),
       (clock_at 3 None 9, Set ''a'' ''2'' (Some 100)), (clock_at 3 None 9, Get ''a'')]"
  have "in_time 0 ?prog" by (simp add: since_def)
  moreover have "reference_run ?prog db_new = [Ok (SimpleString ''OK''), Ok (Integer 1), Panic, Ok Null]"
    by code_simp
  ultimately show ?thesis by (simp only: executor_refines_reference)
qed

section \<open>Replies on the wire\<close>



lemma crlf_free_Cons: "c \<noteq> CR \<Longrightarrow> crlf_free (c # xs) = crlf_free xs"
  by (cases xs) auto

lemma crlf_free_prefix: "CR \<notin> set xs \<Longrightarrow> crlf_free (xs @ ys) = crlf_free ys"
  by (induction xs) (auto simp: crlf_free_Cons)


lemma utf8_ascii_Cons: "code c < 0x80 \<Longrightarrow> utf8 (c # xs) = utf8 xs"
  by (simp add: utf8_tail.simps)







section \<open>Statistics\<close>











end
