(* ===== verification/File_System.thy ===== *)
theory File_System
  imports Kv_Error
begin

text \<open>
  What the server uses of \<open>tokio::fs\<close>: files by path, with calls that may fail. The faults of a run
  are part of the state: each call consumes one entry of the list, \<open>None\<close> meaning that the operating
  system grants it. A call that fails returns its error; a call during which the process is killed
  returns \<open>Panic\<close>, and nothing after it runs. Either way a write may have put part of its bytes out.
  A path is what \<open>std::path\<close> splits it into: everything before the file name, and the file name, if
  it has one.
\<close>

record path =
  path_dir :: bytes
  path_name :: "bytes option"

datatype fault = Fails io_error | Killed

record disk =
  files :: "path \<Rightarrow> bytes option"
  faults :: "(fault \<times> nat) option list"

type_synonym 'a io = "disk \<Rightarrow> (io_error, 'a) result \<times> disk"

definition io_return :: "'a \<Rightarrow> 'a io" where
  "io_return x = (\<lambda>d. (Ok x, d))"

definition io_fail :: "io_error \<Rightarrow> 'a io" where
  "io_fail e = (\<lambda>d. (Err e, d))"

text \<open>\<open>.await?\<close>: go on with the value, or return the error; \<open>io_try\<close> hands the error over instead.\<close>

definition io_then :: "'a io \<Rightarrow> ('a \<Rightarrow> 'b io) \<Rightarrow> 'b io" where
  "io_then m f = (\<lambda>d. case m d of (Ok x, d') \<Rightarrow> f x d' | (Err e, d') \<Rightarrow> (Err e, d') | (Panic, d') \<Rightarrow> (Panic, d'))"

definition io_try :: "'a io \<Rightarrow> ((io_error, 'a) result \<Rightarrow> 'b io) \<Rightarrow> 'b io" where
  "io_try m f = (\<lambda>d. case m d of (Panic, d') \<Rightarrow> (Panic, d') | (res, d') \<Rightarrow> f res d')"

text \<open>One call: \<open>partly n\<close> is what a failing call may still have done, \<open>fully\<close> what a granted one does.\<close>

definition io_call :: "(nat \<Rightarrow> disk \<Rightarrow> disk) \<Rightarrow> 'a io \<Rightarrow> 'a io" where
  "io_call partly fully d =
     (case faults d of
        [] \<Rightarrow> fully d
      | None # fs \<Rightarrow> fully (d\<lparr>faults := fs\<rparr>)
      | Some (f, n) # fs \<Rightarrow>
          (case f of Fails e \<Rightarrow> (Err e, partly n (d\<lparr>faults := fs\<rparr>)) | Killed \<Rightarrow> (Panic, partly n (d\<lparr>faults := fs\<rparr>))))"

definition no_such_file :: io_error where
  "no_such_file = IoError NotFound ''No such file or directory (os error 2)''"

definition set_file :: "path \<Rightarrow> bytes option \<Rightarrow> disk \<Rightarrow> disk" where
  "set_file p content d = d\<lparr>files := (files d)(p := content)\<rparr>"

definition append_bytes :: "path \<Rightarrow> bytes \<Rightarrow> disk \<Rightarrow> disk" where
  "append_bytes p bs d = (case files d p of None \<Rightarrow> d | Some old \<Rightarrow> set_file p (Some (old @ bs)) d)"

text \<open>Opening for append creates a missing file; opening for truncation empties or creates it.\<close>

definition open_append :: "path \<Rightarrow> unit io" where
  "open_append p = io_call (\<lambda>_ d. d)
     (\<lambda>d. (Ok (), case files d p of None \<Rightarrow> set_file p (Some []) d | Some _ \<Rightarrow> d))"

definition open_truncate :: "path \<Rightarrow> unit io" where
  "open_truncate p = io_call (\<lambda>_ d. d) (\<lambda>d. (Ok (), set_file p (Some []) d))"

definition open_read :: "path \<Rightarrow> unit io" where
  "open_read p = io_call (\<lambda>_ d. d) (\<lambda>d. (case files d p of None \<Rightarrow> Err no_such_file | Some _ \<Rightarrow> Ok (), d))"

definition read_to_end :: "path \<Rightarrow> bytes io" where
  "read_to_end p = io_call (\<lambda>_ d. d) (\<lambda>d. (Ok (case files d p of None \<Rightarrow> [] | Some bs \<Rightarrow> bs), d))"

definition write_all :: "path \<Rightarrow> bytes \<Rightarrow> unit io" where
  "write_all p bs = io_call (\<lambda>n. append_bytes p (take n bs)) (\<lambda>d. (Ok (), append_bytes p bs d))"

definition flush_file :: "path \<Rightarrow> unit io" where
  "flush_file p = io_call (\<lambda>_ d. d) (\<lambda>d. (Ok (), d))"

definition sync_all :: "path \<Rightarrow> unit io" where
  "sync_all p = io_call (\<lambda>_ d. d) (\<lambda>d. (Ok (), d))"

definition remove_file :: "path \<Rightarrow> unit io" where
  "remove_file p = io_call (\<lambda>_ d. d)
     (\<lambda>d. case files d p of None \<Rightarrow> (Err no_such_file, d) | Some _ \<Rightarrow> (Ok (), set_file p None d))"

definition rename_file :: "path \<Rightarrow> path \<Rightarrow> unit io" where
  "rename_file old new = io_call (\<lambda>_ d. d)
     (\<lambda>d. case files d old of None \<Rightarrow> (Err no_such_file, d)
          | Some bs \<Rightarrow> (Ok (), set_file new (Some bs) (set_file old None d)))"

definition file_metadata_len :: "path \<Rightarrow> nat io" where
  "file_metadata_len p = io_call (\<lambda>_ d. d)
     (\<lambda>d. (case files d p of None \<Rightarrow> Err no_such_file | Some bs \<Rightarrow> Ok (length bs), d))"

definition with_file_name :: "path \<Rightarrow> bytes \<Rightarrow> path" where
  "with_file_name p name = p\<lparr>path_name := Some name\<rparr>"

named_theorems io_defs \<open>the calls of the file system, unfolded\<close>

declare io_return_def [io_defs] io_fail_def [io_defs] io_then_def [io_defs] io_try_def [io_defs]
  io_call_def [io_defs] open_append_def [io_defs] open_truncate_def [io_defs] open_read_def [io_defs]
  read_to_end_def [io_defs] write_all_def [io_defs] flush_file_def [io_defs] sync_all_def [io_defs]
  remove_file_def [io_defs] rename_file_def [io_defs] file_metadata_len_def [io_defs]

lemma set_file_simps [simp]:
  "files (set_file p x d) = (files d)(p := x)" "faults (set_file p x d) = faults d"
  by (simp_all add: set_file_def)

lemma append_bytes_simps [simp]:
  "faults (append_bytes p bs d) = faults d"
  "files d p = Some old \<Longrightarrow> files (append_bytes p bs d) = (files d)(p := Some (old @ bs))"
  by (simp_all add: append_bytes_def split: option.split)

end
