(* ===== verification/Aof.thy ===== *)
theory Aof
  imports Executor File_System
begin

text \<open>
  \<open>rustkv-server/src/aof.rs\<close>: the append-only file. Writing commands in their absolute form, replaying
  a log into a fresh store, and rewriting the log from a snapshot through a temporary file and two
  renames. An open \<open>File\<close> is the path it was opened at; the code never renames that path while it
  holds the file open.
\<close>

record aof_engine =
  aof_path :: path
  aof_file :: "path option"

section \<open>Log records\<close>

definition expire_at_ms_from_now :: "clock \<Rightarrow> duration \<Rightarrow> nat" where
  "expire_at_ms_from_now c d =
     (let now_ms = (case unix_at c of None \<Rightarrow> 0 | Some now \<Rightarrow> as_millis now);
          target_ms = now_ms + as_millis d
      in min target_ms u64_max)"

definition encode_args :: "bytes list \<Rightarrow> bytes" where
  "encode_args args = encode_resp (Array (map BulkString args))"

fun command_args :: "clock \<Rightarrow> command \<Rightarrow> bytes list option" where
  "command_args c (Set k v e) =
     Some ([''SET'', k, v] @
       (case e of None \<Rightarrow> [] | Some d \<Rightarrow> [''PXAT'', show_nat (expire_at_ms_from_now c d)]))"
| "command_args c (SetPxAt k v ms) = Some [''SET'', k, v, ''PXAT'', show_nat ms]"
| "command_args c (Del ks) = Some (''DEL'' # ks)"
| "command_args c (Expire k s) = Some [''EXPIREAT'', k, show_nat (expire_at_ms_from_now c (from_secs s))]"
| "command_args c (ExpireAt k ms) = Some [''EXPIREAT'', k, show_nat ms]"
| "command_args c FlushDb = Some [''FLUSHDB'']"
| "command_args c _ = None"

definition command_to_resp_bytes :: "clock \<Rightarrow> command \<Rightarrow> bytes option" where
  "command_to_resp_bytes c cmd = map_option encode_args (command_args c cmd)"

text \<open>The \<open>expect\<close> cannot fail: both commands have a log form, whatever the clock says.\<close>

definition snapshot_command :: "db_snapshot_entry \<Rightarrow> command" where
  "snapshot_command e =
     (case snap_expire_at_ms e of
        Some ms \<Rightarrow> SetPxAt (snap_key e) (snap_value e) ms
      | None \<Rightarrow> Set (snap_key e) (snap_value e) None)"

definition snapshot_entry_to_resp_bytes :: "clock \<Rightarrow> db_snapshot_entry \<Rightarrow> bytes" where
  "snapshot_entry_to_resp_bytes c e = the (command_to_resp_bytes c (snapshot_command e))"

section \<open>The engine\<close>

definition aof_new :: "path \<Rightarrow> aof_engine io" where
  "aof_new p = io_then (open_append p) (\<lambda>_. io_return \<lparr>aof_path = p, aof_file = Some p\<rparr>)"

definition file_mut :: "aof_engine \<Rightarrow> path io" where
  "file_mut eng =
     (case aof_file eng of
        Some file \<Rightarrow> io_return file
      | None \<Rightarrow> io_fail (IoError OtherKind ''AOF file is temporarily closed''))"

definition aof_append :: "clock \<Rightarrow> command \<Rightarrow> aof_engine \<Rightarrow> unit io" where
  "aof_append c cmd eng =
     (case command_to_resp_bytes c cmd of
        None \<Rightarrow> io_return ()
      | Some bytes \<Rightarrow>
          io_then (file_mut eng) (\<lambda>file.
          io_then (write_all file bytes) (\<lambda>_. sync_all file)))"

definition aof_flush :: "aof_engine \<Rightarrow> unit io" where
  "aof_flush eng =
     io_then (file_mut eng) (\<lambda>file. io_then (flush_file file) (\<lambda>_. sync_all file))"

definition aof_file_size :: "aof_engine \<Rightarrow> nat io" where
  "aof_file_size eng =
     io_try (file_metadata_len (aof_path eng)) (\<lambda>res.
       case res of
         Ok n \<Rightarrow> io_return n
       | Err e \<Rightarrow> if io_kind e = NotFound then io_return 0 else io_fail e
       | Panic \<Rightarrow> (\<lambda>d. (Panic, d)))"

definition rewrite_path :: "bytes \<Rightarrow> path \<Rightarrow> path" where
  "rewrite_path suffix p =
     with_file_name p ((case path_name p of Some name \<Rightarrow> name | None \<Rightarrow> ''rustkv.aof'') @ suffix)"

definition rewrite_temp_path :: "path \<Rightarrow> path" where
  "rewrite_temp_path p = rewrite_path ''.rewrite'' p"

definition rewrite_backup_path :: "path \<Rightarrow> path" where
  "rewrite_backup_path p = rewrite_path ''.bak'' p"

definition remove_file_if_exists :: "path \<Rightarrow> unit io" where
  "remove_file_if_exists p =
     io_try (remove_file p) (\<lambda>res.
       case res of
         Ok _ \<Rightarrow> io_return ()
       | Err e \<Rightarrow> if io_kind e = NotFound then io_return () else io_fail e
       | Panic \<Rightarrow> (\<lambda>d. (Panic, d)))"

definition rename_file_if_exists :: "path \<Rightarrow> path \<Rightarrow> bool io" where
  "rename_file_if_exists old new =
     io_try (rename_file old new) (\<lambda>res.
       case res of
         Ok _ \<Rightarrow> io_return True
       | Err e \<Rightarrow> if io_kind e = NotFound then io_return False else io_fail e
       | Panic \<Rightarrow> (\<lambda>d. (Panic, d)))"

fun write_entries :: "clock \<Rightarrow> path \<Rightarrow> db_snapshot_entry list \<Rightarrow> unit io" where
  "write_entries c p [] = io_return ()"
| "write_entries c p (e # es) =
     io_then (write_all p (snapshot_entry_to_resp_bytes c e)) (\<lambda>_. write_entries c p es)"

definition write_rewrite_file :: "clock \<Rightarrow> path \<Rightarrow> db_snapshot \<Rightarrow> unit io" where
  "write_rewrite_file c p snap =
     io_then (open_truncate p) (\<lambda>_.
     io_then (write_entries c p (snap_entries snap)) (\<lambda>_.
     io_then (flush_file p) (\<lambda>_. sync_all p)))"

text \<open>When the second rename fails, the backup is moved back; whether that works is ignored.\<close>

definition replace_aof_file :: "path \<Rightarrow> path \<Rightarrow> path \<Rightarrow> unit io" where
  "replace_aof_file p temp_path backup_path =
     io_then (remove_file_if_exists backup_path) (\<lambda>_.
     io_then (rename_file_if_exists p backup_path) (\<lambda>original_backed_up.
     io_try (rename_file temp_path p) (\<lambda>res.
       case res of
         Ok _ \<Rightarrow> if original_backed_up then remove_file_if_exists backup_path else io_return ()
       | Err e \<Rightarrow>
           if original_backed_up then io_try (rename_file backup_path p) (\<lambda>_. io_fail e) else io_fail e
       | Panic \<Rightarrow> (\<lambda>d. (Panic, d)))))"

text \<open>The steps of a rewrite before the live file is touched.\<close>

definition rewrite_prepare :: "clock \<Rightarrow> db_snapshot \<Rightarrow> aof_engine \<Rightarrow> unit io" where
  "rewrite_prepare c snap eng =
     io_then (remove_file_if_exists (rewrite_temp_path (aof_path eng))) (\<lambda>_.
     io_then (write_rewrite_file c (rewrite_temp_path (aof_path eng)) snap) (\<lambda>_. aof_flush eng))"

text \<open>The engine that remains, and the result; the file stays closed when it cannot be reopened.\<close>

definition aof_rewrite :: "clock \<Rightarrow> db_snapshot \<Rightarrow> aof_engine \<Rightarrow> disk \<Rightarrow> ((io_error, unit) result \<times> aof_engine) \<times> disk" where
  "aof_rewrite c snap eng d =
     (let temp_path = rewrite_temp_path (aof_path eng);
          backup_path = rewrite_backup_path (aof_path eng);
          (prepared, d) = rewrite_prepare c snap eng d
      in case prepared of
           Err e \<Rightarrow> ((Err e, eng), d)
         | Panic \<Rightarrow> ((Panic, eng), d)
         | Ok _ \<Rightarrow>
             (let eng = eng\<lparr>aof_file := None\<rparr>;
                  (replace_result, d) = replace_aof_file (aof_path eng) temp_path backup_path d
              in if replace_result = Panic then ((Panic, eng), d)
                 else let (reopen_result, d) = open_append (aof_path eng) d
                      in case reopen_result of
                           Ok _ \<Rightarrow> ((replace_result, eng\<lparr>aof_file := Some (aof_path eng)\<rparr>), d)
                         | Err e \<Rightarrow>
                             ((case replace_result of Err e' \<Rightarrow> Err e' | _ \<Rightarrow> Err e, eng), d)
                         | Panic \<Rightarrow> ((Panic, eng), d)))"

section \<open>Replay\<close>

definition command_replay_error :: "kv_error \<Rightarrow> io_error" where
  "command_replay_error e = IoError InvalidData (show_kv_error e)"

definition replayed :: "('a db_outcome, sharded) op \<Rightarrow> (io_error, unit) result \<times> sharded" where
  "replayed r = (map_ok (\<lambda>_. ()) (map_err command_replay_error (fst (flat r))), snd r)"

fun replay_command :: "hasher \<Rightarrow> clock \<Rightarrow> command \<Rightarrow> sharded \<Rightarrow> (io_error, unit) result \<times> sharded" where
  "replay_command h c (Set k v e) sd = replayed (sharded_set h c k v e sd)"
| "replay_command h c (SetPxAt k v ms) sd = replayed (sharded_set_at_ms h c k v ms sd)"
| "replay_command h c (Del ks) sd = replayed (sharded_del h c ks sd)"
| "replay_command h c (Expire k s) sd = replayed (sharded_expire h c k s sd)"
| "replay_command h c (ExpireAt k ms) sd = replayed (sharded_expire_at_ms h c k ms sd)"
| "replay_command h c FlushDb sd = replayed (sharded_flushdb sd)"
| "replay_command h c _ sd = (Ok (), sd)"

definition parse_failure :: "protocol_error \<Rightarrow> io_error" where
  "parse_failure e = IoError InvalidData (''failed to parse AOF RESP command: '' @ show_protocol_error e)"

definition decode_failure :: "kv_error \<Rightarrow> io_error" where
  "decode_failure e = IoError InvalidData (''failed to decode AOF command: '' @ show_kv_error e)"

text \<open>The loop over the file: command number \<open>i\<close> is replayed at the clock \<open>clk i\<close>.\<close>

function replay_loop ::
  "limits \<Rightarrow> hasher \<Rightarrow> (nat \<Rightarrow> clock) \<Rightarrow> bytes \<Rightarrow> nat \<Rightarrow> nat \<Rightarrow> sharded \<Rightarrow> (io_error, unit) result \<times> sharded" where
  "replay_loop lim h clk bytes i offset sd =
     (if offset < length bytes
      then case parse_resp lim (drop offset bytes) of
             Err e \<Rightarrow> (Err (parse_failure e), sd)
           | Panic \<Rightarrow> (Panic, sd)
           | Ok (resp, consumed) \<Rightarrow>
               (case from_resp resp of
                  Err e \<Rightarrow> (Err (decode_failure e), sd)
                | Panic \<Rightarrow> (Panic, sd)
                | Ok cmd \<Rightarrow>
                    (case replay_command h (clk i) cmd sd of
                       (Ok _, sd') \<Rightarrow> replay_loop lim h clk bytes (Suc i) (offset + consumed) sd'
                     | (Err e, sd') \<Rightarrow> (Err e, sd')
                     | (Panic, sd') \<Rightarrow> (Panic, sd')))
      else (Ok (), sd))"
  by pat_completeness auto
termination
  by (relation "measure (\<lambda>(lim, h, clk, bytes, i, offset, sd). length bytes - offset)")
     (auto dest!: resp.consumes)

definition load_and_replay ::
  "limits \<Rightarrow> hasher \<Rightarrow> (nat \<Rightarrow> clock) \<Rightarrow> path \<Rightarrow> disk \<Rightarrow> sharded \<Rightarrow> ((io_error, unit) result \<times> sharded) \<times> disk" where
  "load_and_replay lim h clk p d sd =
     (case open_read p d of
        (Err e, d) \<Rightarrow> ((if io_kind e = NotFound then Ok () else Err e, sd), d)
      | (Panic, d) \<Rightarrow> ((Panic, sd), d)
      | (Ok _, d) \<Rightarrow>
          (case read_to_end p d of
             (Err e, d) \<Rightarrow> ((Err e, sd), d)
           | (Panic, d) \<Rightarrow> ((Panic, sd), d)
           | (Ok bytes, d) \<Rightarrow> (replay_loop lim h clk bytes 0 0 sd, d)))"

declare replay_loop.simps [simp del]

section \<open>Records read back\<close>

text \<open>What a logged command means: relative expiries have become absolute.\<close>

fun logged :: "clock \<Rightarrow> command \<Rightarrow> command" where
  "logged c (Set k v (Some d)) = SetPxAt k v (expire_at_ms_from_now c d)"
| "logged c (Expire k s) = ExpireAt k (expire_at_ms_from_now c (from_secs s))"
| "logged c cmd = cmd"

lemma expire_at_ms_from_now_u64: "expire_at_ms_from_now c d \<le> u64_max"
  by (simp add: expire_at_ms_from_now_def Let_def)

lemma upper_names:
  "to_ascii_uppercase ''SET'' = ''SET''" "to_ascii_uppercase ''DEL'' = ''DEL''"
  "to_ascii_uppercase ''EXPIREAT'' = ''EXPIREAT''" "to_ascii_uppercase ''FLUSHDB'' = ''FLUSHDB''"
  "to_ascii_uppercase ''PXAT'' = ''PXAT''"
  by code_simp+

lemma command_parser_names:
  "command_parser ''SET'' = Some parse_set" "command_parser ''DEL'' = Some parse_del"
  "command_parser ''EXPIREAT'' = Some parse_expire_at" "command_parser ''FLUSHDB'' = Some parse_flushdb"
  by (simp_all add: command_parser_def)

lemma command_of_names:
  "command_of_args (''SET'' # args) = parse_set (''SET'' # args)"
  "command_of_args (''DEL'' # args) = parse_del (''DEL'' # args)"
  "command_of_args (''EXPIREAT'' # args) = parse_expire_at (''EXPIREAT'' # args)"
  "command_of_args (''FLUSHDB'' # args) = parse_flushdb (''FLUSHDB'' # args)"
  by (rule command_of_args_known, simp add: upper_names command_parser_names)+

lemma utf8_PXAT: "utf8 ''PXAT''"
  by code_simp

lemma set_args_back:
  "utf8 k \<Longrightarrow> command_of_args [''SET'', k, v] = Ok (Set k v None)"
  "utf8 k \<Longrightarrow> ms \<le> u64_max \<Longrightarrow> command_of_args [''SET'', k, v, ''PXAT'', show_nat ms] = Ok (SetPxAt k v ms)"
  by (simp_all add: command_of_names parse_set_def Let_def arg_to_str_def arg_to_owned_string_def
      parse_u64_arg_def from_utf8_def parse_u64_show_nat upper_names utf8_PXAT del: utf8.simps(2))

lemma expire_at_args_back:
  "utf8 k \<Longrightarrow> ms \<le> u64_max \<Longrightarrow> command_of_args [''EXPIREAT'', k, show_nat ms] = Ok (ExpireAt k ms)"
  by (simp add: command_of_names parse_expire_at_def expect_arity_def arg_to_str_def arg_to_owned_string_def
      parse_u64_arg_def from_utf8_def parse_u64_show_nat)

lemma del_args_back:
  assumes "ks \<noteq> []" "list_all utf8 ks"
  shows "command_of_args (''DEL'' # ks) = Ok (Del ks)"
proof -
  have "collect_results (\<lambda>arg. arg_to_owned_string arg ''DEL key'') ks = Ok ks"
    using assms(2) by (simp only: collect_strings_Ok simp_thms)
  moreover have "\<not> length (''DEL'' # ks) < 2" using assms(1) by (cases ks) auto
  ultimately show ?thesis by (simp add: command_of_names parse_del_def)
qed

lemma flushdb_args_back: "command_of_args [''FLUSHDB''] = Ok FlushDb"
  by (simp add: command_of_names parse_flushdb_def expect_arity_def)

lemma command_args_back:
  assumes "command_wf cmd" "command_args c cmd = Some args"
  shows "command_of_args args = Ok (logged c cmd)"
proof (cases cmd)
  case (Set k v e)
  with assms show ?thesis
    by (cases e) (auto simp: set_args_back expire_at_ms_from_now_u64)
qed (use assms in \<open>auto simp: set_args_back expire_at_args_back del_args_back flushdb_args_back
      expire_at_ms_from_now_u64\<close>)

text \<open>A record fits when the parser's resources suffice for it.\<close>

definition record_fits :: "limits \<Rightarrow> clock \<Rightarrow> command \<Rightarrow> bool" where
  "record_fits lim c cmd \<longleftrightarrow>
     (case command_args c cmd of None \<Rightarrow> False | Some args \<Rightarrow> encodable lim (Array (map BulkString args)))"

lemma record_parses:
  assumes "record_fits lim c cmd" "command_wf cmd" "command_to_resp_bytes c cmd = Some bs"
  obtains f where "parse_resp lim (bs @ rest) = Ok (f, length bs)" "from_resp f = Ok (logged c cmd)"
    "\<And>m. m < length bs \<Longrightarrow> parse_resp lim (take m bs) = Err Incomplete"
    "0 < length bs"
proof -
  obtain args where args: "command_args c cmd = Some args"
    and bs: "bs = encode_resp (Array (map BulkString args))"
    using assms(3) by (auto simp: command_to_resp_bytes_def encode_args_def)
  have enc: "encodable lim (Array (map BulkString args))"
    using assms(1) args by (simp add: record_fits_def)
  show ?thesis
  proof (rule that)
    show "parse_resp lim (bs @ rest) = Ok (frame_of (Array (map BulkString args)), length bs)"
      unfolding bs by (rule resp.dec_enc_append [OF enc])
    have "frame_of (Array (map BulkString args)) = FArray (map FBulkString args)" by simp
    then show "from_resp (frame_of (Array (map BulkString args))) = Ok (logged c cmd)"
      using command_args_back [OF assms(2) args] by (simp only: from_resp_bulk_array)
    show "parse_resp lim (take m bs) = Err Incomplete" if "m < length bs" for m
      using resp.enc_prefix_incomplete [OF enc] that unfolding bs by blast
    show "0 < length bs"
      using resp.enc_nonempty [OF enc] unfolding bs by simp
  qed
qed

section \<open>Replaying a log\<close>

text \<open>The bytes a sequence of logged commands leaves, and the effect of replaying them in order.\<close>

definition record_bytes :: "clock \<times> command \<Rightarrow> bytes" where
  "record_bytes r = (case r of (c, cmd) \<Rightarrow> (case command_to_resp_bytes c cmd of None \<Rightarrow> [] | Some bs \<Rightarrow> bs))"

definition log_bytes :: "(clock \<times> command) list \<Rightarrow> bytes" where
  "log_bytes rs = concat (map record_bytes rs)"

definition loggable :: "limits \<Rightarrow> clock \<times> command \<Rightarrow> bool" where
  "loggable lim r = (case r of (c, cmd) \<Rightarrow> command_wf cmd \<and> record_fits lim c cmd)"

fun replay_all ::
  "hasher \<Rightarrow> (nat \<Rightarrow> clock) \<Rightarrow> nat \<Rightarrow> command list \<Rightarrow> sharded \<Rightarrow> (io_error, unit) result \<times> sharded" where
  "replay_all h clk i [] sd = (Ok (), sd)"
| "replay_all h clk i (cmd # cmds) sd =
     (case replay_command h (clk i) cmd sd of
        (Ok _, sd') \<Rightarrow> replay_all h clk (Suc i) cmds sd'
      | (Err e, sd') \<Rightarrow> (Err e, sd')
      | (Panic, sd') \<Rightarrow> (Panic, sd'))"

lemma replay_loop_end: "length bs \<le> offset \<Longrightarrow> replay_loop lim h clk bs i offset sd = (Ok (), sd)"
  by (simp add: replay_loop.simps)

lemma replay_loop_log:
  assumes "list_all (loggable lim) rs" "bs = pre @ log_bytes rs @ rest"
  shows "replay_loop lim h clk bs i (length pre) sd =
    (case replay_all h clk i (map (\<lambda>(c, cmd). logged c cmd) rs) sd of
       (Ok _, sd') \<Rightarrow> replay_loop lim h clk bs (i + length rs) (length pre + length (log_bytes rs)) sd'
     | (Err e, sd') \<Rightarrow> (Err e, sd')
     | (Panic, sd') \<Rightarrow> (Panic, sd'))"
  using assms
proof (induction rs arbitrary: i pre sd)
  case Nil
  then show ?case by (simp add: log_bytes_def)
next
  case (Cons r rs)
  obtain c cmd where r: "r = (c, cmd)" by (cases r)
  from Cons.prems(1) r have fits: "record_fits lim c cmd" and wf: "command_wf cmd"
    and rs: "list_all (loggable lim) rs"
    by (auto simp: loggable_def [of lim "(c, cmd)"])
  obtain b where b: "command_to_resp_bytes c cmd = Some b"
    using fits by (auto simp: record_fits_def command_to_resp_bytes_def split: option.splits)
  have bs: "bs = pre @ b @ log_bytes rs @ rest" "bs = (pre @ b) @ log_bytes rs @ rest"
    using Cons.prems(2) by (simp_all add: r log_bytes_def record_bytes_def b)
  obtain f where f: "parse_resp lim (b @ log_bytes rs @ rest) = Ok (f, length b)"
      "from_resp f = Ok (logged c cmd)" "0 < length b"
    by (rule record_parses [OF fits wf b, of "log_bytes rs @ rest"])
  have "length pre < length bs" "drop (length pre) bs = b @ log_bytes rs @ rest"
    using f(3) by (simp_all add: bs(1))
  then have "replay_loop lim h clk bs i (length pre) sd =
      (case replay_command h (clk i) (logged c cmd) sd of
         (Ok _, sd') \<Rightarrow> replay_loop lim h clk bs (Suc i) (length pre + length b) sd'
       | (Err e, sd') \<Rightarrow> (Err e, sd')
       | (Panic, sd') \<Rightarrow> (Panic, sd'))"
    by (subst replay_loop.simps) (simp add: f)
  then show ?case
    unfolding Cons.IH [OF rs bs(2), unfolded length_append]
    by (simp add: r log_bytes_def record_bytes_def b add.assoc split: prod.split result.split)
qed

lemma load_and_replay_read:
  assumes "faults d = []" "files d p = Some bs"
  shows "load_and_replay lim h clk p d sd = (replay_loop lim h clk bs 0 0 sd, d)"
  using assms by (simp add: load_and_replay_def io_defs)

section \<open>Rewriting\<close>

lemma rewrite_paths_distinct [simp]:
  "rewrite_temp_path p \<noteq> p" "rewrite_backup_path p \<noteq> p" "rewrite_temp_path p \<noteq> rewrite_backup_path p"
  "p \<noteq> rewrite_temp_path p" "p \<noteq> rewrite_backup_path p" "rewrite_backup_path p \<noteq> rewrite_temp_path p"
  by (cases p; auto simp: rewrite_temp_path_def rewrite_backup_path_def rewrite_path_def with_file_name_def
      split: option.splits)+

definition snapshot_bytes :: "clock \<Rightarrow> db_snapshot \<Rightarrow> bytes" where
  "snapshot_bytes c snap = concat (map (snapshot_entry_to_resp_bytes c) (snap_entries snap))"

lemma snapshot_bytes_log:
  "snapshot_bytes c snap = log_bytes (map (\<lambda>e. (c, snapshot_command e)) (snap_entries snap))"
proof -
  have "snapshot_entry_to_resp_bytes c e = record_bytes (c, snapshot_command e)" for e
    by (cases "snap_expire_at_ms e")
       (simp_all add: snapshot_entry_to_resp_bytes_def record_bytes_def command_to_resp_bytes_def
         snapshot_command_def)
  then have "snapshot_entry_to_resp_bytes c = (\<lambda>e. record_bytes (c, snapshot_command e))" by blast
  then show ?thesis by (simp add: snapshot_bytes_def log_bytes_def comp_def)
qed

text \<open>The calls on a disk written out, when the next fault entry grants them.\<close>

definition disk_at :: "(path \<Rightarrow> bytes option) \<Rightarrow> (fault \<times> nat) option list \<Rightarrow> disk" where
  "disk_at F fs = \<lparr>files = F, faults = fs\<rparr>"

lemma disk_at_simps [simp]: "files (disk_at F fs) = F" "faults (disk_at F fs) = fs"
  by (simp_all add: disk_at_def)

lemma disk_at_eq: "d = disk_at (files d) (faults d)"
  by (simp add: disk_at_def)

lemma set_file_at [simp]: "set_file p x (disk_at F fs) = disk_at (F(p := x)) fs"
  by (simp add: disk_at_def set_file_def)

lemma io_call_at [simp]:
  "io_call a b (disk_at F (None # fs)) = b (disk_at F fs)"
  "io_call a b (disk_at F (Some (Fails e, n) # fs)) = (Err e, a n (disk_at F fs))"
  "io_call a b (disk_at F (Some (Killed, n) # fs)) = (Panic, a n (disk_at F fs))"
  by (simp_all add: io_call_def disk_at_def)

lemma io_call_no_faults [simp]: "io_call a b (disk_at F []) = b (disk_at F [])"
  by (simp add: io_call_def disk_at_def)

lemma append_bytes_at [simp]:
  "F p = Some old \<Longrightarrow> append_bytes p bs (disk_at F fs) = disk_at (F(p := Some (old @ bs))) fs"
  by (simp add: append_bytes_def)

lemmas prim_defs = open_append_def open_truncate_def open_read_def read_to_end_def write_all_def flush_file_def
  sync_all_def remove_file_def rename_file_def file_metadata_len_def no_such_file_def

lemmas glue_defs = io_return_def io_fail_def io_then_def io_try_def

text \<open>A disk grants a number of calls: no fault is left, or the next entries say so.\<close>

fun grants :: "nat \<Rightarrow> (fault \<times> nat) option list \<Rightarrow> (fault \<times> nat) option list" where
  "grants 0 fs = fs"
| "grants (Suc n) fs = None # grants n fs"

lemma write_entries_at:
  "F p = Some old \<Longrightarrow> write_entries c p es (disk_at F (grants (length es) fs)) =
     (Ok (), disk_at (F(p := Some (old @ concat (map (snapshot_entry_to_resp_bytes c) es)))) fs)"
proof (induction es arbitrary: F old)
  case Nil
  then show ?case by (simp add: io_return_def fun_upd_idem)
next
  case (Cons e es)
  let ?bs = "snapshot_entry_to_resp_bytes c e"
  have "write_all p ?bs (disk_at F (grants (length (e # es)) fs)) =
      (Ok (), disk_at (F(p := Some (old @ ?bs))) (grants (length es) fs))"
    using Cons.prems by (simp add: write_all_def)
  moreover
  define F' where "F' = F(p := Some (old @ ?bs))"
  have "write_entries c p es (disk_at F' (grants (length es) fs)) =
      (Ok (), disk_at (F'(p := Some ((old @ ?bs) @ concat (map (snapshot_entry_to_resp_bytes c) es)))) fs)"
    by (rule Cons.IH) (simp add: F'_def)
  moreover have "F'(p := x) = F(p := x)" for x by (simp add: F'_def)
  ultimately show ?case by (simp add: io_then_def F'_def [symmetric] del: fun_upd_apply)
qed

lemma remove_file_if_exists_at:
  "remove_file_if_exists p (disk_at F (None # fs)) = (Ok (), disk_at (F(p := None)) fs)"
  by (cases "F p") (simp_all add: remove_file_if_exists_def prim_defs glue_defs fun_upd_idem)

lemma rewrite_prepare_at:
  assumes "aof_file eng = Some (aof_path eng)"
  shows "rewrite_prepare c snap eng
      (disk_at F (None # None # grants (length (snap_entries snap)) (None # None # None # None # fs))) =
    (Ok (), disk_at (F(rewrite_temp_path (aof_path eng) := Some (snapshot_bytes c snap))) fs)"
  using assms
  by (simp add: rewrite_prepare_def remove_file_if_exists_at write_rewrite_file_def write_entries_at
      aof_flush_def file_mut_def glue_defs prim_defs snapshot_bytes_def)

text \<open>The whole rewrite when every call is granted.\<close>

lemma rename_at:
  "F a = Some bs \<Longrightarrow> rename_file a b (disk_at F (None # fs)) = (Ok (), disk_at (F(a := None, b := Some bs)) fs)"
  "F a = Some bs \<Longrightarrow>
     rename_file_if_exists a b (disk_at F (None # fs)) = (Ok True, disk_at (F(a := None, b := Some bs)) fs)"
  by (simp_all add: rename_file_if_exists_def rename_file_def glue_defs)

lemma open_append_at:
  "F p = Some bs \<Longrightarrow> open_append p (disk_at F (None # fs)) = (Ok (), disk_at F fs)"
  by (simp add: open_append_def)

lemma replace_aof_file_at:
  assumes "F p = Some old" "F t = Some new" "t \<noteq> p" "b \<noteq> p" "t \<noteq> b"
  shows "replace_aof_file p t b (disk_at F (None # None # None # None # fs)) =
    (Ok (), disk_at (F(p := Some new, t := None, b := None)) fs)"
proof -
  let ?F1 = "F(b := None)"
  let ?F2 = "?F1(p := None, b := Some old)"
  let ?F3 = "?F2(t := None, p := Some new)"
  have "rename_file_if_exists p b (disk_at ?F1 (None # None # None # fs)) = (Ok True, disk_at ?F2 (None # None # fs))"
    "rename_file t p (disk_at ?F2 (None # None # fs)) = (Ok (), disk_at ?F3 (None # fs))"
    using assms by (simp_all add: rename_at)
  moreover have "?F3(b := None) = F(p := Some new, t := None, b := None)"
    using assms(3-5) by (auto simp: fun_eq_iff)
  ultimately show ?thesis
    by (simp add: replace_aof_file_def io_then_def io_try_def remove_file_if_exists_at del: fun_upd_apply)
qed

definition rewrite_grants :: "db_snapshot \<Rightarrow> nat \<Rightarrow> (fault \<times> nat) option list \<Rightarrow> (fault \<times> nat) option list" where
  "rewrite_grants snap n fs =
     None # None # grants (length (snap_entries snap)) (None # None # None # None # grants n fs)"

lemma aof_rewrite_at:
  assumes "aof_file eng = Some (aof_path eng)" "F (aof_path eng) = Some old"
  shows "aof_rewrite c snap eng (disk_at F (rewrite_grants snap 5 fs)) =
    ((Ok (), eng), disk_at (F(aof_path eng := Some (snapshot_bytes c snap),
       rewrite_temp_path (aof_path eng) := None, rewrite_backup_path (aof_path eng) := None)) fs)"
proof -
  let ?p = "aof_path eng" and ?t = "rewrite_temp_path (aof_path eng)" and ?b = "rewrite_backup_path (aof_path eng)"
  let ?new = "snapshot_bytes c snap"
  let ?F1 = "F(?t := Some ?new)"
  have prep: "rewrite_prepare c snap eng (disk_at F (rewrite_grants snap 5 fs)) =
      (Ok (), disk_at ?F1 (grants 5 fs))"
    unfolding rewrite_grants_def by (rule rewrite_prepare_at [OF assms(1)])
  have "grants 5 fs = None # None # None # None # None # fs" by (simp add: eval_nat_numeral)
  moreover have "replace_aof_file ?p ?t ?b (disk_at ?F1 (None # None # None # None # None # fs)) =
      (Ok (), disk_at (?F1(?p := Some ?new, ?t := None, ?b := None)) (None # fs))"
    by (rule replace_aof_file_at [where old = old]) (use assms(2) in auto)
  moreover have "?F1(?p := Some ?new, ?t := None, ?b := None) = F(?p := Some ?new, ?t := None, ?b := None)"
    by (auto simp: fun_eq_iff)
  moreover have "open_append ?p (disk_at (F(?p := Some ?new, ?t := None, ?b := None)) (None # fs)) =
      (Ok (), disk_at (F(?p := Some ?new, ?t := None, ?b := None)) fs)"
    by (rule open_append_at) simp
  moreover have "eng\<lparr>aof_file := Some ?p\<rparr> = eng" using assms(1) by (cases eng) simp
  ultimately show ?thesis
    using prep by (simp add: aof_rewrite_def Let_def del: fun_upd_apply)
qed

text \<open>The same when no fault is left at all.\<close>

lemma calls_free:
  "remove_file_if_exists p (disk_at F []) = (Ok (), disk_at (F(p := None)) [])"
  "F p = Some bs \<Longrightarrow> rename_file p q (disk_at F []) = (Ok (), disk_at (F(p := None, q := Some bs)) [])"
  "F p = Some bs \<Longrightarrow> rename_file_if_exists p q (disk_at F []) = (Ok True, disk_at (F(p := None, q := Some bs)) [])"
  "F p = Some bs \<Longrightarrow> open_append p (disk_at F []) = (Ok (), disk_at F [])"
  by (cases "F p"; simp add: remove_file_if_exists_def rename_file_if_exists_def prim_defs glue_defs fun_upd_idem)+

lemma write_entries_free:
  "F p = Some old \<Longrightarrow> write_entries c p es (disk_at F []) =
     (Ok (), disk_at (F(p := Some (old @ concat (map (snapshot_entry_to_resp_bytes c) es)))) [])"
proof (induction es arbitrary: F old)
  case Nil
  then show ?case by (simp add: io_return_def fun_upd_idem)
next
  case (Cons e es)
  let ?bs = "snapshot_entry_to_resp_bytes c e"
  have "write_all p ?bs (disk_at F []) = (Ok (), disk_at (F(p := Some (old @ ?bs))) [])"
    using Cons.prems by (simp add: write_all_def)
  moreover have "write_entries c p es (disk_at (F(p := Some (old @ ?bs))) []) = (Ok (), disk_at ((F(p := Some (old @ ?bs)))
      (p := Some ((old @ ?bs) @ concat (map (snapshot_entry_to_resp_bytes c) es)))) [])"
    by (rule Cons.IH) simp
  ultimately show ?case by (simp add: io_then_def del: fun_upd_apply)
qed

lemma aof_rewrite_free:
  assumes "aof_file eng = Some (aof_path eng)" "F (aof_path eng) = Some old"
  shows "aof_rewrite c snap eng (disk_at F []) =
    ((Ok (), eng), disk_at (F(aof_path eng := Some (snapshot_bytes c snap),
       rewrite_temp_path (aof_path eng) := None, rewrite_backup_path (aof_path eng) := None)) [])"
proof -
  let ?p = "aof_path eng" and ?t = "rewrite_temp_path (aof_path eng)" and ?b = "rewrite_backup_path (aof_path eng)"
  let ?new = "snapshot_bytes c snap"
  let ?F1 = "F(?t := Some ?new)"
  let ?F2 = "?F1(?b := None, ?p := None, ?b := Some old)"
  let ?F3 = "?F2(?t := None, ?p := Some ?new, ?b := None)"
  have "rewrite_prepare c snap eng (disk_at F []) = (Ok (), disk_at ?F1 [])"
    using assms(1)
    by (simp add: rewrite_prepare_def calls_free write_rewrite_file_def write_entries_free
        aof_flush_def file_mut_def glue_defs prim_defs snapshot_bytes_def)
  moreover have "rename_file_if_exists ?p ?b (disk_at (?F1(?b := None)) []) = (Ok True, disk_at ?F2 [])"
    "rename_file ?t ?p (disk_at ?F2 []) = (Ok (), disk_at (?F2(?t := None, ?p := Some ?new)) [])"
    "open_append ?p (disk_at ?F3 []) = (Ok (), disk_at ?F3 [])"
    using assms(2) by (simp_all add: calls_free)
  moreover have "?F3 = F(?p := Some ?new, ?t := None, ?b := None)" by (auto simp: fun_eq_iff)
  moreover have "eng\<lparr>aof_file := Some ?p\<rparr> = eng" using assms(1) by (cases eng) simp
  ultimately show ?thesis
    by (simp add: aof_rewrite_def Let_def replace_aof_file_def io_then_def io_try_def calls_free(1) del: fun_upd_apply)
qed

text \<open>Killed between the two renames: the live name is free, both contents are under other names.\<close>

lemma aof_rewrite_killed_at:
  assumes "aof_file eng = Some (aof_path eng)" "F (aof_path eng) = Some old"
  shows "aof_rewrite c snap eng (disk_at F (rewrite_grants snap 2 (Some (Killed, n) # fs))) =
    ((Panic, eng\<lparr>aof_file := None\<rparr>), disk_at (F(aof_path eng := None,
       rewrite_temp_path (aof_path eng) := Some (snapshot_bytes c snap),
       rewrite_backup_path (aof_path eng) := Some old)) fs)"
proof -
  let ?p = "aof_path eng" and ?t = "rewrite_temp_path (aof_path eng)" and ?b = "rewrite_backup_path (aof_path eng)"
  let ?new = "snapshot_bytes c snap"
  let ?F1 = "F(?t := Some ?new)"
  let ?F2 = "F(?p := None, ?t := Some ?new, ?b := Some old)"
  have prep: "rewrite_prepare c snap eng (disk_at F (rewrite_grants snap 2 (Some (Killed, n) # fs))) =
      (Ok (), disk_at ?F1 (grants 2 (Some (Killed, n) # fs)))"
    unfolding rewrite_grants_def by (rule rewrite_prepare_at [OF assms(1)])
  have g: "grants 2 (Some (Killed, n) # fs) = None # None # Some (Killed, n) # fs" by (simp add: eval_nat_numeral)
  have "rename_file_if_exists ?p ?b (disk_at (?F1(?b := None)) (None # Some (Killed, n) # fs)) =
      (Ok True, disk_at (?F1(?b := None, ?p := None, ?b := Some old)) (Some (Killed, n) # fs))"
    using assms(2) by (simp add: rename_at)
  moreover have "?F1(?b := None, ?p := None, ?b := Some old) = ?F2"
    by (auto simp: fun_eq_iff)
  moreover have "rename_file ?t ?p (disk_at ?F2 (Some (Killed, n) # fs)) = (Panic, disk_at ?F2 fs)"
    by (simp add: rename_file_def)
  ultimately have "replace_aof_file ?p ?t ?b (disk_at ?F1 (None # None # Some (Killed, n) # fs)) = (Panic, disk_at ?F2 fs)"
    by (simp add: replace_aof_file_def io_then_def io_try_def remove_file_if_exists_at del: fun_upd_apply)
  then show ?thesis
    using prep by (simp add: aof_rewrite_def Let_def g del: fun_upd_apply)
qed

section \<open>One failing call\<close>

text \<open>At most one of the calls to come fails, and the process lives.\<close>

inductive lone :: "(fault \<times> nat) option list \<Rightarrow> bool" where
  "lone []"
| "lone [Some (Fails e, n)]"
| "lone fs \<Longrightarrow> lone (None # fs)"

text \<open>
  \<open>lone_ok F m Q E\<close>: started on files \<open>F\<close> with at most one failure to come, \<open>m\<close> either returns a value
  and files that satisfy \<open>Q\<close>, with at most one failure to come, or returns an error and files that
  satisfy \<open>E\<close>, and the failure has happened.
\<close>

type_synonym contents = "path \<Rightarrow> bytes option"

definition lone_res ::
  "(io_error, 'a) result \<times> disk \<Rightarrow> ('a \<Rightarrow> contents \<Rightarrow> bool) \<Rightarrow> (contents \<Rightarrow> bool) \<Rightarrow> bool" where
  "lone_res r Q E \<longleftrightarrow>
     (case fst r of
        Ok x \<Rightarrow> lone (faults (snd r)) \<and> Q x (files (snd r))
      | Err e \<Rightarrow> faults (snd r) = [] \<and> E (files (snd r))
      | Panic \<Rightarrow> False)"

definition lone_ok :: "contents \<Rightarrow> 'a io \<Rightarrow> ('a \<Rightarrow> contents \<Rightarrow> bool) \<Rightarrow> (contents \<Rightarrow> bool) \<Rightarrow> bool" where
  "lone_ok F m Q E \<longleftrightarrow> (\<forall>fs. lone fs \<longrightarrow> lone_res (m (disk_at F fs)) Q E)"

lemma lone_res_simps [simp]:
  "lone_res (Ok x, disk_at F fs) Q E \<longleftrightarrow> lone fs \<and> Q x F"
  "lone_res (Err e, disk_at F fs) Q E \<longleftrightarrow> fs = [] \<and> E F"
  by (simp_all add: lone_res_def)

lemma lone_Nil [simp]: "lone []"
  by (rule lone.intros)

lemma lone_resE:
  assumes "lone_res r Q E"
  obtains x F' fs' where "r = (Ok x, disk_at F' fs')" "lone fs'" "Q x F'"
    | e F' where "r = (Err e, disk_at F' [])" "E F'"
proof (cases "fst r")
  case (Ok x)
  with assms show ?thesis
    using that(1) [of x "files (snd r)" "faults (snd r)"] disk_at_eq [of "snd r"]
    by (cases r) (simp add: lone_res_def)
next
  case (Err e)
  with assms show ?thesis
    using that(2) [of e "files (snd r)"] disk_at_eq [of "snd r"]
    by (cases r) (simp add: lone_res_def)
next
  case Panic
  with assms show ?thesis by (simp add: lone_res_def)
qed

lemma lone_okI: "(\<And>fs. lone fs \<Longrightarrow> lone_res (m (disk_at F fs)) Q E) \<Longrightarrow> lone_ok F m Q E"
  by (simp add: lone_ok_def)

lemma lone_okD: "lone_ok F m Q E \<Longrightarrow> lone fs \<Longrightarrow> lone_res (m (disk_at F fs)) Q E"
  by (simp add: lone_ok_def)

lemma lone_res_weaken:
  "lone_res r Q E \<Longrightarrow> (\<And>x F'. Q x F' \<Longrightarrow> Q' x F') \<Longrightarrow> (\<And>F'. E F' \<Longrightarrow> E' F') \<Longrightarrow> lone_res r Q' E'"
  by (auto simp: lone_res_def split: result.splits)

lemma lone_ok_weaken:
  "lone_ok F m Q E \<Longrightarrow> (\<And>x F'. Q x F' \<Longrightarrow> Q' x F') \<Longrightarrow> (\<And>F'. E F' \<Longrightarrow> E' F') \<Longrightarrow> lone_ok F m Q' E'"
  unfolding lone_ok_def using lone_res_weaken by blast

lemma lone_ok_then:
  assumes "lone_ok F m Q E" and "\<And>x F'. Q x F' \<Longrightarrow> lone_ok F' (f x) Q' E'" and "\<And>F'. E F' \<Longrightarrow> E' F'"
  shows "lone_ok F (io_then m f) Q' E'"
proof (rule lone_okI)
  fix fs
  assume "lone fs"
  from lone_okD [OF assms(1) this] show "lone_res (io_then m f (disk_at F fs)) Q' E'"
  proof (cases rule: lone_resE)
    case (1 x F' fs')
    then show ?thesis using lone_okD [OF assms(2)] by (simp add: io_then_def)
  next
    case (2 e F')
    then show ?thesis using assms(3) by (simp add: io_then_def)
  qed
qed

lemma lone_ok_return: "Q x F \<Longrightarrow> lone_ok F (io_return x) Q E"
  by (simp add: lone_ok_def io_return_def)

lemma lone_ok_try_call:
  assumes "\<And>fs. lone fs \<Longrightarrow> lone_res (io_try b f (disk_at F fs)) Q E"
    and "\<And>e n. lone_res (f (Err e) (a n (disk_at F []))) Q E"
  shows "lone_ok F (io_try (io_call a b) f) Q E"
proof (rule lone_okI)
  fix fs
  assume "lone fs"
  then show "lone_res (io_try (io_call a b) f (disk_at F fs)) Q E"
    by cases (use assms in \<open>simp_all add: io_try_def\<close>)
qed

lemma lone_ok_call:
  assumes "\<And>fs. lone fs \<Longrightarrow> lone_res (b (disk_at F fs)) Q E"
    and "\<And>e n. lone_res (Err e, a n (disk_at F [])) Q E"
  shows "lone_ok F (io_call a b) Q E"
proof (rule lone_okI)
  fix fs
  assume "lone fs"
  then show "lone_res (io_call a b (disk_at F fs)) Q E"
    by cases (use assms in simp_all)
qed

lemma lone_calls:
  "lone_ok F (flush_file q) (\<lambda>_ F'. F' = F) (\<lambda>F'. F' = F)"
  "lone_ok F (sync_all q) (\<lambda>_ F'. F' = F) (\<lambda>F'. F' = F)"
  "lone_ok F (open_truncate q) (\<lambda>_ F'. F' = F(q := Some [])) (\<lambda>F'. F' = F)"
  "F q = Some old \<Longrightarrow>
     lone_ok F (write_all q bs) (\<lambda>_ F'. F' = F(q := Some (old @ bs))) (\<lambda>F'. \<exists>x. F' = F(q := x))"
  unfolding flush_file_def sync_all_def open_truncate_def write_all_def
  by (rule lone_ok_call; auto)+

lemma lone_calls_if_exists:
  "lone_ok F (remove_file_if_exists q) (\<lambda>_ F'. F' = F \<or> F' = F(q := None)) (\<lambda>F'. F' = F)"
  "F q = Some old \<Longrightarrow> lone_ok F (rename_file_if_exists q b)
     (\<lambda>moved F'. F' = (if moved then F(q := None, b := Some old) else F)) (\<lambda>F'. F' = F)"
  unfolding remove_file_if_exists_def rename_file_if_exists_def remove_file_def rename_file_def
  by (rule lone_ok_try_call; cases "F q"; simp add: glue_defs no_such_file_def)+

lemma lone_write_entries:
  "F q = Some old \<Longrightarrow>
     lone_ok F (write_entries c q es)
       (\<lambda>_ F'. F' = F(q := Some (old @ concat (map (snapshot_entry_to_resp_bytes c) es))))
       (\<lambda>F'. \<exists>x. F' = F(q := x))"
proof (induction es arbitrary: F old)
  case Nil
  then show ?case by (simp add: lone_ok_return fun_upd_idem)
next
  case (Cons e es)
  let ?bs = "snapshot_entry_to_resp_bytes c e"
  show ?case
    unfolding write_entries.simps
  proof (rule lone_ok_then)
    show "lone_ok F (write_all q ?bs) (\<lambda>_ F'. F' = F(q := Some (old @ ?bs))) (\<lambda>F'. \<exists>x. F' = F(q := x))"
      using Cons.prems by (rule lone_calls(4))
    fix x F'
    assume F': "F' = F(q := Some (old @ ?bs))"
    then have "F' q = Some (old @ ?bs)" by simp
    from Cons.IH [where F = F', OF this]
    show "lone_ok F' (write_entries c q es)
       (\<lambda>_ F''. F'' = F(q := Some (old @ concat (map (snapshot_entry_to_resp_bytes c) (e # es)))))
       (\<lambda>F'. \<exists>x. F' = F(q := x))"
    proof (rule lone_ok_weaken)
      have upd: "F'(q := x) = F(q := x)" for x unfolding F' by (rule fun_upd_upd)
      show "F'' = F(q := Some (old @ concat (map (snapshot_entry_to_resp_bytes c) (e # es))))"
        if "F'' = F'(q := Some ((old @ ?bs) @ concat (map (snapshot_entry_to_resp_bytes c) es)))" for F''
        unfolding that upd by simp
      show "\<exists>x. F'' = F(q := x)" if "\<exists>x. F'' = F'(q := x)" for F''
        using that unfolding upd .
    qed
  qed blast
qed

lemma lone_write_rewrite_file:
  assumes "t \<noteq> p"
  shows "lone_ok F (write_rewrite_file c t snap)
    (\<lambda>_ F'. F' = F(t := Some (snapshot_bytes c snap))) (\<lambda>F'. F' p = F p)"
proof -
  let ?new = "snapshot_bytes c snap"
  have sync: "lone_ok F2 (io_then (flush_file t) (\<lambda>_. sync_all t)) (\<lambda>_ F'. F' = F(t := Some ?new)) (\<lambda>F'. F' p = F p)"
    if F2: "F2 = F(t := Some ?new)" for F2
  proof (rule lone_ok_then [OF lone_calls(1)])
    show "lone_ok F' (sync_all t) (\<lambda>_ F'. F' = F(t := Some ?new)) (\<lambda>F'. F' p = F p)" if "F' = F2" for F'
      by (rule lone_ok_weaken [OF lone_calls(2)]) (use assms in \<open>auto simp: that F2\<close>)
  qed (use assms in \<open>simp add: F2\<close>)
  have entries: "lone_ok F1 (write_entries c t (snap_entries snap)) (\<lambda>_ F'. F' = F(t := Some ?new)) (\<lambda>F'. F' p = F p)"
    if F1: "F1 = F(t := Some [])" for F1
  proof -
    have "F1 t = Some []" by (simp add: F1)
    from lone_write_entries [where F = F1, OF this] show ?thesis
      by (rule lone_ok_weaken) (use assms in \<open>auto simp: F1 snapshot_bytes_def\<close>)
  qed
  show ?thesis
    unfolding write_rewrite_file_def
  proof (rule lone_ok_then [OF lone_calls(3)])
    show "lone_ok F1 (io_then (write_entries c t (snap_entries snap)) (\<lambda>_. io_then (flush_file t) (\<lambda>_. sync_all t)))
        (\<lambda>_ F'. F' = F(t := Some ?new)) (\<lambda>F'. F' p = F p)" if "F1 = F(t := Some [])" for F1
      by (rule lone_ok_then [OF entries [OF that] sync]) auto
  qed simp
qed

lemma lone_prepare:
  assumes "aof_file eng = Some (aof_path eng)"
  shows "lone_ok F (rewrite_prepare c snap eng)
    (\<lambda>_ F'. F' (aof_path eng) = F (aof_path eng) \<and>
       F' (rewrite_temp_path (aof_path eng)) = Some (snapshot_bytes c snap))
    (\<lambda>F'. F' (aof_path eng) = F (aof_path eng))"
proof -
  let ?p = "aof_path eng" and ?t = "rewrite_temp_path (aof_path eng)" and ?new = "snapshot_bytes c snap"
  have eq: "aof_flush eng = io_then (flush_file ?p) (\<lambda>_. sync_all ?p)"
    by (simp add: aof_flush_def file_mut_def assms glue_defs)
  have flush: "lone_ok F1 (aof_flush eng) (\<lambda>_ F'. F' = F1) (\<lambda>F'. F' = F1)" for F1
    unfolding eq
  proof (rule lone_ok_then [OF lone_calls(1)])
    show "lone_ok F' (sync_all ?p) (\<lambda>_ F'. F' = F1) (\<lambda>F'. F' = F1)" if "F' = F1" for F'
      unfolding that by (rule lone_calls(2))
  qed
  show ?thesis
    unfolding rewrite_prepare_def
  proof (rule lone_ok_then [OF lone_calls_if_exists(1)])
    fix x F1
    assume F1: "F1 = F \<or> F1 = F(?t := None)"
    show "lone_ok F1 (io_then (write_rewrite_file c ?t snap) (\<lambda>_. aof_flush eng))
        (\<lambda>_ F'. F' ?p = F ?p \<and> F' ?t = Some ?new) (\<lambda>F'. F' ?p = F ?p)"
    proof (rule lone_ok_then [OF lone_write_rewrite_file [where p = ?p]])
      show "lone_ok F2 (aof_flush eng) (\<lambda>_ F'. F' ?p = F ?p \<and> F' ?t = Some ?new) (\<lambda>F'. F' ?p = F ?p)"
        if "F2 = F1(?t := Some ?new)" for F2
        by (rule lone_ok_weaken [OF flush]) (use F1 in \<open>auto simp: that\<close>)
    qed (use F1 in auto)
  qed auto
qed

text \<open>The second rename, and undoing the first one when it fails.\<close>

lemma lone_swap:
  assumes "F t = Some new" "t \<noteq> p" "b \<noteq> p" "t \<noteq> b"
    and "moved \<Longrightarrow> F b = Some old" "\<not> moved \<Longrightarrow> F p = Some old"
  shows "lone_ok F (io_try (rename_file t p) (\<lambda>res.
       case res of
         Ok _ \<Rightarrow> if moved then remove_file_if_exists b else io_return ()
       | Err e \<Rightarrow> if moved then io_try (rename_file b p) (\<lambda>_. io_fail e) else io_fail e
       | Panic \<Rightarrow> (\<lambda>d. (Panic, d))))
    (\<lambda>_ F'. F' p = Some new) (\<lambda>F'. F' p = Some old \<or> F' p = Some new)"
  unfolding rename_file_def [of t]
proof (rule lone_ok_try_call)
  let ?f = "\<lambda>res. case res of
         Ok _ \<Rightarrow> if moved then remove_file_if_exists b else io_return ()
       | Err e \<Rightarrow> if moved then io_try (rename_file b p) (\<lambda>_. io_fail e) else io_fail e
       | Panic \<Rightarrow> (\<lambda>d. (Panic, d))"
  let ?F1 = "F(t := None, p := Some new)"
  let ?Q = "\<lambda>_ F'. F' p = Some new" and ?E = "\<lambda>F'. F' p = Some old \<or> F' p = Some new"
  fix fs
  assume fs: "lone fs"
  have "lone_ok ?F1 (remove_file_if_exists b) ?Q ?E"
    by (rule lone_ok_weaken [OF lone_calls_if_exists(1)]) (use assms(3) in auto)
  then have "lone_res (remove_file_if_exists b (disk_at ?F1 fs)) ?Q ?E"
    using fs by (rule lone_okD)
  with fs assms(1) show "lone_res (io_try (\<lambda>d. case files d t of None \<Rightarrow> (Err no_such_file, d)
          | Some bs \<Rightarrow> (Ok (), set_file p (Some bs) (set_file t None d))) ?f (disk_at F fs)) ?Q ?E"
    by (cases moved) (simp_all add: io_try_def io_return_def)
next
  fix e :: io_error and n :: nat
  have "rename_file b p (disk_at F []) = (Ok (), disk_at (F(b := None, p := Some old)) [])" if moved
    using assms(5) [OF that] by (simp add: rename_file_def)
  then show "lone_res ((case Err e of
         Ok _ \<Rightarrow> if moved then remove_file_if_exists b else io_return ()
       | Err e \<Rightarrow> if moved then io_try (rename_file b p) (\<lambda>_. io_fail e) else io_fail e
       | Panic \<Rightarrow> (\<lambda>d. (Panic, d))) (disk_at F [])) (\<lambda>_ F'. F' p = Some new)
      (\<lambda>F'. F' p = Some old \<or> F' p = Some new)"
    using assms(6) by (cases moved) (simp_all add: io_try_def io_fail_def)
qed

lemma lone_replace:
  assumes "F p = Some old" "F t = Some new" "t \<noteq> p" "b \<noteq> p" "t \<noteq> b"
  shows "lone_ok F (replace_aof_file p t b) (\<lambda>_ F'. F' p = Some new)
    (\<lambda>F'. F' p = Some old \<or> F' p = Some new)"
  unfolding replace_aof_file_def
proof (rule lone_ok_then [OF lone_calls_if_exists(1)])
  fix x F1
  assume "F1 = F \<or> F1 = F(b := None)"
  then have F1: "F1 p = Some old" "F1 t = Some new" using assms by auto
  show "lone_ok F1 (io_then (rename_file_if_exists p b) (\<lambda>moved.
      io_try (rename_file t p) (\<lambda>res.
       case res of
         Ok _ \<Rightarrow> if moved then remove_file_if_exists b else io_return ()
       | Err e \<Rightarrow> if moved then io_try (rename_file b p) (\<lambda>_. io_fail e) else io_fail e
       | Panic \<Rightarrow> (\<lambda>d. (Panic, d))))) (\<lambda>_ F'. F' p = Some new)
      (\<lambda>F'. F' p = Some old \<or> F' p = Some new)"
  proof (rule lone_ok_then)
    show "lone_ok F1 (rename_file_if_exists p b)
        (\<lambda>moved F'. F' = (if moved then F1(p := None, b := Some old) else F1)) (\<lambda>F'. F' = F1)"
      using F1(1) by (rule lone_calls_if_exists(2))
  next
    fix moved F2
    assume F2: "F2 = (if moved then F1(p := None, b := Some old) else F1)"
    show "lone_ok F2 (io_try (rename_file t p) (\<lambda>res.
       case res of
         Ok _ \<Rightarrow> if moved then remove_file_if_exists b else io_return ()
       | Err e \<Rightarrow> if moved then io_try (rename_file b p) (\<lambda>_. io_fail e) else io_fail e
       | Panic \<Rightarrow> (\<lambda>d. (Panic, d)))) (\<lambda>_ F'. F' p = Some new)
      (\<lambda>F'. F' p = Some old \<or> F' p = Some new)"
      by (rule lone_swap) (use assms(3-5) F1 F2 in auto)
  qed (use F1 in auto)
qed (use assms in auto)

text \<open>The whole rewrite with at most one failing call.\<close>

lemma aof_rewrite_lone:
  assumes eng: "aof_file eng = Some (aof_path eng)" and F: "F (aof_path eng) = Some old" and fs: "lone fs"
  obtains res eng' F' fs' where
    "aof_rewrite c snap eng (disk_at F fs) = ((res, eng'), disk_at F' fs')" "res \<noteq> Panic"
    "F' (aof_path eng) = Some old \<or> F' (aof_path eng) = Some (snapshot_bytes c snap)"
    "res = Ok () \<longrightarrow> F' (aof_path eng) = Some (snapshot_bytes c snap) \<and> eng' = eng"
    "aof_path eng' = aof_path eng" "aof_file eng' = Some (aof_path eng) \<or> aof_file eng' = None"
proof -
  let ?p = "aof_path eng" and ?t = "rewrite_temp_path (aof_path eng)" and ?b = "rewrite_backup_path (aof_path eng)"
  let ?new = "snapshot_bytes c snap" and ?shut = "eng\<lparr>aof_file := None\<rparr>"
  have reopened: "?shut\<lparr>aof_file := Some ?p\<rparr> = eng" using eng by (cases eng) simp
  from lone_okD [OF lone_prepare [OF eng, where F = F and c = c and snap = snap] fs]
  show ?thesis
  proof (cases rule: lone_resE)
    case (2 e F1)
    then show ?thesis
      using that [of "Err e" eng F1 "[]"] F eng by (simp add: aof_rewrite_def Let_def)
  next
    case (1 x F1 fs1)
    then have F1: "F1 ?p = Some old" "F1 ?t = Some ?new" using F by simp_all
    have "lone_ok F1 (replace_aof_file ?p ?t ?b) (\<lambda>_ F'. F' ?p = Some ?new)
        (\<lambda>F'. F' ?p = Some old \<or> F' ?p = Some ?new)"
      by (rule lone_replace [where old = old, OF F1]) simp_all
    from lone_okD [OF this 1(2)] show ?thesis
    proof (cases rule: lone_resE)
      case (2 e F2)
      then obtain y where "F2 ?p = Some y" by auto
      then have "open_append ?p (disk_at F2 []) = (Ok (), disk_at F2 [])" by (simp add: open_append_def)
      with 1 2 show ?thesis
        using that [of "Err e" eng F2 "[]"] eng by (simp add: aof_rewrite_def Let_def reopened)
    next
      case (1 y F2 fs2)
      note replaced = this
      from \<open>rewrite_prepare c snap eng (disk_at F fs) = (Ok x, disk_at F1 fs1)\<close>
      have run: "aof_rewrite c snap eng (disk_at F fs) =
          (case open_append ?p (disk_at F2 fs2) of
             (Ok _, d) \<Rightarrow> ((Ok (), eng), d) | (Err e, d) \<Rightarrow> ((Err e, ?shut), d) | (Panic, d) \<Rightarrow> ((Panic, ?shut), d))"
        using replaced(1) by (simp add: aof_rewrite_def Let_def reopened case_prod_beta split: result.split)
      have "lone_ok F2 (open_append ?p) (\<lambda>_ F'. F' = F2) (\<lambda>F'. F' = F2)"
        unfolding open_append_def by (rule lone_ok_call) (use replaced(3) in simp_all)
      from lone_okD [OF this replaced(2)] show ?thesis
      proof (cases rule: lone_resE)
        case (1 z F3 fs3)
        then show ?thesis
          using that [of "Ok ()" eng F2 fs3] run replaced(3) eng by simp
      next
        case (2 e F3)
        then show ?thesis
          using that [of "Err e" ?shut F2 "[]"] run replaced(3) by simp
      qed
    qed
  qed
qed

section \<open>Properties\<close>

definition sample_path :: path where
  "sample_path = \<lparr>path_dir = ''/data/'', path_name = Some ''kv.aof''\<rparr>"

definition sample_engine :: aof_engine where
  "sample_engine = \<lparr>aof_path = sample_path, aof_file = Some sample_path\<rparr>"

definition sample_clock :: clock where
  "sample_clock = clock_at 1000000000 (Some 5000000000) 900000000000"

text \<open>
  C19: Every write command that is logged is read back as one frame that decodes to the same command
  with its expiry made absolute (saturating at \<open>u64::MAX\<close> milliseconds), whatever follows it in
  the log.
\<close>

theorem aof_record_roundtrip:
  assumes "command_wf cmd" "record_fits lim c cmd"
  shows "\<exists>bs f. command_to_resp_bytes c cmd = Some bs \<and> parse_resp lim (bs @ rest) = Ok (f, length bs) \<and>
    from_resp f = Ok (logged c cmd)"
proof -
  obtain bs where "command_to_resp_bytes c cmd = Some bs"
    using assms(2) by (auto simp: record_fits_def command_to_resp_bytes_def split: option.splits)
  with record_parses [OF assms(2,1) this] show ?thesis by metis
qed

theorem aof_record_roundtrip_witness:
  "\<exists>bs f. command_to_resp_bytes sample_clock (Set ''k'' ''v'' (Some 2000000000)) = Some bs \<and>
     parse_resp sample_limits (bs @ ''*1'') = Ok (f, length bs) \<and> from_resp f = Ok (SetPxAt ''k'' ''v'' 7000)"
proof -
  have "command_wf (Set ''k'' ''v'' (Some 2000000000))" by code_simp
  moreover have "record_fits sample_limits sample_clock (Set ''k'' ''v'' (Some 2000000000))" by code_simp
  moreover have "logged sample_clock (Set ''k'' ''v'' (Some 2000000000)) = SetPxAt ''k'' ''v'' 7000" by code_simp
  ultimately show ?thesis using aof_record_roundtrip by metis
qed

lemma load_and_replay_log:
  assumes "list_all (loggable lim) rs" "faults d = []" "files d p = Some (log_bytes rs)"
  shows "load_and_replay lim h clk p d sd = (replay_all h clk 0 (map (\<lambda>(c, cmd). logged c cmd) rs) sd, d)"
proof -
  have "replay_loop lim h clk (log_bytes rs) 0 0 sd = replay_all h clk 0 (map (\<lambda>(c, cmd). logged c cmd) rs) sd"
    using replay_loop_log [OF assms(1), of "log_bytes rs" "[]" "[]" h clk 0 sd]
    by (simp add: replay_loop_end split: prod.splits result.splits)
  then show ?thesis by (simp add: load_and_replay_read [OF assms(2,3)])
qed

text \<open>
  C16: Starting from a log of records, the server replays exactly those commands, in order, each once,
  at the clock of its turn, and stops at the first that fails or panics.
\<close>

theorem load_replays_log:
  assumes "list_all (loggable lim) rs" "faults d = []" "files d p = Some (log_bytes rs)"
  shows "load_and_replay lim h clk p d sd = (replay_all h clk 0 (map (\<lambda>(c, cmd). logged c cmd) rs) sd, d)"
  by (rule load_and_replay_log [OF assms])

definition sample_log :: "(clock \<times> command) list" where
  "sample_log = [(sample_clock, Set ''k'' ''v'' None), (sample_clock, Set ''l'' ''w'' None), (sample_clock, Del [''k''])]"

lemma sample_loggable: "list_all (loggable sample_limits) sample_log"
  by code_simp

theorem load_replays_log_witness:
  "sharded_map length (snd (fst (load_and_replay sample_limits length (\<lambda>_. sample_clock) sample_path
     (disk_at (Map.empty(sample_path := Some (log_bytes sample_log))) []) (sharded_new 2)))) ''l'' =
   Some (with_expire_at ''w'' None)"
proof -
  have "sharded_map length (snd (replay_all length (\<lambda>_. sample_clock) 0
      (map (\<lambda>(c, cmd). logged c cmd) sample_log) (sharded_new 2))) ''l'' = Some (with_expire_at ''w'' None)"
    by code_simp
  then show ?thesis
    by (simp add: load_replays_log [OF sample_loggable])
qed

text \<open>
  C22: An append whose write fails part-way is reported to the client, but its torn record stays in the
  log: the next start replays every complete record and then refuses to start, with the parser's
  incomplete-frame error.
\<close>

theorem torn_append_breaks_restart:
  assumes "list_all (loggable lim) rs" "loggable lim (c, cmd)"
    and "files d p = Some (log_bytes rs)" "faults d = [Some (Fails e, m)]"
    and "0 < m" "m < length (record_bytes (c, cmd))"
    and "replay_all h clk 0 (map (\<lambda>(c, cmd). logged c cmd) rs) sd = (Ok (), sd')"
  shows "fst (aof_append c cmd \<lparr>aof_path = p, aof_file = Some p\<rparr> d) = Err e \<and>
    fst (load_and_replay lim h clk p (snd (aof_append c cmd \<lparr>aof_path = p, aof_file = Some p\<rparr> d)) sd) =
      (Err (parse_failure Incomplete), sd')"
proof -
  let ?d' = "snd (aof_append c cmd \<lparr>aof_path = p, aof_file = Some p\<rparr> d)"
  obtain bs where bs: "command_to_resp_bytes c cmd = Some bs"
    using assms(2) by (auto simp: loggable_def record_fits_def command_to_resp_bytes_def split: option.splits)
  have d: "d = disk_at (files d) [Some (Fails e, m)]" using disk_at_eq [of d] assms(4) by simp
  have rec: "record_bytes (c, cmd) = bs" by (simp add: record_bytes_def bs)
  have run: "aof_append c cmd \<lparr>aof_path = p, aof_file = Some p\<rparr> d =
      (Err e, disk_at ((files d)(p := Some (log_bytes rs @ take m bs))) [])"
    by (subst d) (simp add: aof_append_def bs file_mut_def glue_defs write_all_def assms(3))
  have torn: "parse_resp lim (take m bs) = Err Incomplete"
    using record_parses [OF _ _ bs, of lim] assms(2,6) by (auto simp: loggable_def rec)
  let ?all = "log_bytes rs @ take m bs"
  have "drop (length (log_bytes rs)) ?all = take m bs" "length (log_bytes rs) < length ?all"
    using assms(5,6) rec by simp_all
  then have "replay_loop lim h clk ?all (length rs) (length (log_bytes rs)) sd' = (Err (parse_failure Incomplete), sd')"
    by (subst replay_loop.simps) (simp add: torn)
  then have "replay_loop lim h clk ?all 0 0 sd = (Err (parse_failure Incomplete), sd')"
    using replay_loop_log [OF assms(1), of ?all "[]" "take m bs" h clk 0 sd] assms(7) by simp
  moreover have "load_and_replay lim h clk p ?d' sd = (replay_loop lim h clk ?all 0 0 sd, ?d')"
    by (rule load_and_replay_read) (simp_all add: run)
  ultimately show ?thesis by (simp add: run)
qed

theorem torn_append_breaks_restart_witness:
  "let d = disk_at (Map.empty(sample_path := Some (log_bytes sample_log))) [Some (Fails (IoError OtherKind ''disk full''), 9)];
       r = aof_append sample_clock (Set ''a'' ''b'' None) sample_engine d
   in fst r = Err (IoError OtherKind ''disk full'') \<and>
      fst (fst (load_and_replay sample_limits length (\<lambda>_. sample_clock) sample_path (snd r) (sharded_new 2))) =
        Err (parse_failure Incomplete)"
proof -
  let ?d = "disk_at (Map.empty(sample_path := Some (log_bytes sample_log))) [Some (Fails (IoError OtherKind ''disk full''), 9)]"
  let ?r = "replay_all length (\<lambda>_. sample_clock) 0 (map (\<lambda>(c, cmd). logged c cmd) sample_log) (sharded_new 2)"
  have "loggable sample_limits (sample_clock, Set ''a'' ''b'' None)" by code_simp
  moreover have "9 < length (record_bytes (sample_clock, Set ''a'' ''b'' None))" by code_simp
  moreover have "fst ?r = Ok ()" by code_simp
  then have "?r = (Ok (), snd ?r)" by (metis prod.collapse)
  ultimately show ?thesis
    using torn_append_breaks_restart [OF sample_loggable, where d = ?d and p = sample_path and m = 9]
    by (simp add: sample_engine_def Let_def)
qed

text \<open>
  When the write of a record succeeds and only the sync after it fails, the client is told that its
  command failed, and it is not executed; but the record is in the log, and the next start executes it.
\<close>

theorem unsynced_append_is_replayed:
  assumes "list_all (loggable lim) rs" "loggable lim (c, cmd)"
    and "files d p = Some (log_bytes rs)" "faults d = [None, Some (Fails e, m)]"
  shows "fst (aof_append c cmd \<lparr>aof_path = p, aof_file = Some p\<rparr> d) = Err e \<and>
    fst (load_and_replay lim h clk p (snd (aof_append c cmd \<lparr>aof_path = p, aof_file = Some p\<rparr> d)) sd) =
      replay_all h clk 0 (map (\<lambda>(c, cmd). logged c cmd) rs @ [logged c cmd]) sd"
proof -
  let ?d' = "snd (aof_append c cmd \<lparr>aof_path = p, aof_file = Some p\<rparr> d)"
  let ?rs = "rs @ [(c, cmd)]"
  obtain bs where bs: "command_to_resp_bytes c cmd = Some bs"
    using assms(2) by (auto simp: loggable_def record_fits_def command_to_resp_bytes_def split: option.splits)
  have d: "d = disk_at (files d) [None, Some (Fails e, m)]" using disk_at_eq [of d] assms(4) by simp
  have run: "aof_append c cmd \<lparr>aof_path = p, aof_file = Some p\<rparr> d =
      (Err e, disk_at ((files d)(p := Some (log_bytes ?rs))) [])"
    by (subst d) (simp add: aof_append_def bs file_mut_def glue_defs write_all_def sync_all_def assms(3)
        log_bytes_def record_bytes_def)
  have all: "list_all (loggable lim) ?rs" using assms(1,2) by simp
  have "replay_loop lim h clk (log_bytes ?rs) 0 0 sd = replay_all h clk 0 (map (\<lambda>(c, cmd). logged c cmd) ?rs) sd"
    using replay_loop_log [OF all, of "log_bytes ?rs" "[]" "[]" h clk 0 sd]
    by (simp add: replay_loop_end split: prod.splits result.splits)
  moreover have "load_and_replay lim h clk p ?d' sd = (replay_loop lim h clk (log_bytes ?rs) 0 0 sd, ?d')"
    by (rule load_and_replay_read) (simp_all add: run)
  ultimately show ?thesis by (simp add: run)
qed

theorem unsynced_append_is_replayed_witness:
  "let d = disk_at (Map.empty(sample_path := Some (log_bytes sample_log))) [None, Some (Fails (IoError OtherKind ''io''), 0)];
       r = aof_append sample_clock (Set ''a'' ''b'' None) sample_engine d
   in fst r = Err (IoError OtherKind ''io'') \<and>
      sharded_map length (snd (fst (load_and_replay sample_limits length (\<lambda>_. sample_clock) sample_path (snd r) (sharded_new 2)))) ''a'' =
        Some (with_expire_at ''b'' None)"
proof -
  let ?d = "disk_at (Map.empty(sample_path := Some (log_bytes sample_log))) [None, Some (Fails (IoError OtherKind ''io''), 0)]"
  have "loggable sample_limits (sample_clock, Set ''a'' ''b'' None)" by code_simp
  moreover have "sharded_map length (snd (replay_all length (\<lambda>_. sample_clock) 0
      (map (\<lambda>(c, cmd). logged c cmd) sample_log @ [logged sample_clock (Set ''a'' ''b'' None)]) (sharded_new 2))) ''a'' =
      Some (with_expire_at ''b'' None)"
    by code_simp
  ultimately show ?thesis
    using unsynced_append_is_replayed [OF sample_loggable, where d = ?d and p = sample_path and h = length
        and clk = "\<lambda>_. sample_clock" and sd = "sharded_new 2"]
    by (simp add: sample_engine_def Let_def)
qed

text \<open>
  C18: A rewrite whose calls all succeed replaces the log by the snapshot's records, leaves neither the
  temporary file nor a backup behind, touches no other file, and keeps the log open for appending;
  the new log replays to the snapshot's commands.
\<close>

theorem aof_rewrite_replaces_log:
  assumes "aof_file eng = Some (aof_path eng)" "files d (aof_path eng) = Some old"
    and "faults d = rewrite_grants snap 5 fs"
  shows "aof_rewrite c snap eng d =
    ((Ok (), eng), \<lparr>files = (files d)(aof_path eng := Some (log_bytes (map (\<lambda>e. (c, snapshot_command e)) (snap_entries snap))),
       rewrite_temp_path (aof_path eng) := None, rewrite_backup_path (aof_path eng) := None), faults = fs\<rparr>)"
proof -
  have d: "d = disk_at (files d) (rewrite_grants snap 5 fs)"
    using disk_at_eq [of d] assms(3) by simp
  show ?thesis
    using aof_rewrite_at [where F = "files d" and eng = eng and old = old and c = c and snap = snap and fs = fs, OF assms(1,2)]
    by (subst d) (simp add: disk_at_def snapshot_bytes_log)
qed

definition sample_snapshot :: db_snapshot where
  "sample_snapshot = \<lparr>snap_entries = [\<lparr>snap_key = ''l'', snap_value = ''w'', snap_expire_at_ms = Some 9000\<rparr>],
     snap_key_count = 1, snap_expired_count = 0\<rparr>"

theorem aof_rewrite_replaces_log_witness:
  "let d = disk_at (Map.empty(sample_path := Some (log_bytes sample_log))) (rewrite_grants sample_snapshot 5 []);
       r = aof_rewrite sample_clock sample_snapshot sample_engine d
   in fst r = (Ok (), sample_engine) \<and>
      files (snd r) sample_path = Some (log_bytes [(sample_clock, SetPxAt ''l'' ''w'' 9000)])"
proof -
  let ?d = "disk_at (Map.empty(sample_path := Some (log_bytes sample_log))) (rewrite_grants sample_snapshot 5 [])"
  have "aof_file sample_engine = Some (aof_path sample_engine)" by (simp add: sample_engine_def)
  from aof_rewrite_replaces_log [OF this, of ?d "log_bytes sample_log" sample_snapshot "[]" sample_clock]
  show ?thesis
    by (simp add: sample_engine_def sample_snapshot_def snapshot_command_def Let_def)
qed

text \<open>
  C17: Whichever single call of a rewrite fails, the log holds either the old records or exactly the
  snapshot's, never a mixture and never nothing; success is reported only when it holds the snapshot's,
  and the engine still names the log, open or (when reopening was what failed) closed.
\<close>

theorem aof_rewrite_survives_one_failure:
  assumes "aof_file eng = Some (aof_path eng)" "files d (aof_path eng) = Some old" "lone (faults d)"
  shows "\<exists>res eng' d'. aof_rewrite c snap eng d = ((res, eng'), d') \<and> res \<noteq> Panic \<and>
    (files d' (aof_path eng) = Some old \<or> files d' (aof_path eng) = Some (snapshot_bytes c snap)) \<and>
    (res = Ok () \<longrightarrow> files d' (aof_path eng) = Some (snapshot_bytes c snap) \<and> eng' = eng) \<and>
    aof_path eng' = aof_path eng \<and> (aof_file eng' = Some (aof_path eng) \<or> aof_file eng' = None)"
proof -
  have d: "d = disk_at (files d) (faults d)" by (rule disk_at_eq)
  show ?thesis
    by (subst (1) d, rule aof_rewrite_lone [where F = "files d" and fs = "faults d" and eng = eng and old = old and c = c and snap = snap, OF assms]) (metis disk_at_simps(1))
qed

theorem aof_rewrite_survives_one_failure_witness:
  "let d = disk_at (Map.empty(sample_path := Some ''old'')) (None # grants 8 [Some (Fails (IoError OtherKind ''rename''), 0)]);
       r = aof_rewrite sample_clock sample_snapshot sample_engine d
   in fst (fst r) = Err (IoError OtherKind ''rename'') \<and> files (snd r) sample_path = Some ''old''"
proof -
  let ?d = "disk_at (Map.empty(sample_path := Some ''old'')) (None # grants 8 [Some (Fails (IoError OtherKind ''rename''), 0)])"
  let ?r = "aof_rewrite sample_clock sample_snapshot sample_engine ?d"
  have "lone (faults ?d)" by (simp add: eval_nat_numeral lone.intros)
  then have "files (snd ?r) sample_path = Some ''old'' \<or>
      files (snd ?r) sample_path = Some (snapshot_bytes sample_clock sample_snapshot)"
    using aof_rewrite_survives_one_failure [of sample_engine ?d "''old''" sample_clock sample_snapshot]
    by (auto simp: sample_engine_def)
  moreover have "fst (fst ?r) = Err (IoError OtherKind ''rename'')" by code_simp
  moreover have "files (snd ?r) sample_path \<noteq> Some (snapshot_bytes sample_clock sample_snapshot)" by code_simp
  ultimately show ?thesis by (simp add: Let_def)
qed

text \<open>
  C21: A process killed between the two renames of a rewrite leaves no file under the log's name, and the
  next start takes that for an empty log: it reports success with nothing replayed, although both
  the old log (under the backup name) and the complete new one (under the temporary name) exist.
\<close>

theorem killed_rewrite_loses_log:
  assumes "aof_file eng = Some (aof_path eng)" "files d (aof_path eng) = Some old"
    and "faults d = rewrite_grants snap 2 [Some (Killed, n)]"
  shows "fst (fst (aof_rewrite c snap eng d)) = Panic \<and>
    files (snd (aof_rewrite c snap eng d)) (rewrite_backup_path (aof_path eng)) = Some old \<and>
    files (snd (aof_rewrite c snap eng d)) (rewrite_temp_path (aof_path eng)) = Some (snapshot_bytes c snap) \<and>
    fst (load_and_replay lim h clk (aof_path eng) (snd (aof_rewrite c snap eng d)) sd) = (Ok (), sd)"
proof -
  have d: "d = disk_at (files d) (rewrite_grants snap 2 [Some (Killed, n)])"
    using disk_at_eq [of d] assms(3) by simp
  show ?thesis
    using aof_rewrite_killed_at [where F = "files d" and eng = eng and old = old and c = c and snap = snap and n = n and fs = "[]", OF assms(1,2)]
    by (subst (1 2 3 4) d) (simp add: load_and_replay_def open_read_def no_such_file_def)
qed

theorem killed_rewrite_loses_log_witness:
  "let d = disk_at (Map.empty(sample_path := Some (log_bytes sample_log))) (rewrite_grants sample_snapshot 2 [Some (Killed, 0)])
   in fst (load_and_replay sample_limits length (\<lambda>_. sample_clock) sample_path
        (snd (aof_rewrite sample_clock sample_snapshot sample_engine d)) (sharded_new 2)) = (Ok (), sharded_new 2)"
proof -
  let ?d = "disk_at (Map.empty(sample_path := Some (log_bytes sample_log))) (rewrite_grants sample_snapshot 2 [Some (Killed, 0)])"
  show ?thesis
    using killed_rewrite_loses_log [of sample_engine ?d "log_bytes sample_log" sample_snapshot 0 sample_clock
        sample_limits length "\<lambda>_. sample_clock" "sharded_new 2"]
    by (simp add: sample_engine_def Let_def)
qed

end
