(* ===== verification/Recovery.thy ===== *)
theory Recovery
  imports Aof
begin

text \<open>
  What a restart recovers. A server has executed commands and logged the writing ones
  (\<open>aof.rs\<close>, \<open>server.rs\<close>); a later process replays the log. The deadlines of the live store are
  readings of the old process's monotonic clock, those of the recovered store of the new one's; the
  log holds wall-clock milliseconds. The relation between the two stores says which entries the
  replay brings back and how far their deadlines have moved.
\<close>

section \<open>Clocks and wall time\<close>

text \<open>
  \<open>stamped ofs lag a c\<close>: the wall-clock reading of \<open>a\<close> was taken at most \<open>lag\<close> nanoseconds before the
  operation of \<open>c\<close> read the monotonic clock, whose origin is \<open>ofs\<close> after the Unix epoch. For a
  command that is logged and then executed, \<open>a\<close> holds the readings of the append and \<open>c\<close> those of
  the execution: the write and the sync of the record lie between them.
\<close>

definition stamped :: "nat \<Rightarrow> nat \<Rightarrow> clock \<Rightarrow> clock \<Rightarrow> bool" where
  "stamped ofs lag a c \<longleftrightarrow>
     (case unix_at a of None \<Rightarrow> False | Some u \<Rightarrow> u \<le> op_at c + ofs \<and> op_at c + ofs \<le> u + lag)"

text \<open>The absolute deadline of a relative expiry is within \<open>u64\<close> milliseconds.\<close>

fun unsaturated :: "clock \<Rightarrow> command \<Rightarrow> bool" where
  "unsaturated a (Set k v (Some d)) \<longleftrightarrow> current_unix_ms a + as_millis d < u64_max"
| "unsaturated a (Expire k s) \<longleftrightarrow> current_unix_ms a + as_millis (from_secs s) < u64_max"
| "unsaturated a cmd \<longleftrightarrow> True"

lemma millis_floor: "from_millis (as_millis u) \<le> u" "u < from_millis (as_millis u) + nanos_per_milli"
  by (simp_all add: from_millis_def as_millis_def nanos_per_milli_def div_times_less_eq_dividend)

lemma logged_deadline:
  assumes "stamped ofs lag a c" "current_unix_ms a + as_millis d < u64_max"
  shows "from_millis (expire_at_ms_from_now a d) \<le> op_at c + ofs + d"
    and "op_at c + ofs + d < from_millis (expire_at_ms_from_now a d) + lag + 2 * nanos_per_milli"
proof -
  obtain u where u: "unix_at a = Some u" "u \<le> op_at c + ofs" "op_at c + ofs \<le> u + lag"
    using assms(1) by (auto simp: stamped_def split: option.splits)
  have "expire_at_ms_from_now a d = as_millis u + as_millis d"
    using assms(2) by (auto simp: expire_at_ms_from_now_def current_unix_ms_def u(1) min_def split: if_splits)
  then have "from_millis (expire_at_ms_from_now a d) = from_millis (as_millis u) + from_millis (as_millis d)"
    by (simp add: from_millis_def distrib_right)
  with u(2,3) millis_floor [of u] millis_floor [of d]
  show "from_millis (expire_at_ms_from_now a d) \<le> op_at c + ofs + d"
    "op_at c + ofs + d < from_millis (expire_at_ms_from_now a d) + lag + 2 * nanos_per_milli"
    by linarith+
qed

lemma reached_deadline:
  assumes "stamped ofs lag r r" "duration_until_unix_ms r ms = Some left" "ms \<le> u64_max" "unix_at r = Some u"
  shows "from_millis ms \<le> op_at r + left + ofs" "op_at r + left + ofs < from_millis ms + lag + nanos_per_milli"
    and "u < from_millis ms"
proof -
  have u: "u \<le> op_at r + ofs" "op_at r + ofs \<le> u + lag"
    using assms(1,4) by (auto simp: stamped_def)
  have ms: "as_millis u < ms" "left = from_millis (ms - as_millis u)"
    using assms(2,3,4) by (auto simp: duration_until_unix_ms_def min_def Let_def split: if_splits)
  then have "left + from_millis (as_millis u) = from_millis ms"
    by (simp add: from_millis_def add_mult_distrib [symmetric])
  moreover have "from_millis (as_millis u) + nanos_per_milli \<le> from_millis ms"
    using ms(1) mult_le_mono1 [of "Suc (as_millis u)" ms nanos_per_milli] by (simp add: from_millis_def)
  ultimately show "from_millis ms \<le> op_at r + left + ofs" "op_at r + left + ofs < from_millis ms + lag + nanos_per_milli"
    "u < from_millis ms"
    using u millis_floor [of u] by linarith+
qed

lemma past_stays_past:
  assumes "duration_until_unix_ms c ms = None" "unix_at c = Some u" "unix_at r = Some u'" "u \<le> u'"
  shows "duration_until_unix_ms r ms = None"
  using assms div_le_mono [OF assms(4), of nanos_per_milli]
  by (auto simp: duration_until_unix_ms_def as_millis_def Let_def split: if_splits)

section \<open>The recovered store against the live one\<close>

definition near :: "nat \<Rightarrow> nat \<Rightarrow> nat \<Rightarrow> entry \<Rightarrow> entry \<Rightarrow> bool" where
  "near g ofs ofs' live rec \<longleftrightarrow> evalue rec = evalue live \<and>
     (case expire_at live of
        None \<Rightarrow> expire_at rec = None
      | Some t \<Rightarrow>
          (case expire_at rec of
             None \<Rightarrow> False
           | Some t' \<Rightarrow> t + ofs < t' + ofs' + g \<and> t' + ofs' < t + ofs + g))"

lemma near_iff:
  "near g ofs ofs' live rec \<longleftrightarrow> evalue rec = evalue live \<and>
     (case (expire_at live, expire_at rec) of
        (None, None) \<Rightarrow> True
      | (Some t, Some t') \<Rightarrow> \<bar>int (t + ofs) - int (t' + ofs')\<bar> < int g
      | _ \<Rightarrow> False)"
  by (auto simp: near_def split: option.splits)

text \<open>Every recovered entry is an entry of the live store.\<close>

definition sound :: "(entry \<Rightarrow> entry \<Rightarrow> bool) \<Rightarrow> (bytes \<rightharpoonup> entry) \<Rightarrow> (bytes \<rightharpoonup> entry) \<Rightarrow> bool" where
  "sound P live rec \<longleftrightarrow> (\<forall>k e'. rec k = Some e' \<longrightarrow> (\<exists>e. live k = Some e \<and> P e e'))"

lemma soundD: "sound P live rec \<Longrightarrow> rec k = Some e' \<Longrightarrow> \<exists>e. live k = Some e \<and> P e e'"
  by (auto simp: sound_def)

lemma sound_upd:
  "sound P live rec \<Longrightarrow> (\<And>e'. y = Some e' \<Longrightarrow> \<exists>e. x = Some e \<and> P e e') \<Longrightarrow> sound P (live(k := x)) (rec(k := y))"
  by (auto simp: sound_def)

lemma sound_later: "sound P live (visible t rec) \<Longrightarrow> t \<le> t' \<Longrightarrow> sound P live (visible t' rec)"
  by (auto simp: sound_def visible_Some_iff intro: is_expired_mono)

text \<open>Deadlines that come from one log record are near each other, and not before the replay's clock.\<close>

lemma near_deadlines:
  assumes "from_millis ms \<le> t + ofs" "t + ofs < from_millis ms + lag + 2 * nanos_per_milli"
    and "stamped ofs' lag r r" "duration_until_unix_ms r ms = Some left" "ms \<le> u64_max"
    and "evalue e' = evalue e" "expire_at e = Some t" "expire_at e' = deadline r (Some left)"
  shows "near (lag + 2 * nanos_per_milli) ofs ofs' e e'" and "unix_at r = Some u \<Longrightarrow> u < t + ofs"
proof -
  obtain u' where u': "unix_at r = Some u'"
    using assms(3) by (auto simp: stamped_def split: option.splits)
  note d = reached_deadline [OF assms(3-5) u']
  show "near (lag + 2 * nanos_per_milli) ofs ofs' e e'"
    using assms(1,2,6-8) d(1,2) by (simp add: near_def deadline_def)
  show "u < t + ofs" if "unix_at r = Some u"
    using that u' d(3) assms(1) by simp
qed

text \<open>
  One command: executed on the live store at \<open>c\<close>, stamped at \<open>a\<close> in the log, replayed at \<open>r\<close>. \<open>T\<close> is
  an instant at or after every operation of the live process, and the replay comes after it.
\<close>

definition replayed_at :: "nat \<Rightarrow> nat \<Rightarrow> nat \<Rightarrow> instant \<Rightarrow> clock \<Rightarrow> clock \<Rightarrow> clock \<Rightarrow> bool" where
  "replayed_at ofs ofs' lag T a c r \<longleftrightarrow>
     before c T \<and> stamped ofs lag a c \<and> stamped ofs lag c c \<and> stamped ofs' lag r r \<and> monotonic r \<and>
     (case unix_at r of None \<Rightarrow> False | Some u \<Rightarrow> T + ofs \<le> u)"

lemma replayed_atD:
  assumes "replayed_at ofs ofs' lag T a c r"
  shows "before c T" "stamped ofs lag a c" "stamped ofs lag c c" "stamped ofs' lag r r" "monotonic r"
  using assms by (simp_all add: replayed_at_def)

abbreviation close :: "nat \<Rightarrow> nat \<Rightarrow> nat \<Rightarrow> entry \<Rightarrow> entry \<Rightarrow> bool" where
  "close ofs ofs' lag \<equiv> near (lag + 2 * nanos_per_milli) ofs ofs'"

lemma replay_reading:
  assumes "replayed_at ofs ofs' lag T a c r"
  obtains u where "unix_at r = Some u" "T + ofs \<le> u"
  using assms by (auto simp: replayed_at_def split: option.splits)

text \<open>A relative expiry: the live deadline is fixed at the execution, the logged one at the append.\<close>

lemma relative_deadline:
  assumes at: "replayed_at ofs ofs' lag T a c r" and "current_unix_ms a + as_millis d < u64_max"
    and "duration_until_unix_ms r (expire_at_ms_from_now a d) = Some left"
    and "evalue e' = evalue e" "expire_at e = deadline c (Some d)" "expire_at e' = deadline r (Some left)"
  shows "close ofs ofs' lag e e' \<and> \<not> is_expired e T"
proof -
  obtain u where u: "unix_at r = Some u" "T + ofs \<le> u" by (rule replay_reading [OF at])
  note log = logged_deadline [OF replayed_atD(2) [OF at] assms(2)]
  have t: "from_millis (expire_at_ms_from_now a d) \<le> (op_at c + d) + ofs"
    "(op_at c + d) + ofs < from_millis (expire_at_ms_from_now a d) + lag + 2 * nanos_per_milli"
    using log by linarith+
  have e: "expire_at e = Some (op_at c + d)" using assms(5) by (simp add: deadline_def)
  note near = near_deadlines [OF t replayed_atD(4) [OF at] assms(3) expire_at_ms_from_now_u64 assms(4) e assms(6)]
  show ?thesis using near(1) near(2) [OF u(1)] u(2) by (simp add: is_expired_def e)
qed

text \<open>An absolute expiry: both processes compute what is left from their own readings.\<close>

lemma absolute_deadline:
  assumes at: "replayed_at ofs ofs' lag T a c r" and "ms \<le> u64_max" "duration_until_unix_ms r ms = Some left"
  obtains left_live where "duration_until_unix_ms c ms = Some left_live"
    "\<And>e e'. evalue e' = evalue e \<Longrightarrow> expire_at e = deadline c (Some left_live) \<Longrightarrow>
       expire_at e' = deadline r (Some left) \<Longrightarrow> close ofs ofs' lag e e' \<and> \<not> is_expired e T"
proof -
  obtain u where u: "unix_at r = Some u" "T + ofs \<le> u" by (rule replay_reading [OF at])
  obtain v where v: "unix_at c = Some v" "v \<le> op_at c + ofs"
    using replayed_atD(3) [OF at] by (auto simp: stamped_def split: option.splits)
  have "v \<le> u" using v(2) u(2) beforeD(3) [OF replayed_atD(1) [OF at]] by linarith
  then obtain left_live where left: "duration_until_unix_ms c ms = Some left_live"
    using past_stays_past [OF _ v(1) u(1)] assms(3) by fastforce
  note d = reached_deadline [OF replayed_atD(3) [OF at] left assms(2) v(1)]
  have t: "from_millis ms \<le> (op_at c + left_live) + ofs"
    "(op_at c + left_live) + ofs < from_millis ms + lag + 2 * nanos_per_milli"
    using d(1,2) by linarith+
  show ?thesis
  proof (rule that [OF left])
    fix e e' :: entry
    assume e: "evalue e' = evalue e" "expire_at e = deadline c (Some left_live)"
      "expire_at e' = deadline r (Some left)"
    then have "expire_at e = Some (op_at c + left_live)" by (simp add: deadline_def)
    note near = near_deadlines [OF t replayed_atD(4) [OF at] assms(3,2) e(1) this e(3)]
    show "close ofs ofs' lag e e' \<and> \<not> is_expired e T"
      using near(1) near(2) [OF u(1)] u(2) e(2) by (simp add: is_expired_def deadline_def)
  qed
qed

text \<open>The effect of a logged command on the live store, and of its record on the recovered one.\<close>

lemma fresh_Some: "fresh t e = Some e' \<Longrightarrow> e' = e \<and> \<not> is_expired e t"
  by (simp add: fresh_def split: if_splits)

lemma fresh_unexpired: "\<not> is_expired e t \<Longrightarrow> fresh t e = Some e"
  by (simp add: fresh_def)

lemma visible_earlier: "visible T m k = Some e \<Longrightarrow> t \<le> T \<Longrightarrow> visible t m k = Some e"
  by (auto simp: visible_Some_iff intro: is_expired_mono)

lemma expire_effect:
  assumes sound: "sound P (visible T m) (visible t m')" and le: "t \<le> check_at r k" "check_at r k \<le> t'" "check_at c k \<le> T"
    and P: "\<And>e e'. P e e' \<Longrightarrow> evalue e' = evalue e"
    and new: "\<And>e e' left. y = Some left \<Longrightarrow> evalue e' = evalue e \<Longrightarrow>
      \<exists>left'. x = Some left' \<and>
        P (e\<lparr>expire_at := deadline c (Some left')\<rparr>) (e'\<lparr>expire_at := deadline r (Some left)\<rparr>) \<and>
        \<not> is_expired (e\<lparr>expire_at := deadline c (Some left')\<rparr>) T"
  shows "sound P
    (case visible (check_at c k) m k of None \<Rightarrow> visible T m
     | Some e \<Rightarrow> (case x of None \<Rightarrow> (visible T m)(k := None)
         | Some left \<Rightarrow> (visible T m)(k := fresh T (e\<lparr>expire_at := deadline c (Some left)\<rparr>))))
    (case visible (check_at r k) m' k of None \<Rightarrow> visible t' m'
     | Some e \<Rightarrow> (case y of None \<Rightarrow> (visible t' m')(k := None)
         | Some left \<Rightarrow> (visible t' m')(k := fresh t' (e\<lparr>expire_at := deadline r (Some left)\<rparr>))))"
    (is "sound P ?live ?rec")
  unfolding sound_def
proof (intro allI impI)
  have later: "sound P (visible T m) (visible t' m')"
    by (rule sound_later [OF sound]) (use le in linarith)
  fix j e'
  assume e': "?rec j = Some e'"
  show "\<exists>e. ?live j = Some e \<and> P e e'"
  proof (cases "j = k")
    case False
    then have "?rec j = visible t' m' j" "?live j = visible T m j"
      by (simp_all split: option.splits)
    with e' soundD [OF later] show ?thesis by metis
  next
    case True
    show ?thesis
    proof (cases "visible (check_at r k) m' k")
      case None
      then have "visible t' m' k = None" by (rule visible_gone_stays_gone [OF _ le(2)])
      with None True e' show ?thesis by simp
    next
      case (Some e0)
      then have "visible t m' k = Some e0" by (rule visible_earlier [OF _ le(1)])
      from soundD [OF sound this] obtain e where e: "visible T m k = Some e" "P e e0" by blast
      then have live: "visible (check_at c k) m k = Some e" using visible_earlier [OF _ le(3)] by metis
      show ?thesis
      proof (cases y)
        case None
        with Some True e' show ?thesis by simp
      next
        case y: (Some left)
        have e'_def: "e' = e0\<lparr>expire_at := deadline r (Some left)\<rparr>"
          using e' Some True by (simp add: y fresh_Some)
        from new [OF y P [OF e(2)]] show ?thesis
          using live True by (auto simp: e'_def fresh_unexpired)
      qed
    qed
  qed
qed

lemma not_panicking:
  "sharded_wf h sd \<Longrightarrow> fst (sharded_call h c (Call_set k v e) sd) \<noteq> Panic \<Longrightarrow> representable c e"
  "sharded_wf h sd \<Longrightarrow> fst (sharded_call h c (Call_set_at_ms k v ms) sd) \<noteq> Panic \<Longrightarrow>
     representable c (duration_until_unix_ms c ms)"
  "sharded_wf h sd \<Longrightarrow> fst (sharded_call h c (Call_expire k s) sd) \<noteq> Panic \<Longrightarrow>
     visible (check_at c k) (sharded_map h sd) k \<noteq> None \<Longrightarrow> representable c (Some (from_secs s))"
  "sharded_wf h sd \<Longrightarrow> fst (sharded_call h c (Call_expire_at_ms k ms) sd) \<noteq> Panic \<Longrightarrow>
     visible (check_at c k) (sharded_map h sd) k \<noteq> None \<Longrightarrow> representable c (duration_until_unix_ms c ms)"
  by (auto simp: sharded.set_result sharded.set_at_result sharded.expire_result sharded.expire_at_result
      split: if_splits)

lemmas after_call = sharded.set_visible [simplified] sharded.set_at_visible [simplified]
  sharded.expire_visible [simplified] sharded.expire_at_visible [simplified] sharded.del_visible [simplified]
  sharded.flush_entries [simplified] sharded.get_visible [simplified] sharded.exists_visible [simplified]
  sharded.ttl_visible [simplified] sharded.sweep_visible [simplified]

text \<open>What a call that does not panic leaves for readers from \<open>t\<close> on.\<close>

lemma visible_after_call:
  assumes "sharded_wf h sd" "before c t" "fst (sharded_call h c call sd) \<noteq> Panic"
  shows "visible t (sharded_map h (snd (sharded_call h c call sd))) =
    (case call of
       Call_set k v e \<Rightarrow> (visible t (sharded_map h sd))(k := fresh t (with_expire_at v (deadline c e)))
     | Call_set_at_ms k v ms \<Rightarrow>
         (visible t (sharded_map h sd))(k := (case duration_until_unix_ms c ms of
            None \<Rightarrow> None | Some left \<Rightarrow> fresh t (with_expire_at v (deadline c (Some left)))))
     | Call_del ks \<Rightarrow> (\<lambda>k. if k \<in> set ks then None else visible t (sharded_map h sd) k)
     | Call_expire k s \<Rightarrow>
         (case visible (check_at c k) (sharded_map h sd) k of
            None \<Rightarrow> visible t (sharded_map h sd)
          | Some e \<Rightarrow> (visible t (sharded_map h sd))(k := fresh t (e\<lparr>expire_at := deadline c (Some (from_secs s))\<rparr>)))
     | Call_expire_at_ms k ms \<Rightarrow>
         (case visible (check_at c k) (sharded_map h sd) k of
            None \<Rightarrow> visible t (sharded_map h sd)
          | Some e \<Rightarrow> (case duration_until_unix_ms c ms of
              None \<Rightarrow> (visible t (sharded_map h sd))(k := None)
            | Some left \<Rightarrow> (visible t (sharded_map h sd))(k := fresh t (e\<lparr>expire_at := deadline c (Some left)\<rparr>))))
     | Call_flushdb \<Rightarrow> (\<lambda>_. None)
     | _ \<Rightarrow> visible t (sharded_map h sd))"
proof (cases call)
  case (Call_set k v e)
  with assms not_panicking(1) show ?thesis by (simp add: after_call)
next
  case (Call_set_at_ms k v ms)
  with assms not_panicking(2) show ?thesis by (fastforce simp: after_call split: option.splits)
next
  case (Call_expire k s)
  with assms not_panicking(3) [OF assms(1), of c k s] show ?thesis by (simp add: after_call split: option.splits)
next
  case (Call_expire_at_ms k ms)
  with assms not_panicking(4) [OF assms(1), of c k ms] show ?thesis by (auto simp: after_call split: option.splits)
qed (use assms(1,2) in \<open>simp_all add: after_call\<close>)

lemma sound_step:
  assumes at: "replayed_at ofs ofs' lag T a c r" and wf: "sharded_wf h live" "sharded_wf h' rec"
    and sound: "sound (close ofs ofs' lag) (visible T (sharded_map h live)) (visible t (sharded_map h' rec))"
    and t: "since t r" and cmd: "command_wf cmd" "unsaturated a cmd" "command_args a cmd \<noteq> None"
    and call: "store_call_of cmd = Some call" "fst (sharded_call h c call live) \<noteq> Panic"
    and call': "store_call_of (logged a cmd) = Some call'" "fst (sharded_call h' r call' rec) \<noteq> Panic"
  shows "sound (close ofs ofs' lag) (visible T (sharded_map h (snd (sharded_call h c call live))))
    (visible (op_at r) (sharded_map h' (snd (sharded_call h' r call' rec))))"
proof -
  note clocks = replayed_atD [OF at]
  have now: "before r (op_at r)" by (rule monotonic_before [OF clocks(5)])
  have order: "t \<le> check_at r k" "check_at r k \<le> op_at r" "check_at c k \<le> T" for k
    using sinceD(2) [OF t] clocks(5) beforeD(2) [OF clocks(1)] by (simp_all add: monotonic_def)
  have later: "sound (close ofs ofs' lag) (visible T (sharded_map h live)) (visible (op_at r) (sharded_map h' rec))"
    by (rule sound_later [OF sound sinceD(3) [OF t]])
  note after = visible_after_call [OF wf(1) clocks(1) call(2)] visible_after_call [OF wf(2) now call'(2)]
  have keeps: "close ofs ofs' lag e e' \<Longrightarrow> evalue e' = evalue e" for e e' by (simp add: near_def)
  show ?thesis
  proof (cases cmd)
    case (Set k v e)
    show ?thesis
    proof (cases e)
      case None
      then have calls: "call = Call_set k v None" "call' = Call_set k v None" using call(1) call'(1) Set by simp_all
      show ?thesis
        unfolding after unfolding calls store_call.case
        by (rule sound_upd [OF later]) (auto simp: fresh_def with_expire_at_def near_def deadline_def)
    next
      case (Some d)
      then have calls: "call = Call_set k v (Some d)" "call' = Call_set_at_ms k v (expire_at_ms_from_now a d)"
        using call(1) call'(1) Set by simp_all
      have unsat: "current_unix_ms a + as_millis d < u64_max" using cmd(2) Set Some by simp
      show ?thesis
        unfolding after unfolding calls store_call.case
      proof (rule sound_upd [OF later])
        fix e'
        assume "(case duration_until_unix_ms r (expire_at_ms_from_now a d) of None \<Rightarrow> None
            | Some left \<Rightarrow> fresh (op_at r) (with_expire_at v (deadline r (Some left)))) = Some e'"
        then obtain left where left: "duration_until_unix_ms r (expire_at_ms_from_now a d) = Some left"
            "e' = with_expire_at v (deadline r (Some left))"
          by (auto split: option.splits dest!: fresh_Some)
        from relative_deadline [OF at unsat left(1), of e' "with_expire_at v (deadline c (Some d))"]
        show "\<exists>e. fresh T (with_expire_at v (deadline c (Some d))) = Some e \<and> close ofs ofs' lag e e'"
          by (simp add: left(2) with_expire_at_def fresh_def)
      qed
    qed
  next
    case (SetPxAt k v ms)
    then have calls: "call = Call_set_at_ms k v ms" "call' = Call_set_at_ms k v ms" using call(1) call'(1) by simp_all
    have ms: "ms \<le> u64_max" using cmd(1) SetPxAt by simp
    show ?thesis
      unfolding after unfolding calls store_call.case
    proof (rule sound_upd [OF later])
      fix e'
      assume "(case duration_until_unix_ms r ms of None \<Rightarrow> None
          | Some left \<Rightarrow> fresh (op_at r) (with_expire_at v (deadline r (Some left)))) = Some e'"
      then obtain left where left: "duration_until_unix_ms r ms = Some left"
          "e' = with_expire_at v (deadline r (Some left))"
        by (auto split: option.splits dest!: fresh_Some)
      obtain left' where left': "duration_until_unix_ms c ms = Some left'"
        "\<And>e e'. evalue e' = evalue e \<Longrightarrow> expire_at e = deadline c (Some left') \<Longrightarrow>
           expire_at e' = deadline r (Some left) \<Longrightarrow> close ofs ofs' lag e e' \<and> \<not> is_expired e T"
        by (rule absolute_deadline [OF at ms left(1)]) (rule that; blast)
      from left'(1) left'(2) [of e' "with_expire_at v (deadline c (Some left'))"] show "\<exists>e. (case duration_until_unix_ms c ms of None \<Rightarrow> None
          | Some left \<Rightarrow> fresh T (with_expire_at v (deadline c (Some left)))) = Some e \<and> close ofs ofs' lag e e'"
        by (simp add: left(2) with_expire_at_def fresh_def)
    qed
  next
    case (Del ks)
    then have calls: "call = Call_del ks" "call' = Call_del ks" using call(1) call'(1) by simp_all
    show ?thesis
      unfolding after unfolding calls store_call.case using later by (auto simp: sound_def)
  next
    case (Expire k s)
    then have calls: "call = Call_expire k s" "call' = Call_expire_at_ms k (expire_at_ms_from_now a (from_secs s))"
      using call(1) call'(1) by simp_all
    have unsat: "current_unix_ms a + as_millis (from_secs s) < u64_max" using cmd(2) Expire by simp
    have "sound (close ofs ofs' lag)
      (case visible (check_at c k) (sharded_map h live) k of None \<Rightarrow> visible T (sharded_map h live)
       | Some e \<Rightarrow> (case Some (from_secs s) of None \<Rightarrow> (visible T (sharded_map h live))(k := None)
           | Some left \<Rightarrow> (visible T (sharded_map h live))(k := fresh T (e\<lparr>expire_at := deadline c (Some left)\<rparr>))))
      (case visible (check_at r k) (sharded_map h' rec) k of None \<Rightarrow> visible (op_at r) (sharded_map h' rec)
       | Some e \<Rightarrow> (case duration_until_unix_ms r (expire_at_ms_from_now a (from_secs s)) of
             None \<Rightarrow> (visible (op_at r) (sharded_map h' rec))(k := None)
           | Some left \<Rightarrow> (visible (op_at r) (sharded_map h' rec))(k := fresh (op_at r) (e\<lparr>expire_at := deadline r (Some left)\<rparr>))))"
    proof (rule expire_effect [OF sound order keeps])
      fix e e' :: entry and left
      assume "duration_until_unix_ms r (expire_at_ms_from_now a (from_secs s)) = Some left" "evalue e' = evalue e"
      then show "\<exists>left'. Some (from_secs s) = Some left' \<and>
          close ofs ofs' lag (e\<lparr>expire_at := deadline c (Some left')\<rparr>) (e'\<lparr>expire_at := deadline r (Some left)\<rparr>) \<and>
          \<not> is_expired (e\<lparr>expire_at := deadline c (Some left')\<rparr>) T"
        using relative_deadline [OF at unsat, of left "e'\<lparr>expire_at := deadline r (Some left)\<rparr>"
            "e\<lparr>expire_at := deadline c (Some (from_secs s))\<rparr>"] by simp
    qed
    then show ?thesis unfolding after unfolding calls store_call.case option.case .
  next
    case (ExpireAt k ms)
    then have calls: "call = Call_expire_at_ms k ms" "call' = Call_expire_at_ms k ms"
      using call(1) call'(1) by simp_all
    have ms: "ms \<le> u64_max" using cmd(1) ExpireAt by simp
    show ?thesis
      unfolding after unfolding calls store_call.case
    proof (rule expire_effect [OF sound order keeps])
      fix e e' :: entry and left
      assume left: "duration_until_unix_ms r ms = Some left" "evalue e' = evalue e"
      obtain left' where left': "duration_until_unix_ms c ms = Some left'"
        "\<And>e e'. evalue e' = evalue e \<Longrightarrow> expire_at e = deadline c (Some left') \<Longrightarrow>
           expire_at e' = deadline r (Some left) \<Longrightarrow> close ofs ofs' lag e e' \<and> \<not> is_expired e T"
        by (rule absolute_deadline [OF at ms left(1)]) (rule that; blast)
      from left'(1) left'(2) [of "e'\<lparr>expire_at := deadline r (Some left)\<rparr>" "e\<lparr>expire_at := deadline c (Some left')\<rparr>"]
      show "\<exists>left'. duration_until_unix_ms c ms = Some left' \<and>
          close ofs ofs' lag (e\<lparr>expire_at := deadline c (Some left')\<rparr>) (e'\<lparr>expire_at := deadline r (Some left)\<rparr>) \<and>
          \<not> is_expired (e\<lparr>expire_at := deadline c (Some left')\<rparr>) T"
        by (simp add: left(2))
    qed
  next
    case FlushDb
    then have calls: "call' = Call_flushdb" using call'(1) by simp
    show ?thesis unfolding after(2) unfolding calls store_call.case by (simp add: sound_def)
  qed (use cmd(3) in simp_all)
qed

section \<open>A life of the server and its replay\<close>

text \<open>
  One served command: the readings of its append, those of its execution, the command. The log has
  the commands that write, stamped at their append, in order.
\<close>

type_synonym served = "clock \<times> clock \<times> command"

definition executions :: "served list \<Rightarrow> (clock \<times> command) list" where
  "executions steps = map snd steps"

definition records :: "served list \<Rightarrow> (clock \<times> command) list" where
  "records steps = map (\<lambda>(a, c, cmd). (a, cmd)) (filter (\<lambda>(a, c, cmd). command_args a cmd \<noteq> None) steps)"

fun timeline ::
  "nat \<Rightarrow> nat \<Rightarrow> nat \<Rightarrow> instant \<Rightarrow> (nat \<Rightarrow> clock) \<Rightarrow> nat \<Rightarrow> instant \<Rightarrow> served list \<Rightarrow> instant \<Rightarrow> bool" where
  "timeline ofs ofs' lag T clk i t [] t' \<longleftrightarrow> t \<le> t'"
| "timeline ofs ofs' lag T clk i t ((a, c, cmd) # rest) t' \<longleftrightarrow>
     (if command_args a cmd = None then before c T \<and> timeline ofs ofs' lag T clk i t rest t'
      else replayed_at ofs ofs' lag T a c (clk i) \<and> since t (clk i) \<and> command_wf cmd \<and> unsaturated a cmd \<and>
        timeline ofs ofs' lag T clk (Suc i) (op_at (clk i)) rest t')"

lemma reading_command:
  assumes "command_args a cmd = None" "sharded_wf h sd" "before c T"
  shows "sharded_wf h (fst (snd (execute_command h ly json c cmd sd st))) \<and>
    visible T (sharded_map h (fst (snd (execute_command h ly json c cmd sd st)))) = visible T (sharded_map h sd)"
proof (cases cmd)
  case Info
  then show ?thesis
    using assms sharded_wf_info [OF assms(2), of ly c] sweep_loop_spec [OF assms(2), of "[0..<length (shards sd)]" c 0 T]
    by (simp add: execute_command_def case_prod_beta Let_def sharded_info_snapshot_def info_loop_sweeps)
qed (use assms in \<open>simp_all add: execute_command_def after_call sharded.wf_ops [simplified]\<close>)

lemma executed_call:
  assumes "store_call_of cmd = Some call"
  shows "fst (snd (execute_command h ly json c cmd sd st)) = snd (sharded_call h c call sd)"
    and "fst (execute_command h ly json c cmd sd st) = Panic \<longleftrightarrow> fst (sharded_call h c call sd) = Panic"
  using assms by (cases "fst (sharded_call h c call sd)";
    simp add: execute_command_def run_command_store [OF assms] run_command_reply [OF assms])+

lemma unit_answer: "map_ok (\<lambda>_. ()) (map_err g (map_ok f x)) = map_ok (\<lambda>_. ()) (map_err g x)"
  by (cases x) simp_all

lemma replayed_call:
  assumes "command_args a cmd \<noteq> None" "store_call_of (logged a cmd) = Some call"
  shows "replay_command h r (logged a cmd) sd =
    (map_ok (\<lambda>_. ()) (map_err command_replay_error (fst (sharded_call h r call sd))), snd (sharded_call h r call sd))"
proof (cases cmd)
  case (Set k v e)
  with assms show ?thesis by (cases e) (auto simp: replayed_def unit_answer)
qed (use assms in \<open>auto simp: replayed_def unit_answer\<close>)

lemma writing_call:
  assumes "command_args a cmd \<noteq> None"
  obtains call call' where "store_call_of cmd = Some call" "store_call_of (logged a cmd) = Some call'"
proof (cases cmd)
  case (Set k v e)
  with that show ?thesis by (cases e) simp_all
qed (use assms that in simp_all)

lemma timeline_ends: "timeline ofs ofs' lag T clk i t steps t' \<Longrightarrow> t \<le> t'"
proof (induction steps arbitrary: i t)
  case (Cons step steps)
  obtain a c cmd where "step = (a, c, cmd)" by (cases step)
  with Cons show ?case by (cases "command_args a cmd = None") (force dest: sinceD(3))+
qed simp

text \<open>
  A relation between what the live store shows and the recovered store, at the time the replay has
  reached, that each logged command preserves, holds after the whole life and its replay.
\<close>

lemma timeline_invariant:
  fixes R :: "instant \<Rightarrow> (bytes \<rightharpoonup> entry) \<Rightarrow> sharded \<Rightarrow> bool"
  assumes later: "\<And>t live rec. R t live rec \<Longrightarrow> t \<le> t' \<Longrightarrow> R t' live rec"
    and step: "\<And>a c cmd call call' i t live rec.
      R t (visible T (sharded_map h live)) rec \<Longrightarrow> sharded_wf h live \<Longrightarrow> sharded_wf h' rec \<Longrightarrow>
      replayed_at ofs ofs' lag T a c (clk i) \<Longrightarrow> since t (clk i) \<Longrightarrow> op_at (clk i) \<le> t' \<Longrightarrow>
      P cmd \<Longrightarrow> command_wf cmd \<Longrightarrow> unsaturated a cmd \<Longrightarrow> command_args a cmd \<noteq> None \<Longrightarrow>
      store_call_of cmd = Some call \<Longrightarrow> fst (sharded_call h c call live) \<noteq> Panic \<Longrightarrow>
      store_call_of (logged a cmd) = Some call' \<Longrightarrow> fst (sharded_call h' (clk i) call' rec) \<noteq> Panic \<Longrightarrow>
      R (op_at (clk i)) (visible T (sharded_map h (snd (sharded_call h c call live))))
        (snd (sharded_call h' (clk i) call' rec))"
  shows "timeline ofs ofs' lag T clk i t steps t' \<Longrightarrow> sharded_wf h live \<Longrightarrow> sharded_wf h' rec \<Longrightarrow>
    R t (visible T (sharded_map h live)) rec \<Longrightarrow>
    Panic \<notin> set (fst (run_commands h ly json (executions steps) live st)) \<Longrightarrow>
    replay_all h' clk i (map (\<lambda>(a, cmd). logged a cmd) (records steps)) rec = (Ok (), rec') \<Longrightarrow>
    list_all (\<lambda>(a, c, cmd). P cmd) steps \<Longrightarrow>
    R t' (visible T (sharded_map h (fst (snd (run_commands h ly json (executions steps) live st))))) rec'"
proof (induction steps arbitrary: i t live rec st)
  case Nil
  then show ?case by (simp add: executions_def records_def later)
next
  case (Cons served steps)
  obtain a c cmd where served: "served = (a, c, cmd)" by (cases served)
  let ?run = "execute_command h ly json c cmd live st"
  let ?live = "fst (snd ?run)" and ?st = "snd (snd ?run)"
  have run: "fst (snd (run_commands h ly json (executions (served # steps)) live st)) =
      fst (snd (run_commands h ly json (executions steps) ?live ?st))"
    and fine: "fst ?run \<noteq> Panic" "Panic \<notin> set (fst (run_commands h ly json (executions steps) ?live ?st))"
    using Cons.prems(5) by (auto simp: served executions_def case_prod_beta)
  have P: "P cmd" "list_all (\<lambda>(a, c, cmd). P cmd) steps"
    using Cons.prems(7) by (simp_all add: served)
  show ?case
  proof (cases "command_args a cmd = None")
    case True
    note read = reading_command [OF True Cons.prems(2), of c T ly json st]
    show ?thesis
      unfolding run
      by (rule Cons.IH [where rec = rec and i = i and t = t])
         (use Cons.prems read fine P in \<open>simp_all add: served True records_def\<close>)
  next
    case False
    obtain call call' where call: "store_call_of cmd = Some call" "store_call_of (logged a cmd) = Some call'"
      by (rule writing_call [OF False])
    have time: "replayed_at ofs ofs' lag T a c (clk i)" "since t (clk i)" "command_wf cmd" "unsaturated a cmd"
      "timeline ofs ofs' lag T clk (Suc i) (op_at (clk i)) steps t'"
      using Cons.prems(1) False by (simp_all add: served)
    let ?rec = "snd (sharded_call h' (clk i) call' rec)"
    have replay: "fst (sharded_call h' (clk i) call' rec) \<noteq> Panic"
      "replay_all h' clk (Suc i) (map (\<lambda>(a, cmd). logged a cmd) (records steps)) ?rec = (Ok (), rec')"
      using Cons.prems(6) False
      by (cases "fst (sharded_call h' (clk i) call' rec)";
          simp add: served records_def replayed_call [OF False call(2)])+
    have live: "fst (sharded_call h c call live) \<noteq> Panic" "?live = snd (sharded_call h c call live)"
      using fine(1) by (simp_all add: executed_call [OF call(1)])
    show ?thesis
      unfolding run
    proof (rule Cons.IH [OF time(5) _ _ _ fine(2) replay(2) P(2)])
      show "sharded_wf h ?live" "sharded_wf h' ?rec"
        using Cons.prems(2,3) sharded_wf_call by (simp_all add: live(2))
      show "R (op_at (clk i)) (visible T (sharded_map h ?live)) ?rec"
        unfolding live(2)
        by (rule step [OF Cons.prems(4,2,3) time(1,2) timeline_ends [OF time(5)] P(1) time(3,4) False call(1)
              live(1) call(2) replay(1)])
    qed
  qed
qed

lemma nothing_visible: "visible u (sharded_map g (sharded_new m)) = (\<lambda>_. None)"
  using new_alike [of g u m]
  by (simp add: both.alike_def agree_def db_map_def db_new_def hm.get_empty visible_def fun_eq_iff)

section \<open>What a restart brings back\<close>

text \<open>
  A restart never resurrects and never invents: every entry a reader finds after the replay is an
  entry of the store as the last process left it, still unexpired then, with the same value and
  with no deadline exactly when that one has none; measured in wall-clock time its deadline has
  moved by less than two milliseconds and the lag of the clock readings. This holds for every served
  sequence of commands, whatever the numbers of shards before and after.
\<close>

theorem recovery_sound:
  assumes "timeline ofs ofs' lag T clk 0 t steps t'"
    and "run_commands h ly json (executions steps) (sharded_new n) st = (replies, live, st')" "Panic \<notin> set replies"
    and "replay_all h' clk 0 (map (\<lambda>(a, cmd). logged a cmd) (records steps)) (sharded_new n') = (Ok (), rec)"
    and "visible t' (sharded_map h' rec) k = Some e'"
  shows "\<exists>e. visible T (sharded_map h live) k = Some e \<and> evalue e' = evalue e \<and>
    (case (expire_at e, expire_at e') of
       (None, None) \<Rightarrow> True
     | (Some d, Some d') \<Rightarrow> \<bar>int (d + ofs) - int (d' + ofs')\<bar> < int (lag + 2 * nanos_per_milli)
     | _ \<Rightarrow> False)"
proof -
  let ?R = "\<lambda>t live rec. sound (close ofs ofs' lag) live (visible t (sharded_map h' rec))"
  have "?R t' (visible T (sharded_map h (fst (snd (run_commands h ly json (executions steps) (sharded_new n) st))))) rec"
  proof (rule timeline_invariant [where R = ?R and P = "\<lambda>_. True", OF _ _ assms(1) sharded_new_wf sharded_new_wf _ _ assms(4)])
    show "?R t (visible T (sharded_map h (sharded_new n))) (sharded_new n')"
      by (simp add: nothing_visible sound_def)
  qed ((rule sound_later sound_step; assumption) | simp add: list_all_iff assms(2) assms(3))+
  then have "sound (close ofs ofs' lag) (visible T (sharded_map h live)) (visible t' (sharded_map h' rec))"
    by (simp add: assms(2))
  from soundD [OF this assms(5)] show ?thesis
    using near_iff by blast
qed

text \<open>A sample life: two keys, one extended, the server restarted fifty seconds after the epoch.\<close>

definition at_sec :: "nat \<Rightarrow> clock" where
  "at_sec s = clock_at (from_secs s) (Some (from_secs s)) (from_secs 1000)"

definition sample_steps :: "served list" where
  "sample_steps =
     [(at_sec 0, at_sec 0, Set ''k'' ''v'' (Some (from_secs 10))), (at_sec 1, at_sec 1, Set ''l'' ''w'' (Some (from_secs 90))),
      (at_sec 2, at_sec 2, Get ''l''), (at_sec 5, at_sec 5, Expire ''k'' 100)]"

theorem recovery_sound_witness:
  "\<exists>e. visible (from_secs 5) (sharded_map length (fst (snd (run_commands length sample_layout sample_json
        (executions sample_steps) (sharded_new 2) (stats_new 0))))) ''l'' = Some e \<and> evalue e = ''w''"
proof -
  let ?run = "run_commands length sample_layout sample_json (executions sample_steps) (sharded_new 2) (stats_new 0)"
  let ?rec = "replay_all length (\<lambda>_. at_sec 50) 0 (map (\<lambda>(a, cmd). logged a cmd) (records sample_steps)) (sharded_new 3)"
  have names: "utf8 ''k''" "utf8 ''l''" by code_simp+
  have life: "timeline 0 0 0 (from_secs 5) (\<lambda>_. at_sec 50) 0 0 sample_steps (from_secs 50)"
    by (simp add: sample_steps_def at_sec_def replayed_at_def stamped_def since_def current_unix_ms_def
        from_secs_def from_millis_def as_millis_def nanos_per_sec_def nanos_per_milli_def u64_max_def Let_def
        names del: utf8.simps)
  have "in_time 0 (executions sample_steps)"
    by (simp add: executions_def sample_steps_def at_sec_def since_def from_secs_def)
  then have "fst ?run = reference_run (executions sample_steps) db_new"
    by (rule run_commands_alike [OF new_alike])
  moreover have "Panic \<notin> set (reference_run (executions sample_steps) db_new)" by code_simp
  ultimately have run: "Panic \<notin> set (fst ?run)" by simp
  have parts: "?run = (fst ?run, fst (snd ?run), snd (snd ?run))" by (simp only: prod.collapse)
  have "case ?rec of (res, sd) \<Rightarrow> res = Ok () \<and>
      visible (from_secs 50) (sharded_map length sd) ''l'' = Some (with_expire_at ''w'' (Some (from_secs 91)))"
    by code_simp
  then have rec: "?rec = (Ok (), snd ?rec)"
    "visible (from_secs 50) (sharded_map length (snd ?rec)) ''l'' = Some (with_expire_at ''w'' (Some (from_secs 91)))"
    by (simp_all add: case_prod_beta prod_eq_iff)
  have "\<exists>e. visible (from_secs 5) (sharded_map length (fst (snd ?run))) ''l'' = Some e \<and>
      evalue (with_expire_at ''w'' (Some (from_secs 91))) = evalue e \<and>
      (case (expire_at e, expire_at (with_expire_at ''w'' (Some (from_secs 91)))) of
         (None, None) \<Rightarrow> True
       | (Some d, Some d') \<Rightarrow> \<bar>int (d + 0) - int (d' + 0)\<bar> < int (0 + 2 * nanos_per_milli)
       | _ \<Rightarrow> False)"
    by (rule recovery_sound [OF life parts run rec])
  then show ?thesis by (metis entry.select_convs(1) with_expire_at_def)
qed

text \<open>Without expiry commands nothing that outlives the restart is lost either.\<close>

definition complete :: "(entry \<Rightarrow> bool) \<Rightarrow> (entry \<Rightarrow> entry \<Rightarrow> bool) \<Rightarrow> (bytes \<rightharpoonup> entry) \<Rightarrow> (bytes \<rightharpoonup> entry) \<Rightarrow> bool" where
  "complete D P live rec \<longleftrightarrow> (\<forall>k e. live k = Some e \<and> D e \<longrightarrow> (\<exists>e'. rec k = Some e' \<and> P e e'))"

lemma complete_upd:
  "complete D P live rec \<Longrightarrow> (\<And>e. x = Some e \<Longrightarrow> D e \<Longrightarrow> \<exists>e'. y = Some e' \<and> P e e') \<Longrightarrow>
   complete D P (live(k := x)) (rec(k := y))"
  by (auto simp: complete_def)

text \<open>The deadline of \<open>e\<close>, if it has one, is at or after \<open>w\<close> on the wall clock.\<close>

definition lasts :: "nat \<Rightarrow> nat \<Rightarrow> entry \<Rightarrow> bool" where
  "lasts ofs w e \<longleftrightarrow> (case expire_at e of None \<Rightarrow> True | Some d \<Rightarrow> w \<le> d + ofs)"

abbreviation outlives :: "nat \<Rightarrow> nat \<Rightarrow> nat \<Rightarrow> instant \<Rightarrow> entry \<Rightarrow> bool" where
  "outlives ofs ofs' lag t' \<equiv> lasts ofs (t' + ofs' + lag + 2 * nanos_per_milli)"

lemma still_to_come:
  assumes "stamped ofs' lag r r" "op_at r + ofs' < from_millis ms" "ms \<le> u64_max"
  obtains left where "duration_until_unix_ms r ms = Some left"
proof -
  obtain u where u: "unix_at r = Some u" "u \<le> op_at r + ofs'"
    using assms(1) by (auto simp: stamped_def split: option.splits)
  have "as_millis u < ms"
  proof (rule ccontr)
    assume "\<not> as_millis u < ms"
    then have "from_millis ms \<le> from_millis (as_millis u)" by (simp add: from_millis_def)
    with u(2) assms(2) millis_floor(1) [of u] show False by linarith
  qed
  with u(1) that show ?thesis by (auto simp: duration_until_unix_ms_def Let_def)
qed

lemma recovered_entry:
  assumes "from_millis ms \<le> t + ofs" "t + ofs < from_millis ms + lag + 2 * nanos_per_milli"
    and "stamped ofs' lag r r" "op_at r \<le> t'" "ms \<le> u64_max"
    and "t' + ofs' + lag + 2 * nanos_per_milli \<le> t + ofs" "evalue e = v" "expire_at e = Some t"
  shows "\<exists>e'. (case duration_until_unix_ms r ms of None \<Rightarrow> None
      | Some left \<Rightarrow> fresh t' (with_expire_at v (deadline r (Some left)))) = Some e' \<and> close ofs ofs' lag e e'"
proof -
  have "op_at r + ofs' < from_millis ms" using assms(2,4,6) by linarith
  then obtain left where left: "duration_until_unix_ms r ms = Some left"
    by (rule still_to_come [OF assms(3) _ assms(5)])
  have near: "close ofs ofs' lag e (with_expire_at v (deadline r (Some left)))"
    by (rule near_deadlines [OF assms(1-3) left assms(5) _ assms(8)]) (simp_all add: with_expire_at_def assms(7))
  then have "\<not> is_expired (with_expire_at v (deadline r (Some left))) t'"
    using assms(6,8) by (auto simp: near_def is_expired_def with_expire_at_def deadline_def)
  with near left show ?thesis by (simp add: fresh_def)
qed

fun is_expiry :: "command \<Rightarrow> bool" where
  "is_expiry (Expire k s) = True"
| "is_expiry (ExpireAt k ms) = True"
| "is_expiry cmd = False"

lemma complete_step:
  assumes at: "replayed_at ofs ofs' lag T a c r" and wf: "sharded_wf h live" "sharded_wf h' rec"
    and complete: "complete (outlives ofs ofs' lag t') (close ofs ofs' lag)
      (visible T (sharded_map h live)) (visible t' (sharded_map h' rec))"
    and t: "op_at r \<le> t'" and cmd: "command_wf cmd" "unsaturated a cmd" "command_args a cmd \<noteq> None" "\<not> is_expiry cmd"
    and call: "store_call_of cmd = Some call" "fst (sharded_call h c call live) \<noteq> Panic"
    and call': "store_call_of (logged a cmd) = Some call'" "fst (sharded_call h' r call' rec) \<noteq> Panic"
  shows "complete (outlives ofs ofs' lag t') (close ofs ofs' lag)
    (visible T (sharded_map h (snd (sharded_call h c call live))))
    (visible t' (sharded_map h' (snd (sharded_call h' r call' rec))))"
proof -
  note clocks = replayed_atD [OF at]
  have now: "before r t'" by (rule before_mono [OF monotonic_before [OF clocks(5)] t])
  note after = visible_after_call [OF wf(1) clocks(1) call(2)] visible_after_call [OF wf(2) now call'(2)]
  show ?thesis
  proof (cases cmd)
    case (Set k v e)
    show ?thesis
    proof (cases e)
      case None
      then have calls: "call = Call_set k v None" "call' = Call_set k v None" using call(1) call'(1) Set by simp_all
      show ?thesis
        unfolding after unfolding calls store_call.case
        by (rule complete_upd [OF complete]) (auto simp: fresh_def with_expire_at_def near_def deadline_def is_expired_def)
    next
      case (Some d)
      then have calls: "call = Call_set k v (Some d)" "call' = Call_set_at_ms k v (expire_at_ms_from_now a d)"
        using call(1) call'(1) Set by simp_all
      have unsat: "current_unix_ms a + as_millis d < u64_max" using cmd(2) Set Some by simp
      note log = logged_deadline [OF clocks(2) unsat]
      show ?thesis
        unfolding after unfolding calls store_call.case
      proof (rule complete_upd [OF complete])
        fix e
        assume "fresh T (with_expire_at v (deadline c (Some d))) = Some e" "outlives ofs ofs' lag t' e"
        then have e: "evalue e = v" "expire_at e = Some (op_at c + d)"
            "t' + ofs' + lag + 2 * nanos_per_milli \<le> (op_at c + d) + ofs"
          by (auto dest!: fresh_Some simp: with_expire_at_def deadline_def lasts_def)
        have bounds: "from_millis (expire_at_ms_from_now a d) \<le> (op_at c + d) + ofs"
          "(op_at c + d) + ofs < from_millis (expire_at_ms_from_now a d) + lag + 2 * nanos_per_milli"
          using log by linarith+
        show "\<exists>e'. (case duration_until_unix_ms r (expire_at_ms_from_now a d) of None \<Rightarrow> None
            | Some left \<Rightarrow> fresh t' (with_expire_at v (deadline r (Some left)))) = Some e' \<and> close ofs ofs' lag e e'"
          by (rule recovered_entry [OF bounds clocks(4) t expire_at_ms_from_now_u64 e(3,1,2)])
      qed
    qed
  next
    case (SetPxAt k v ms)
    then have calls: "call = Call_set_at_ms k v ms" "call' = Call_set_at_ms k v ms" using call(1) call'(1) by simp_all
    have ms: "ms \<le> u64_max" using cmd(1) SetPxAt by simp
    obtain v0 where v0: "unix_at c = Some v0" using clocks(3) by (auto simp: stamped_def split: option.splits)
    show ?thesis
      unfolding after unfolding calls store_call.case
    proof (rule complete_upd [OF complete])
      fix e
      assume "(case duration_until_unix_ms c ms of None \<Rightarrow> None
          | Some left \<Rightarrow> fresh T (with_expire_at v (deadline c (Some left)))) = Some e"
        and out: "outlives ofs ofs' lag t' e"
      then obtain left where left: "duration_until_unix_ms c ms = Some left" "e = with_expire_at v (deadline c (Some left))"
        by (auto split: option.splits dest!: fresh_Some)
      note d = reached_deadline [OF clocks(3) left(1) ms v0]
      have bounds: "from_millis ms \<le> (op_at c + left) + ofs"
        "(op_at c + left) + ofs < from_millis ms + lag + 2 * nanos_per_milli"
        using d(1,2) by linarith+
      show "\<exists>e'. (case duration_until_unix_ms r ms of None \<Rightarrow> None
          | Some left \<Rightarrow> fresh t' (with_expire_at v (deadline r (Some left)))) = Some e' \<and> close ofs ofs' lag e e'"
        by (rule recovered_entry [OF bounds clocks(4) t ms])
           (use out in \<open>simp_all add: left(2) with_expire_at_def deadline_def lasts_def\<close>)
    qed
  next
    case (Del ks)
    then have calls: "call = Call_del ks" "call' = Call_del ks" using call(1) call'(1) by simp_all
    show ?thesis
      unfolding after unfolding calls store_call.case using complete by (auto simp: complete_def)
  next
    case FlushDb
    then have calls: "call = Call_flushdb" using call(1) by simp
    show ?thesis unfolding after(1) unfolding calls store_call.case by (simp add: complete_def)
  qed (use cmd(3,4) in simp_all)
qed

text \<open>
  When no command changes the deadline of an existing key (no \<open>EXPIRE\<close>, no \<open>EXPIREAT\<close>), a restart
  loses nothing either: every entry of the live store without a deadline, or with one that lies beyond
  the end of the replay by two milliseconds and the lag of the clock readings, is found after it, with
  its value and a deadline moved by less than that.
\<close>

theorem recovery_complete:
  assumes "timeline ofs ofs' lag T clk 0 t steps t'" "list_all (\<lambda>(a, c, cmd). \<not> is_expiry cmd) steps"
    and "run_commands h ly json (executions steps) (sharded_new n) st = (replies, live, st')" "Panic \<notin> set replies"
    and "replay_all h' clk 0 (map (\<lambda>(a, cmd). logged a cmd) (records steps)) (sharded_new n') = (Ok (), rec)"
    and "visible T (sharded_map h live) k = Some e" "outlives ofs ofs' lag t' e"
  shows "\<exists>e'. visible t' (sharded_map h' rec) k = Some e' \<and> evalue e' = evalue e \<and>
    (case (expire_at e, expire_at e') of
       (None, None) \<Rightarrow> True
     | (Some d, Some d') \<Rightarrow> \<bar>int (d + ofs) - int (d' + ofs')\<bar> < int (lag + 2 * nanos_per_milli)
     | _ \<Rightarrow> False)"
proof -
  let ?R = "\<lambda>t live rec. complete (outlives ofs ofs' lag t') (close ofs ofs' lag) live (visible t' (sharded_map h' rec))"
  have "?R t' (visible T (sharded_map h (fst (snd (run_commands h ly json (executions steps) (sharded_new n) st))))) rec"
  proof (rule timeline_invariant [where R = ?R and P = "\<lambda>cmd. \<not> is_expiry cmd",
        OF _ _ assms(1) sharded_new_wf sharded_new_wf _ _ assms(5)])
    show "?R t (visible T (sharded_map h (sharded_new n))) (sharded_new n')"
      by (simp add: nothing_visible complete_def)
  qed ((rule complete_step; assumption) | simp add: assms(2) assms(3) assms(4))+
  then have "complete (outlives ofs ofs' lag t') (close ofs ofs' lag)
      (visible T (sharded_map h live)) (visible t' (sharded_map h' rec))"
    by (simp add: assms(3))
  then show ?thesis
    using assms(6,7) near_iff unfolding complete_def by blast
qed

theorem recovery_complete_witness:
  "\<exists>e'. visible (from_secs 50) (sharded_map length (snd (replay_all length (\<lambda>_. at_sec 50) 0
      (map (\<lambda>(a, cmd). logged a cmd) (records (take 3 sample_steps))) (sharded_new 3)))) ''l'' = Some e' \<and> evalue e' = ''w''"
proof -
  let ?steps = "take 3 sample_steps"
  let ?run = "run_commands length sample_layout sample_json (executions ?steps) (sharded_new 2) (stats_new 0)"
  let ?rec = "replay_all length (\<lambda>_. at_sec 50) 0 (map (\<lambda>(a, cmd). logged a cmd) (records ?steps)) (sharded_new 3)"
  have names: "utf8 ''k''" "utf8 ''l''" by code_simp+
  have life: "timeline 0 0 0 (from_secs 5) (\<lambda>_. at_sec 50) 0 0 ?steps (from_secs 50)"
    by (simp add: sample_steps_def at_sec_def replayed_at_def stamped_def since_def current_unix_ms_def
        from_secs_def from_millis_def as_millis_def nanos_per_sec_def nanos_per_milli_def u64_max_def Let_def
        names del: utf8.simps)
  have plain: "list_all (\<lambda>(a, c, cmd). \<not> is_expiry cmd) ?steps" by (simp add: sample_steps_def)
  have "in_time 0 (executions ?steps)"
    by (simp add: executions_def sample_steps_def at_sec_def since_def from_secs_def)
  then have "fst ?run = reference_run (executions ?steps) db_new"
    by (rule run_commands_alike [OF new_alike])
  moreover have "Panic \<notin> set (reference_run (executions ?steps) db_new)" by code_simp
  ultimately have run: "Panic \<notin> set (fst ?run)" by simp
  have parts: "?run = (fst ?run, fst (snd ?run), snd (snd ?run))" by (simp only: prod.collapse)
  have "fst ?rec = Ok ()" by code_simp
  then have rec: "?rec = (Ok (), snd ?rec)" by (metis prod.collapse)
  have live: "visible (from_secs 5) (sharded_map length (fst (snd ?run))) ''l'' =
      Some (with_expire_at ''w'' (Some (from_secs 91)))" by code_simp
  have lasting: "outlives 0 0 0 (from_secs 50) (with_expire_at ''w'' (Some (from_secs 91)))" by code_simp
  from recovery_complete [OF life plain parts run rec live lasting] show ?thesis
    by (metis entry.select_convs(1) with_expire_at_def)
qed

text \<open>
  C23: With an expiry command a live key can be lost: a key set with a deadline, extended by \<open>EXPIRE\<close>
  before that deadline and still alive, is gone after a restart that comes later than the
  \<^emph>\<open>first\<close> deadline: replaying the \<open>SET\<close> record drops the key, so the \<open>EXPIREAT\<close> record after it finds
  nothing to extend. The replay itself reports success.
\<close>

theorem extended_key_lost:
  assumes "representable cs (Some d)" "representable ce (Some (from_secs s))"
    and "before cs (check_at ce k)" "check_at ce k < op_at cs + d"
    and "before ce T" "before cs T" "T < op_at ce + from_secs s"
    and "duration_until_unix_ms (clk 0) (expire_at_ms_from_now ls d) = None"
    and "before (clk 0) (check_at (clk 1) k)" "before (clk 0) t" "before (clk 1) t"
  shows "visible T (sharded_map h (fst (snd (run_commands h ly json
        [(cs, Set k v (Some d)), (ce, Expire k s)] (sharded_new n) st)))) k =
      Some (with_expire_at v (Some (op_at ce + from_secs s))) \<and>
    fst (replay_all h' clk 0 [logged ls (Set k v (Some d)), logged le (Expire k s)] (sharded_new n')) = Ok () \<and>
    visible t (sharded_map h' (snd (replay_all h' clk 0
        [logged ls (Set k v (Some d)), logged le (Expire k s)] (sharded_new n')))) k = None"
proof -
  let ?P1 = "expire_at_ms_from_now ls d" and ?P2 = "expire_at_ms_from_now le (from_secs s)"
  let ?sd1 = "snd (flat (sharded_set h cs k v (Some d) (sharded_new n)))"
  let ?rd1 = "snd (flat (sharded_set_at_ms h' (clk 0) k v ?P1 (sharded_new n')))"
  have wf: "sharded_wf h ?sd1" "sharded_wf h' ?rd1"
    using sharded.wf_ops(1) sharded.wf_at_ops(1) sharded_new_wf by blast+
  have set: "visible u (sharded_map h ?sd1) k = fresh u (with_expire_at v (Some (op_at cs + d)))" if "before cs u" for u
    using assms(1) that by (simp add: after_call sharded_new_wf deadline_def)
  have found: "visible (check_at ce k) (sharded_map h ?sd1) k = Some (with_expire_at v (Some (op_at cs + d)))"
    using set [OF assms(3)] assms(4) by (simp add: fresh_def is_expired_def with_expire_at_def)
  have live: "visible T (sharded_map h (snd (flat (sharded_expire h ce k s ?sd1)))) k =
      Some (with_expire_at v (Some (op_at ce + from_secs s)))"
    using sharded.expire_visible [OF wf(1) assms(5), of k s] assms(2,7)
    by (simp add: found del: snd_flat) (simp add: fresh_def is_expired_def with_expire_at_def deadline_def)
  have dropped: "visible u (sharded_map h' ?rd1) k = None" if "before (clk 0) u" for u
    using assms(8) that by (simp add: after_call sharded_new_wf)
  have missing: "visible t (sharded_map h' (snd (flat (sharded_expire_at_ms h' (clk 1) k ?P2 ?rd1)))) k = None"
    using sharded.expire_at_visible [OF wf(2) assms(11), of k ?P2] dropped [OF assms(9)] dropped [OF assms(10)] by simp
  have fine: "fst (flat (sharded_set_at_ms h' (clk 0) k v ?P1 (sharded_new n'))) = Ok ()"
    "fst (flat (sharded_expire_at_ms h' (clk 1) k ?P2 ?rd1)) = Ok False"
    using sharded.set_at_result [OF sharded_new_wf] sharded.expire_at_result [OF wf(2)] assms(8) dropped [OF assms(9)]
    by (simp_all add: representable_def)
  show ?thesis
    using live missing fine by (simp add: execute_command_def case_prod_beta replayed_def)
qed

theorem extended_key_lost_witness:
  "let log = [logged (at_sec 0) (Set ''k'' ''v'' (Some (from_secs 10))), logged (at_sec 5) (Expire ''k'' 100)]
   in visible (from_secs 50) (sharded_map length (fst (snd (run_commands length sample_layout sample_json
          [(at_sec 0, Set ''k'' ''v'' (Some (from_secs 10))), (at_sec 5, Expire ''k'' 100)] (sharded_new 2) (stats_new 0)))))
        ''k'' = Some (with_expire_at ''v'' (Some (from_secs 105))) \<and>
      visible (from_secs 50) (sharded_map length (snd (replay_all length (\<lambda>_. at_sec 50) 0 log (sharded_new 2)))) ''k'' = None"
  using extended_key_lost [where cs = "at_sec 0" and ce = "at_sec 5" and d = "from_secs 10" and s = 100
      and T = "from_secs 50" and t = "from_secs 50" and clk = "\<lambda>_. at_sec 50" and ls = "at_sec 0"
      and le = "at_sec 5" and k = "''k''" and v = "''v''" and h = length and h' = length and n = 2 and n' = 2
      and ly = sample_layout and json = sample_json and st = "stats_new 0"]
  by (simp add: at_sec_def representable_def from_secs_def expire_at_ms_from_now_def duration_until_unix_ms_def
      as_millis_def nanos_per_sec_def nanos_per_milli_def u64_max_def Let_def
      del: run_commands.simps replay_all.simps logged.simps)

end
