(* ===== verification/Frame_Reader.thy ===== *)
theory Frame_Reader
  imports Framing Kv_Error
begin

text \<open>
  Reading frames off a TCP stream. The server's connection and the four clients have the same loop:
  parse the buffer, and while the frame is incomplete read more bytes into it. \<open>tcp\<close> is what the loop
  sees of \<open>tokio::net::TcpStream\<close>; the locale \<open>frame_loop\<close> is the contract of such a loop, and its
  facts say what every loop that keeps it delivers, however TCP has cut the stream.
\<close>

text \<open>
  The reads to come, in order; when the list is used up the peer is silent and the read waits.
  A read that returns no bytes is the end of the stream. Writes may fail after some bytes.
\<close>

datatype recv = Recv bytes | Closed | Recv_error io_error

record tcp =
  inbox :: "recv list"
  outbox :: bytes
  send_faults :: "(io_error \<times> nat) option list"

definition tcp_send :: "bytes \<Rightarrow> tcp \<Rightarrow> (io_error, unit) result \<times> tcp" where
  "tcp_send bs s =
     (case send_faults s of
        [] \<Rightarrow> (Ok (), s\<lparr>outbox := outbox s @ bs\<rparr>)
      | None # fs \<Rightarrow> (Ok (), s\<lparr>outbox := outbox s @ bs, send_faults := fs\<rparr>)
      | Some (e, n) # fs \<Rightarrow> (Err e, s\<lparr>outbox := outbox s @ take n bs, send_faults := fs\<rparr>))"

text \<open>\<open>write_all\<close> and \<open>flush\<close> after one another, as every writer of the program has them.\<close>

definition write_and_flush :: "bytes \<Rightarrow> tcp \<Rightarrow> (io_error, unit) result \<times> tcp" where
  "write_and_flush bs s =
     (case tcp_send bs s of
        (Ok _, s') \<Rightarrow> tcp_send [] s'
      | (Err e, s') \<Rightarrow> (Err e, s')
      | (Panic, s') \<Rightarrow> (Panic, s'))"

lemma write_and_flush_granted [simp]:
  "send_faults s = [] \<Longrightarrow> write_and_flush bs s = (Ok (), s\<lparr>outbox := outbox s @ bs\<rparr>)"
  by (simp add: write_and_flush_def tcp_send_def)

text \<open>
  The contract: \<open>loop buf reads\<close> finishes as \<open>finish\<close> says when the buffer starts with a frame, and reads
  on while it does not; \<open>room\<close> says which buffers it is willing to hold.
\<close>

locale frame_loop = framing dec incomplete
  for dec :: "bytes \<Rightarrow> ('e, 'v \<times> nat) result" and incomplete :: 'e +
  fixes room :: "bytes \<Rightarrow> bool"
    and finish :: "'v \<Rightarrow> nat \<Rightarrow> bytes \<Rightarrow> recv list \<Rightarrow> 'r"
    and loop :: "bytes \<Rightarrow> recv list \<Rightarrow> 'r"
  assumes room_prefix: "room (a @ b) \<Longrightarrow> room a"
    and loop_done: "dec buf = Ok (v, n) \<Longrightarrow> loop buf rs = finish v n buf rs"
    and loop_more: "dec buf = Err incomplete \<Longrightarrow> bs \<noteq> [] \<Longrightarrow> room (buf @ bs) \<Longrightarrow>
      loop buf (Recv bs # rs) = loop (buf @ bs) rs"
begin

text \<open>
  A frame \<open>w\<close> that starts the stream is delivered whatever the chunks; buffer and unread chunks still
  are the same stream.
\<close>

lemma delivers:
  assumes "dec w = Ok (v, length w)" "buf @ concat chunks = w @ rest" "[] \<notin> set chunks" "room (buf @ concat chunks)"
  obtains buf' chunks' where
    "loop buf (map Recv chunks @ rs) = finish v (length w) (w @ buf') (map Recv chunks' @ rs)"
    "buf' @ concat chunks' = rest" "[] \<notin> set chunks'"
  using assms(2-4)
proof (induction chunks arbitrary: buf thesis)
  case Nil
  have "dec (w @ rest) = Ok (v, length w)" by (rule ignores_rest [OF assms(1)])
  then show ?case using Nil(1) [of rest "[]"] Nil(2) loop_done by simp
next
  case (Cons bs chunks)
  show ?case
  proof (cases "length w \<le> length buf")
    case True
    then obtain buf' where buf: "buf = w @ buf'"
      using Cons.prems(2) by (auto simp: append_eq_append_conv2)
    have "dec buf = Ok (v, length w)" unfolding buf by (rule ignores_rest [OF assms(1)])
    then show ?thesis
      using Cons.prems loop_done by (intro Cons.prems(1) [of buf' "bs # chunks"]) (simp_all add: buf)
  next
    case False
    then have "buf = take (length buf) w"
      using Cons.prems(2) by (metis append_eq_append_conv_if linorder_not_le nat_le_linear take_all)
    then have "dec buf = Err incomplete"
      using prefix_incomplete [OF assms(1), of "length buf"] False by simp
    moreover have "bs \<noteq> []" "room (buf @ bs)"
      using Cons.prems(3,4) room_prefix [of "buf @ bs" "concat chunks"] by auto
    ultimately have "loop buf (map Recv (bs # chunks) @ rs) = loop (buf @ bs) (map Recv chunks @ rs)"
      by (simp add: loop_more)
    note more = this
    show ?thesis
      by (rule Cons.IH [where buf = "buf @ bs"]) (use Cons.prems more in auto)
  qed
qed

text \<open>While the frame is incomplete, the loop's progress does not depend on the reads still to come.\<close>

lemma absorbs:
  assumes "dec (buf @ concat chunks) = Err incomplete" "[] \<notin> set chunks" "room (buf @ concat chunks)"
  shows "loop buf (map Recv chunks @ rs) = loop (buf @ concat chunks) rs"
  using assms
proof (induction chunks arbitrary: buf)
  case (Cons bs chunks)
  have "dec buf = Err incomplete"
    using more_input [of buf "bs @ concat chunks"] Cons.prems(1) by auto
  moreover have "bs \<noteq> []" "room (buf @ bs)"
    using Cons.prems(2,3) room_prefix [of "buf @ bs" "concat chunks"] by auto
  ultimately show ?case
    using Cons.IH [of "buf @ bs"] Cons.prems by (simp add: loop_more)
qed simp

end

end
