(* ===== verification/Connection.thy ===== *)
theory Connection
  imports Wire Frame_Reader
begin

text \<open>
  \<open>rustkv-server/src/connection.rs\<close>: the connection of one client. \<open>read_value\<close> returns the bytes of
  the next frame, nothing at a clean end of the stream, or an error; \<open>None\<close> as the result of the model is
  a read that still waits, with the bytes read so far in the buffer.
\<close>

record connection =
  conn_stream :: tcp
  conn_buffer :: bytes
  conn_max_frame_size :: nat

definition connection_new :: "tcp \<Rightarrow> nat \<Rightarrow> connection" where
  "connection_new s m = \<lparr>conn_stream = s, conn_buffer = [], conn_max_frame_size = m\<rparr>"

definition too_large :: io_error where
  "too_large = IoError InvalidData ''request exceeds maximum frame size: frame too large''"

definition cut_off :: io_error where
  "cut_off = IoError UnexpectedEof ''connection closed with an incomplete RESP frame''"

type_synonym read_outcome = "(io_error, bytes option) result option \<times> bytes \<times> recv list"

text \<open>
  The loop of \<open>read_value\<close>, over the buffer and the reads to come. \<open>split_to\<close> takes the frame off the
  conn_buffer only after it has been measured.
\<close>

fun read_loop :: "limits \<Rightarrow> nat \<Rightarrow> bytes \<Rightarrow> recv list \<Rightarrow> read_outcome" where
  "read_loop lim m buf rs =
     (case parse_resp lim buf of
        Ok (frame, consumed) \<Rightarrow>
          if m < consumed then (Some (Err too_large), buf, rs)
          else (Some (Ok (Some (take consumed buf))), drop consumed buf, rs)
      | Panic \<Rightarrow> (Some Panic, buf, rs)
      | Err e \<Rightarrow>
          if e \<noteq> Incomplete
          then (Some (Err (IoError InvalidData (''invalid RESP frame: '' @ show_protocol_error e))), buf, rs)
          else if m < length buf then (Some (Err too_large), buf, rs)
          else case rs of
            [] \<Rightarrow> (None, buf, [])
          | Recv_error e # rs \<Rightarrow> (Some (Err e), buf, rs)
          | Closed # rs \<Rightarrow> (if buf = [] then Some (Ok None) else Some (Err cut_off), buf, rs)
          | Recv bs # rs \<Rightarrow>
              if bs = [] then (if buf = [] then Some (Ok None) else Some (Err cut_off), buf, rs)
              else if m < length (buf @ bs) then (Some (Err too_large), buf @ bs, rs)
              else read_loop lim m (buf @ bs) rs)"

definition read_value :: "limits \<Rightarrow> connection \<Rightarrow> (io_error, bytes option) result option \<times> connection" where
  "read_value lim conn =
     (let (res, buf, rs) = read_loop lim (conn_max_frame_size conn) (conn_buffer conn) (inbox (conn_stream conn))
      in (res, conn\<lparr>conn_buffer := buf, conn_stream := (conn_stream conn)\<lparr>inbox := rs\<rparr>\<rparr>))"

definition write_value :: "resp_value \<Rightarrow> connection \<Rightarrow> (io_error, unit) result \<times> connection" where
  "write_value v conn =
     (let bytes = encode_resp v; (res, s) = write_and_flush bytes (conn_stream conn) in (res, conn\<lparr>conn_stream := s\<rparr>))"

declare read_loop.simps [simp del]

text \<open>The server's loop keeps the contract of \<open>frame_loop\<close> for buffers up to the limit.\<close>

interpretation server_reader: frame_loop "parse_resp lim" Incomplete "\<lambda>buf. length buf \<le> m"
  "\<lambda>v n buf rs. if m < n then (Some (Err too_large), buf, rs) else (Some (Ok (Some (take n buf))), drop n buf, rs)"
  "read_loop lim m"
  for lim m
proof unfold_locales
  show "read_loop lim m buf rs =
      (if m < n then (Some (Err too_large), buf, rs) else (Some (Ok (Some (take n buf))), drop n buf, rs))"
    if "parse_resp lim buf = Ok (v, n)" for buf rs v n
    using that by (simp add: read_loop.simps)
  show "read_loop lim m buf (Recv bs # rs) = read_loop lim m (buf @ bs) rs"
    if "parse_resp lim buf = Err Incomplete" "bs \<noteq> []" "length (buf @ bs) \<le> m" for buf bs rs
    using that by (subst read_loop.simps) simp
qed simp

lemma empty_incomplete: "0 < max_depth lim \<Longrightarrow> parse_resp lim [] = Err Incomplete"
  by (cases "max_depth lim") (simp_all add: parse_resp_def parse_value.simps read_byte_def)

lemma read_value_eq:
  "read_loop lim (conn_max_frame_size conn) (conn_buffer conn) (inbox (conn_stream conn)) = (res, buf, rs) \<Longrightarrow>
     read_value lim conn = (res, conn\<lparr>conn_buffer := buf, conn_stream := (conn_stream conn)\<lparr>inbox := rs\<rparr>\<rparr>)"
  by (simp add: read_value_def)

section \<open>What a server reads\<close>

text \<open>
  One round of the loop: what the buffer alone settles (nothing when more bytes are needed), and what
  a read makes of the buffer (the buffer to go on with, or the end).
\<close>

definition settled :: "limits \<Rightarrow> nat \<Rightarrow> bytes \<Rightarrow> ((io_error, bytes option) result \<times> bytes) option" where
  "settled lim m buf =
     (case parse_resp lim buf of
        Ok (frame, consumed) \<Rightarrow>
          Some (if m < consumed then (Err too_large, buf) else (Ok (Some (take consumed buf)), drop consumed buf))
      | Panic \<Rightarrow> Some (Panic, buf)
      | Err e \<Rightarrow>
          if e \<noteq> Incomplete
          then Some (Err (IoError InvalidData (''invalid RESP frame: '' @ show_protocol_error e)), buf)
          else if m < length buf then Some (Err too_large, buf) else None)"

definition arrives :: "nat \<Rightarrow> bytes \<Rightarrow> recv \<Rightarrow> bytes + (io_error, bytes option) result \<times> bytes" where
  "arrives m buf r =
     (let ending = Inr (if buf = [] then Ok None else Err cut_off, buf)
      in case r of
           Recv_error e \<Rightarrow> Inr (Err e, buf)
         | Closed \<Rightarrow> ending
         | Recv bs \<Rightarrow>
             if bs = [] then ending
             else if m < length (buf @ bs) then Inr (Err too_large, buf @ bs) else Inl (buf @ bs))"

lemma read_loop_round:
  "read_loop lim m buf rs =
     (case settled lim m buf of
        Some (res, buf') \<Rightarrow> (Some res, buf', rs)
      | None \<Rightarrow>
          (case rs of
             [] \<Rightarrow> (None, buf, [])
           | r # rs \<Rightarrow>
               (case arrives m buf r of
                  Inl buf' \<Rightarrow> read_loop lim m buf' rs
                | Inr (res, buf') \<Rightarrow> (Some res, buf', rs))))"
  by (subst read_loop.simps) (auto simp: settled_def arrives_def Let_def split: result.split list.split recv.split)

lemma arrives_bound: "arrives m buf r = Inl buf' \<Longrightarrow> length buf' \<le> m"
  "arrives m buf r = Inr (Ok x, buf') \<Longrightarrow> x = None \<and> buf' = buf"
  by (auto simp: arrives_def Let_def split: recv.splits if_splits)

lemma settled_frame:
  assumes "settled lim m buf = Some (Ok x, buf')"
  obtains v frame where "x = Some frame" "buf = frame @ buf'" "length frame \<le> m" "parse_resp lim frame = Ok (v, length frame)"
proof -
  from assms obtain v n where v: "parse_resp lim buf = Ok (v, n)" "n \<le> m" "x = Some (take n buf)" "buf' = drop n buf"
    by (auto simp: settled_def split: result.splits if_splits)
  from resp.consumes [OF v(1)] resp.only_consumed [OF v(1)] v show ?thesis
    by (intro that [of "take n buf" v]) simp_all
qed

text \<open>What the loop has already settled stays settled when the peer sends more.\<close>

lemma read_loop_later:
  "(fst (read_loop lim m buf rs) \<noteq> None \<longrightarrow>
      read_loop lim m buf (rs @ later) =
        (fst (read_loop lim m buf rs), fst (snd (read_loop lim m buf rs)), snd (snd (read_loop lim m buf rs)) @ later)) \<and>
   (fst (read_loop lim m buf rs) = None \<longrightarrow>
      snd (snd (read_loop lim m buf rs)) = [] \<and>
      read_loop lim m buf (rs @ later) = read_loop lim m (fst (snd (read_loop lim m buf rs))) later)"
proof (induction rs arbitrary: buf)
  case Nil
  show ?case
    by (simp add: read_loop_round [of lim m buf "[]"] read_loop_round [of lim m buf later] split: option.split)
next
  case (Cons r rs)
  show ?case
    using Cons.IH
    by (simp add: read_loop_round [of lim m buf "r # rs"] read_loop_round [of lim m buf "r # rs @ later"]
        split: option.split sum.split)
qed

text \<open>What a read leaves in memory, and what it returns.\<close>

lemma read_loop_bounds:
  assumes "read_loop lim m buf rs = (res, buf', rs')" "length buf \<le> m"
  shows "(res = None \<or> (\<exists>x. res = Some (Ok x)) \<longrightarrow> length buf' \<le> m) \<and>
    (\<forall>frame. res = Some (Ok (Some frame)) \<longrightarrow> length frame \<le> m \<and> (\<exists>v. parse_resp lim frame = Ok (v, length frame)))"
  using assms
proof (induction rs arbitrary: buf)
  case Nil
  then show ?case
    by (auto simp: read_loop_round [of lim m buf] split: option.splits elim!: settled_frame)
next
  case (Cons r rs)
  then show ?case
    by (auto simp: read_loop_round [of lim m buf] split: option.splits sum.splits
        elim!: settled_frame dest: arrives_bound)
qed

lemma read_value_delivers:
  assumes "encodable lim v" "conn_buffer conn @ concat chunks = encode_resp v @ rest" "[] \<notin> set chunks"
    and "inbox (conn_stream conn) = map Recv chunks @ rs" "length (encode_resp v @ rest) \<le> conn_max_frame_size conn"
  obtains conn' chunks' where "read_value lim conn = (Some (Ok (Some (encode_resp v))), conn')"
    "conn_buffer conn' @ concat chunks' = rest" "[] \<notin> set chunks'" "inbox (conn_stream conn') = map Recv chunks' @ rs"
    "conn_max_frame_size conn' = conn_max_frame_size conn"
proof -
  have "length (conn_buffer conn @ concat chunks) \<le> conn_max_frame_size conn" using assms(2,5) by simp
  from server_reader.delivers [OF resp.dec_enc [OF assms(1)] assms(2,3) this, of rs]
  obtain buf' chunks' where
    "read_loop lim (conn_max_frame_size conn) (conn_buffer conn) (map Recv chunks @ rs) =
       (if conn_max_frame_size conn < length (encode_resp v) then (Some (Err too_large), encode_resp v @ buf', map Recv chunks' @ rs)
        else (Some (Ok (Some (take (length (encode_resp v)) (encode_resp v @ buf')))),
          drop (length (encode_resp v)) (encode_resp v @ buf'), map Recv chunks' @ rs))"
    "buf' @ concat chunks' = rest" "[] \<notin> set chunks'" by metis
  with assms(4,5) that show ?thesis by (simp add: read_value_def)
qed

section \<open>Properties\<close>

text \<open>A client's turns at the socket, one after another.\<close>

fun read_values :: "limits \<Rightarrow> nat \<Rightarrow> connection \<Rightarrow> (io_error, bytes option) result option list \<times> connection" where
  "read_values lim 0 conn = ([], conn)"
| "read_values lim (Suc n) conn =
     (let (res, conn) = read_value lim conn; (results, conn) = read_values lim n conn in (res # results, conn))"

text \<open>
  C14: However TCP cuts a stream of well-formed requests, the server reads exactly those requests, in
  order, each as the bytes it was sent in, and then the clean end of the stream, provided the whole
  stream fits the frame limit.
\<close>

theorem pipelined_requests_read_in_order:
  assumes "list_all (encodable lim) vs" "conn_buffer conn @ concat chunks = concat (map encode_resp vs)" "[] \<notin> set chunks"
    and "inbox (conn_stream conn) = map Recv chunks @ [Closed]"
    and "length (concat (map encode_resp vs)) \<le> conn_max_frame_size conn" "0 < max_depth lim"
  shows "fst (read_values lim (length vs + 1) conn) =
    map (\<lambda>v. Some (Ok (Some (encode_resp v)))) vs @ [Some (Ok None)]"
  using assms
proof (induction vs arbitrary: conn chunks)
  case Nil
  then have "chunks = []" "conn_buffer conn = []" by (cases chunks; auto)+
  with Nil.prems(4) have "fst (read_value lim conn) = Some (Ok None)"
    using Nil.prems(6)
    by (simp add: read_value_def case_prod_beta read_loop_round [of lim _ "[]"] settled_def arrives_def empty_incomplete)
  then show ?case by (simp add: case_prod_beta)
next
  case (Cons v vs)
  let ?rest = "concat (map encode_resp vs)"
  obtain conn' chunks' where read: "read_value lim conn = (Some (Ok (Some (encode_resp v))), conn')"
    "conn_buffer conn' @ concat chunks' = ?rest" "[] \<notin> set chunks'" "inbox (conn_stream conn') = map Recv chunks' @ [Closed]"
    "conn_max_frame_size conn' = conn_max_frame_size conn"
    by (rule read_value_delivers [of lim v conn chunks ?rest "[Closed]"]) (use Cons.prems in simp_all)
  have "fst (read_values lim (length vs + 1) conn') = map (\<lambda>v. Some (Ok (Some (encode_resp v)))) vs @ [Some (Ok None)]"
    by (rule Cons.IH [OF _ read(2,3,4)]) (use Cons.prems read(5) in simp_all)
  then show ?case by (simp add: read(1) case_prod_beta)
qed

definition sample_stream :: "bytes list \<Rightarrow> tcp" where
  "sample_stream chunks = \<lparr>inbox = map Recv chunks @ [Closed], outbox = [], send_faults = []\<rparr>"

theorem pipelined_requests_read_in_order_witness:
  "fst (read_values \<lparr>max_capacity = 8, max_depth = 4\<rparr> 3
     (connection_new (sample_stream [''*1'' @ [CR], [LF] @ ''$4'' @ crlf @ ''PING'' @ crlf @ '':'', ''7'' @ crlf]) 64)) =
   [Some (Ok (Some (''*1'' @ crlf @ ''$4'' @ crlf @ ''PING'' @ crlf))), Some (Ok (Some ('':7'' @ crlf))), Some (Ok None)]"
proof -
  let ?lim = "\<lparr>max_capacity = 8, max_depth = 4\<rparr>" and ?vs = "[Array [BulkString ''PING''], Integer 7]"
  let ?chunks = "[''*1'' @ [CR], [LF] @ ''$4'' @ crlf @ ''PING'' @ crlf @ '':'', ''7'' @ crlf]"
  let ?conn = "connection_new (sample_stream ?chunks) 64"
  have "list_all (encodable ?lim) ?vs" by code_simp
  moreover have "conn_buffer ?conn @ concat ?chunks = concat (map encode_resp ?vs)" by code_simp
  moreover have "inbox (conn_stream ?conn) = map Recv ?chunks @ [Closed]"
    by (simp add: connection_new_def sample_stream_def)
  moreover have "length (concat (map encode_resp ?vs)) \<le> conn_max_frame_size ?conn" "0 < max_depth ?lim" by code_simp+
  moreover have "encode_resp (Array [BulkString ''PING'']) = ''*1'' @ crlf @ ''$4'' @ crlf @ ''PING'' @ crlf"
    "encode_resp (Integer 7) = '':7'' @ crlf"
    by code_simp+
  ultimately show ?thesis
    using pipelined_requests_read_in_order [of ?lim ?vs ?conn ?chunks]
    by (simp add: numeral_3_eq_3 del: encode_resp_simps read_values.simps)
qed

text \<open>
  A read that is cancelled while it waits, as \<open>tokio::select!\<close> does when another branch is ready,
  loses nothing: reading again with the bytes that arrive later gives what one read of everything
  would have given.
\<close>

theorem read_value_cancel_safe:
  assumes "read_value lim conn = (None, conn')"
  shows "read_value lim (conn\<lparr>conn_stream := (conn_stream conn)\<lparr>inbox := inbox (conn_stream conn) @ later\<rparr>\<rparr>) =
    read_value lim (conn'\<lparr>conn_stream := (conn_stream conn')\<lparr>inbox := later\<rparr>\<rparr>)"
proof -
  obtain res buf rs where loop: "read_loop lim (conn_max_frame_size conn) (conn_buffer conn) (inbox (conn_stream conn)) = (res, buf, rs)"
    by (metis prod_cases3)
  from read_loop_later [of lim "conn_max_frame_size conn" "conn_buffer conn" "inbox (conn_stream conn)" later] assms loop
  show ?thesis by (auto simp: read_value_def case_prod_beta)
qed

theorem read_value_cancel_safe_witness:
  "read_value \<lparr>max_capacity = 8, max_depth = 4\<rparr>
     \<lparr>conn_stream = \<lparr>inbox = [Recv '':1'', Recv (''2'' @ crlf)], outbox = [], send_faults = []\<rparr>, conn_buffer = [], conn_max_frame_size = 9\<rparr> =
   (Some (Ok (Some ('':12'' @ crlf))),
     \<lparr>conn_stream = \<lparr>inbox = [], outbox = [], send_faults = []\<rparr>, conn_buffer = [], conn_max_frame_size = 9\<rparr>)"
proof -
  let ?lim = "\<lparr>max_capacity = 8, max_depth = 4\<rparr>"
  let ?conn = "\<lparr>conn_stream = \<lparr>inbox = [Recv '':1''], outbox = [], send_faults = []\<rparr>, conn_buffer = [], conn_max_frame_size = 9\<rparr>"
  let ?conn' = "\<lparr>conn_stream = \<lparr>inbox = [], outbox = [], send_faults = []\<rparr>, conn_buffer = '':1'', conn_max_frame_size = 9\<rparr>"
  have "read_value ?lim ?conn = (None, ?conn')" by code_simp
  from read_value_cancel_safe [OF this, of "[Recv (''2'' @ crlf)]"] show ?thesis by simp code_simp
qed

text \<open>
  A connection never buffers more than the frame limit between its reads, and what it hands on is
  one whole frame within that limit: parsing it again, as the server does, gives a value and uses
  every byte.
\<close>

theorem read_value_bounds:
  assumes "read_value lim conn = (res, conn')" "length (conn_buffer conn) \<le> conn_max_frame_size conn"
  shows "conn_max_frame_size conn' = conn_max_frame_size conn \<and>
    (res = None \<or> (\<exists>x. res = Some (Ok x)) \<longrightarrow> length (conn_buffer conn') \<le> conn_max_frame_size conn) \<and>
    (\<forall>frame. res = Some (Ok (Some frame)) \<longrightarrow>
       length frame \<le> conn_max_frame_size conn \<and> (\<exists>v. parse_resp lim frame = Ok (v, length frame)))"
proof -
  obtain res buf rs where loop: "read_loop lim (conn_max_frame_size conn) (conn_buffer conn) (inbox (conn_stream conn)) = (res, buf, rs)"
    by (metis prod_cases3)
  from read_loop_bounds [OF loop assms(2)] assms(1) show ?thesis
    by (auto simp: read_value_def loop)
qed

theorem read_value_bounds_witness:
  "\<exists>v. parse_resp \<lparr>max_capacity = 8, max_depth = 4\<rparr> ('':12'' @ crlf) = Ok (v, length ('':12'' @ crlf))"
proof -
  let ?lim = "\<lparr>max_capacity = 8, max_depth = 4\<rparr>"
  let ?conn = "connection_new (sample_stream ['':12'' @ crlf @ '':3'']) 9"
  have "fst (read_value ?lim ?conn) = Some (Ok (Some ('':12'' @ crlf)))" by code_simp
  then have "read_value ?lim ?conn = (Some (Ok (Some ('':12'' @ crlf))), snd (read_value ?lim ?conn))"
    by (metis prod.collapse)
  from read_value_bounds [OF this] show ?thesis by (simp add: connection_new_def)
qed

text \<open>
  The limit on one frame is applied to whatever one read brings: two requests that are each
  within the limit are both served when they arrive in two reads, and rejected, with nothing served
  at all, when TCP delivers them in one.
\<close>

theorem frame_limit_depends_on_chunking:
  assumes "encodable lim v" "encodable lim w"
    and "length (encode_resp v) \<le> m" "length (encode_resp w) \<le> m" "m < length (encode_resp v @ encode_resp w)"
  shows "fst (read_values lim 3 (connection_new (sample_stream [encode_resp v, encode_resp w]) m)) =
      [Some (Ok (Some (encode_resp v))), Some (Ok (Some (encode_resp w))), Some (Ok None)] \<and>
    fst (read_value lim (connection_new (sample_stream [encode_resp v @ encode_resp w]) m)) = Some (Err too_large)"
proof -
  note ne = resp.enc_nonempty [OF assms(1)] resp.enc_nonempty [OF assms(2)]
  have got: "settled lim m (encode_resp x) = Some (Ok (Some (encode_resp x)), [])"
    if "encodable lim x" "length (encode_resp x) \<le> m" for x
    using resp.dec_enc [OF that(1)] that(2) by (simp add: settled_def)
  have wait: "settled lim m [] = None"
    using resp.enc_prefix_incomplete [OF assms(1), of 0] ne(1) by (simp add: settled_def)
  have three: "read_values lim 3 conn = read_values lim (Suc (Suc (Suc 0))) conn" for conn
    by (simp add: numeral_3_eq_3)
  show ?thesis
    using ne assms(3-5) got [OF assms(1,3)] got [OF assms(2,4)]
    by (simp add: three read_value_def connection_new_def sample_stream_def case_prod_beta
        read_loop_round [of lim m] wait arrives_def)
qed

theorem frame_limit_depends_on_chunking_witness:
  "fst (read_value \<lparr>max_capacity = 8, max_depth = 4\<rparr>
     (connection_new (sample_stream ['':1'' @ crlf @ '':2'' @ crlf]) 6)) = Some (Err too_large)"
proof -
  have "encodable \<lparr>max_capacity = 8, max_depth = 4\<rparr> (Integer 1)" "encodable \<lparr>max_capacity = 8, max_depth = 4\<rparr> (Integer 2)"
    by code_simp+
  moreover have "encode_resp (Integer 1) = '':1'' @ crlf" "encode_resp (Integer 2) = '':2'' @ crlf" by code_simp+
  ultimately show ?thesis
    using frame_limit_depends_on_chunking [of _ "Integer 1" "Integer 2" 6] by simp
qed

end
