(* ===== verification/Rust_Chars.thy ===== *)
theory Rust_Chars
  imports Rust_Text
begin

text \<open>
  Rust strings as sequences of characters: \<open>str::chars\<close> and its inverse \<open>String::from_iter\<close>,
  \<open>char::is_whitespace\<close>, \<open>str::trim\<close> and \<open>char::is_control\<close>. A character is the list of the bytes that
  encode it.
\<close>

type_synonym rchar = bytes

text \<open>A string is well-formed UTF-8, so the last equation's ill-formed case does not arise; it keeps the byte.\<close>

function utf8_chars :: "bytes \<Rightarrow> rchar list" where
  "utf8_chars [] = []"
| "utf8_chars (b # bs) =
     (case utf8_tail b bs of
        None \<Rightarrow> [b] # utf8_chars bs
      | Some r \<Rightarrow> take (Suc (length bs) - length r) (b # bs) # utf8_chars r)"
  by pat_completeness auto
termination
  by (relation "measure length") (auto dest: utf8_tail_length)

lemma utf8_tail_suffix: "utf8_tail b bs = Some r \<Longrightarrow> \<exists>w. bs = w @ r"
  by (auto simp: utf8_tail.simps split: if_split_asm list.split_asm)

lemma utf8_chars_concat: "concat (utf8_chars s) = s"
proof (induction s rule: utf8_chars.induct)
  case (2 b bs)
  show ?case
  proof (cases "utf8_tail b bs")
    case None
    with 2 show ?thesis by simp
  next
    case (Some r)
    then obtain w where "bs = w @ r" using utf8_tail_suffix by blast
    with 2(2) [OF Some] Some show ?thesis by simp
  qed
qed simp

lemma utf8_chars_nonempty: "c \<in> set (utf8_chars s) \<Longrightarrow> c \<noteq> []"
proof (induction s rule: utf8_chars.induct)
  case (2 b bs)
  then show ?case by (cases "utf8_tail b bs") (auto dest: utf8_tail_length)
qed simp

lemma utf8_chars_ascii: "ascii s \<Longrightarrow> utf8_chars s = map (\<lambda>b. [b]) s"
  by (induction s) (simp_all add: ascii_def utf8_tail.simps)

text \<open>The code points with the Unicode property \<open>White_Space\<close>, as they are encoded.\<close>

definition char_is_whitespace :: "rchar \<Rightarrow> bool" where
  "char_is_whitespace ch \<longleftrightarrow>
     (case map code ch of
        [a] \<Rightarrow> (0x09 \<le> a \<and> a \<le> 0x0D) \<or> a = 0x20
      | [a, b] \<Rightarrow> a = 0xC2 \<and> (b = 0x85 \<or> b = 0xA0)
      | [a, b, c] \<Rightarrow>
          (a = 0xE1 \<and> b = 0x9A \<and> c = 0x80) \<or>
          (a = 0xE2 \<and> b = 0x80 \<and> (0x80 \<le> c \<and> c \<le> 0x8A \<or> c = 0xA8 \<or> c = 0xA9 \<or> c = 0xAF)) \<or>
          (a = 0xE2 \<and> b = 0x81 \<and> c = 0x9F) \<or> (a = 0xE3 \<and> b = 0x80 \<and> c = 0x80)
      | _ \<Rightarrow> False)"

text \<open>The category \<open>Cc\<close>: U+0000 to U+001F and U+007F to U+009F.\<close>

definition char_is_control :: "rchar \<Rightarrow> bool" where
  "char_is_control ch \<longleftrightarrow>
     (case map code ch of
        [a] \<Rightarrow> a < 0x20 \<or> a = 0x7F
      | [a, b] \<Rightarrow> a = 0xC2 \<and> b \<le> 0x9F
      | _ \<Rightarrow> False)"

definition str_trim :: "bytes \<Rightarrow> bytes" where
  "str_trim s =
     concat (rev (dropWhile char_is_whitespace (rev (dropWhile char_is_whitespace (utf8_chars s)))))"

lemma str_trim_empty_iff: "str_trim s = [] \<longleftrightarrow> list_all char_is_whitespace (utf8_chars s)"
proof -
  have "concat cs = [] \<longleftrightarrow> cs = []" if "\<forall>c \<in> set cs. c \<noteq> []" for cs :: "rchar list"
    using that by (cases cs) auto
  moreover have "\<forall>c \<in> set (rev (dropWhile P (rev (dropWhile P (utf8_chars s))))). c \<noteq> []" for P
    using utf8_chars_nonempty by (metis set_dropWhileD set_rev)
  ultimately have "str_trim s = [] \<longleftrightarrow>
      dropWhile char_is_whitespace (rev (dropWhile char_is_whitespace (utf8_chars s))) = []"
    unfolding str_trim_def by (metis rev_is_Nil_conv)
  then show ?thesis
    by (auto simp: dropWhile_eq_Nil_conv list_all_iff dest: set_dropWhileD)
       (metis dropWhile_eq_Nil_conv hd_dropWhile hd_in_set)
qed

section \<open>Characters of well-formed text\<close>

text \<open>One encoded character.\<close>

definition is_rchar :: "rchar \<Rightarrow> bool" where
  "is_rchar ch \<longleftrightarrow> utf8_chars ch = [ch] \<and> utf8 ch"

lemma is_rchar_ascii: "code b < 0x80 \<Longrightarrow> is_rchar [b]"
  by (simp add: is_rchar_def utf8_tail.simps)

lemma utf8_chars_append: "utf8 xs \<Longrightarrow> utf8_chars (xs @ ys) = utf8_chars xs @ utf8_chars ys"
proof (induction xs rule: utf8.induct)
  case (2 b bs)
  from 2(2) obtain r where r: "utf8_tail b bs = Some r" "utf8 r" by (auto split: option.splits)
  from utf8_tail_length [OF r(1)] have "Suc (length (bs @ ys)) - length (r @ ys) = Suc (length bs) - length r" by simp
  with 2(1) [OF r] r utf8_tail_append [OF r(1), of ys] show ?case
    by (simp add: Suc_diff_le [OF utf8_tail_length [OF r(1)]])
qed simp

lemma utf8_chars_concat_map: "list_all is_rchar cs \<Longrightarrow> utf8_chars (concat cs) = cs \<and> utf8 (concat cs)"
  by (induction cs) (auto simp: is_rchar_def utf8_chars_append utf8_append)

lemma utf8_tail_first:
  assumes "utf8_tail b bs = Some r"
  shows "\<exists>w. bs = w @ r \<and> utf8_tail b w = Some []"
  using assms by (auto simp: utf8_tail.simps split: if_split_asm list.split_asm)

lemma utf8_chars_rchars: "utf8 s \<Longrightarrow> list_all is_rchar (utf8_chars s)"
proof (induction s rule: utf8.induct)
  case (2 b bs)
  from 2(2) obtain r where r: "utf8_tail b bs = Some r" "utf8 r" by (auto split: option.splits)
  from utf8_tail_first [OF r(1)] obtain w where w: "bs = w @ r" "utf8_tail b w = Some []" by blast
  have "take (Suc (length bs) - length r) (b # bs) = b # w" by (simp add: w(1))
  moreover have "is_rchar (b # w)" by (simp add: is_rchar_def w(2))
  ultimately show ?case using 2(1) [OF r] r by simp
qed simp

lemma concat_chars_inverse: "utf8 s \<Longrightarrow> cs = utf8_chars s \<Longrightarrow> concat cs = s"
  by (simp add: utf8_chars_concat)

section \<open>Lines\<close>

text \<open>\<open>str::lines\<close>: a line ends with a line feed, which may follow a carriage return.\<close>

fun split_inclusive :: "bytes \<Rightarrow> bytes \<Rightarrow> bytes list" where
  "split_inclusive cur [] = (if cur = [] then [] else [cur])"
| "split_inclusive cur (b # bs) =
     (if b = LF then (cur @ [b]) # split_inclusive [] bs else split_inclusive (cur @ [b]) bs)"

definition strip_line_end :: "bytes \<Rightarrow> bytes" where
  "strip_line_end l =
     (if l \<noteq> [] \<and> last l = LF
      then let l = butlast l in if l \<noteq> [] \<and> last l = CR then butlast l else l
      else l)"

definition str_lines :: "bytes \<Rightarrow> bytes list" where
  "str_lines s = map strip_line_end (split_inclusive [] s)"

end
