(* ===== verification/Server.thy ===== *)
theory Server
  imports Recovery Connection Rust_Chars
begin

text \<open>
  \<open>rustkv-server/src/server.rs\<close> and \<open>ttl.rs\<close>: the configuration, start-up, the task of one client,
  the steps of the TTL worker and of the rewrite worker. Between two awaits a task
  runs alone on the state it shares: the store, the statistics, the AOF engine and the disk.
\<close>

section \<open>Configuration\<close>

record server_config =
  cfg_addr :: bytes
  cfg_aof_path :: "path option"
  cfg_max_frame_size :: nat
  cfg_ttl_interval :: duration
  cfg_shard_count :: nat
  cfg_aof_rewrite_interval :: duration
  cfg_aof_rewrite_min_size :: nat

definition invalid_config :: "bytes \<Rightarrow> io_error" where
  "invalid_config message = IoError InvalidInput message"

definition validate :: "server_config \<Rightarrow> (io_error, unit) result" where
  "validate cfg =
     (if str_trim (cfg_addr cfg) = [] then Err (invalid_config ''server address must not be empty'')
      else if cfg_max_frame_size cfg = 0 then Err (invalid_config ''max frame size must be greater than 0'')
      else if cfg_ttl_interval cfg = 0 then Err (invalid_config ''TTL interval must be greater than 0'')
      else if cfg_shard_count cfg = 0 then Err (invalid_config ''shard count must be greater than 0'')
      else if cfg_aof_rewrite_interval cfg = 0 then Err (invalid_config ''AOF rewrite interval must be greater than 0'')
      else if cfg_aof_rewrite_min_size cfg = 0
        then Err (invalid_config ''AOF rewrite minimum size must be greater than 0'')
      else Ok ())"

definition default_config :: server_config where
  "default_config = \<lparr>cfg_addr = ''127.0.0.1:6379'', cfg_aof_path = None, cfg_max_frame_size = 1024 * 1024,
     cfg_ttl_interval = from_millis 1000, cfg_shard_count = default_shard_count,
     cfg_aof_rewrite_interval = from_millis 60000, cfg_aof_rewrite_min_size = 1024 * 1024\<rparr>"

section \<open>Start-up\<close>

record server =
  srv_db :: sharded
  srv_stats :: server_stats
  srv_aof :: "aof_engine option"
  srv_disk :: disk

text \<open>
  What \<open>run_with_listener_and_shutdown\<close> does before its accept loop. \<open>local_addr\<close> is the answer of
  \<open>listener.local_addr()\<close>, \<open>now\<close> the reading of \<open>ServerStats::new\<close>.
\<close>

definition open_aof ::
  "limits \<Rightarrow> hasher \<Rightarrow> (nat \<Rightarrow> clock) \<Rightarrow> path option \<Rightarrow> sharded \<Rightarrow> disk \<Rightarrow>
    ((io_error, aof_engine option) result \<times> sharded) \<times> disk" where
  "open_aof lim h clk config_path db d =
     (case config_path of
        None \<Rightarrow> ((Ok None, db), d)
      | Some path \<Rightarrow>
          (case load_and_replay lim h clk path d db of
             ((Err e, db), d) \<Rightarrow> ((Err e, db), d)
           | ((Panic, db), d) \<Rightarrow> ((Panic, db), d)
           | ((Ok _, db), d) \<Rightarrow> (let (eng, d) = aof_new path d in ((map_ok Some eng, db), d))))"

definition start_server ::
  "limits \<Rightarrow> hasher \<Rightarrow> (nat \<Rightarrow> clock) \<Rightarrow> instant \<Rightarrow> (io_error, bytes) result \<Rightarrow> server_config \<Rightarrow> disk \<Rightarrow>
    (io_error, server) result \<times> disk" where
  "start_server lim h clk now local_addr cfg d =
     (case try_then (validate cfg) (\<lambda>_. local_addr) of
        Err e \<Rightarrow> (Err e, d)
      | Panic \<Rightarrow> (Panic, d)
      | Ok listen_addr \<Rightarrow>
          (let ((aof, db), d) = open_aof lim h clk (cfg_aof_path cfg) (sharded_new (cfg_shard_count cfg)) d
           in (map_ok (\<lambda>aof. \<lparr>srv_db = db,
                 srv_stats = configure_runtime listen_addr (aof \<noteq> None) (cfg_max_frame_size cfg) (stats_new now),
                 srv_aof = aof, srv_disk = d\<rparr>) aof, d)))"

section \<open>One client\<close>

definition parse_command :: "limits \<Rightarrow> bytes \<Rightarrow> (bytes, command) result" where
  "parse_command lim frame =
     try_then (map_err (\<lambda>e. ''ERR protocol error: '' @ show_protocol_error e) (parse_resp lim frame))
       (\<lambda>(resp, consumed). map_err (\<lambda>e. ''ERR '' @ show_kv_error e) (from_resp resp))"

fun is_write_command :: "command \<Rightarrow> bool" where
  "is_write_command (Set k v e) = True"
| "is_write_command (SetPxAt k v ms) = True"
| "is_write_command (Del ks) = True"
| "is_write_command (Expire k s) = True"
| "is_write_command (ExpireAt k ms) = True"
| "is_write_command FlushDb = True"
| "is_write_command _ = False"

definition server_error_response :: "bytes \<Rightarrow> resp_value" where
  "server_error_response text = Error text"

text \<open>
  The task of a client: it waits for a request; or it has logged a command, holds the lock of the AOF
  engine and the read side of the rewrite barrier, and has yet to execute it; or it has returned
  (\<open>Panic\<close>: the task has unwound).
\<close>

datatype phase = Reading | Logged command | Finished "(io_error, unit) result"

record client =
  conn :: connection
  phase :: phase

definition client_new :: "tcp \<Rightarrow> nat \<Rightarrow> client" where
  "client_new s frame_size = \<lparr>conn = connection_new s frame_size, phase = Reading\<rparr>"

text \<open>\<open>connection.write_value(..).await?\<close>, then back to the top of the loop, which drops the guards.\<close>

definition respond :: "resp_value \<Rightarrow> client \<Rightarrow> client" where
  "respond v cl =
     (let (res, cn) = write_value v (conn cl)
      in \<lparr>conn = cn, phase = (case res of Ok _ \<Rightarrow> Reading | _ \<Rightarrow> Finished res)\<rparr>)"

definition execute_and_reply ::
  "hasher \<Rightarrow> layout \<Rightarrow> json \<Rightarrow> clock \<Rightarrow> command \<Rightarrow> server \<Rightarrow> client \<Rightarrow> server \<times> client" where
  "execute_and_reply h ly json c command srv cl =
     (let (response, db, stats) = execute_command h ly json c command (srv_db srv) (srv_stats srv);
          srv = srv\<lparr>srv_db := db, srv_stats := stats\<rparr>
      in case response of
           Ok v \<Rightarrow> (srv, respond v cl)
         | _ \<Rightarrow> (srv, cl\<lparr>phase := Finished Panic\<rparr>))"

text \<open>A request has been read and parsed: log it when it writes, else execute it and reply.\<close>

definition handle_command ::
  "hasher \<Rightarrow> layout \<Rightarrow> json \<Rightarrow> clock \<Rightarrow> clock \<Rightarrow> command \<Rightarrow> server \<Rightarrow> client \<Rightarrow> server \<times> client" where
  "handle_command h ly json a c command srv cl =
     (case (if is_write_command command then srv_aof srv else None) of
        Some engine \<Rightarrow>
          (let (res, d) = aof_append a command engine (srv_disk srv); srv = srv\<lparr>srv_disk := d\<rparr>
           in case res of
                Ok _ \<Rightarrow> (srv, cl\<lparr>phase := Logged command\<rparr>)
              | Err error \<Rightarrow> (srv, respond (server_error_response (show_io_error error)) cl)
              | Panic \<Rightarrow> (srv, cl\<lparr>phase := Finished Panic\<rparr>))
      | None \<Rightarrow> execute_and_reply h ly json c command srv cl)"

definition handle_frame ::
  "limits \<Rightarrow> hasher \<Rightarrow> layout \<Rightarrow> json \<Rightarrow> clock \<Rightarrow> clock \<Rightarrow> bytes \<Rightarrow> server \<Rightarrow> client \<Rightarrow> server \<times> client" where
  "handle_frame lim h ly json a c frame srv cl =
     (case parse_command lim frame of
        Err error \<Rightarrow> (srv, respond (server_error_response error) cl)
      | Panic \<Rightarrow> (srv, cl\<lparr>phase := Finished Panic\<rparr>)
      | Ok command \<Rightarrow> handle_command h ly json a c command srv cl)"

text \<open>
  What wakes the task's \<open>select!\<close>: a change of the shutdown flag (\<open>None\<close> when its sender is gone), or the
  socket.
\<close>

datatype wake = Shutdown_changed "bool option" | Socket

definition client_step ::
  "limits \<Rightarrow> hasher \<Rightarrow> layout \<Rightarrow> json \<Rightarrow> clock \<Rightarrow> clock \<Rightarrow> wake \<Rightarrow> server \<Rightarrow> client \<Rightarrow> server \<times> client" where
  "client_step lim h ly json a c w srv cl =
     (case phase cl of
        Finished r \<Rightarrow> (srv, cl)
      | Logged command \<Rightarrow> execute_and_reply h ly json c command srv cl
      | Reading \<Rightarrow>
          (case w of
             Shutdown_changed v \<Rightarrow>
               (srv, if v = None \<or> v = Some True then cl\<lparr>phase := Finished (Ok ())\<rparr> else cl)
           | Socket \<Rightarrow>
               (let (res, cn) = read_value lim (conn cl); cl = cl\<lparr>conn := cn\<rparr>
                in case res of
                     None \<Rightarrow> (srv, cl)
                   | Some (Ok (Some frame)) \<Rightarrow> handle_frame lim h ly json a c frame srv cl
                   | Some (Ok None) \<Rightarrow> (srv, cl\<lparr>phase := Finished (Ok ())\<rparr>)
                   | Some (Err e) \<Rightarrow> (srv, cl\<lparr>phase := Finished (Err e)\<rparr>)
                   | Some Panic \<Rightarrow> (srv, cl\<lparr>phase := Finished Panic\<rparr>))))"

text \<open>A client that is alone with the server: its steps one after another.\<close>

fun handle_client ::
  "limits \<Rightarrow> hasher \<Rightarrow> layout \<Rightarrow> json \<Rightarrow> (clock \<times> clock \<times> wake) list \<Rightarrow> server \<Rightarrow> client \<Rightarrow> server \<times> client" where
  "handle_client lim h ly json [] srv cl = (srv, cl)"
| "handle_client lim h ly json ((a, c, w) # events) srv cl =
     (let (srv, cl) = client_step lim h ly json a c w srv cl in handle_client lim h ly json events srv cl)"

section \<open>The workers\<close>

text \<open>One tick of the TTL worker.\<close>

definition ttl_tick :: "clock \<Rightarrow> server \<Rightarrow> server" where
  "ttl_tick c srv =
     (let ((removed, key_count), db) = sharded_remove_expired c (srv_db srv);
          stats = set_key_count key_count (incr_expired_keys_by removed (srv_stats srv))
      in srv\<lparr>srv_db := db, srv_stats := stats\<rparr>)"

text \<open>
  One run of \<open>maybe_rewrite_aof\<close>, in the parts between which other tasks may run: the size check, under
  the engine's lock; the snapshot, under the write side of the barrier; the rewrite, under both.
\<close>

definition rewrite_due :: "nat \<Rightarrow> aof_engine \<Rightarrow> disk \<Rightarrow> (io_error, bool) result \<times> disk" where
  "rewrite_due min_size engine d =
     (let (current_size, d) = aof_file_size engine d in (map_ok (\<lambda>n. \<not> n < min_size) current_size, d))"

definition take_snapshot :: "clock \<Rightarrow> server \<Rightarrow> db_snapshot \<times> server" where
  "take_snapshot c srv =
     (let (snapshot, db) = sharded_snapshot_entries c (srv_db srv) in (snapshot, srv\<lparr>srv_db := db\<rparr>))"

definition rewrite_log :: "clock \<Rightarrow> db_snapshot \<Rightarrow> aof_engine \<Rightarrow> server \<Rightarrow> (io_error, unit) result \<times> server" where
  "rewrite_log c snapshot engine srv =
     (let ((res, engine), d) = aof_rewrite c snapshot engine (srv_disk srv)
      in (res, srv\<lparr>srv_aof := Some engine, srv_disk := d\<rparr>))"

definition maybe_rewrite_aof :: "clock \<Rightarrow> nat \<Rightarrow> aof_engine \<Rightarrow> server \<Rightarrow> (io_error, unit) result \<times> server" where
  "maybe_rewrite_aof c min_size engine srv =
     (let (due, d) = rewrite_due min_size engine (srv_disk srv); srv = srv\<lparr>srv_disk := d\<rparr>
      in case due of
           Ok True \<Rightarrow> (let (snapshot, srv) = take_snapshot c srv in rewrite_log c snapshot engine srv)
         | Ok False \<Rightarrow> (Ok (), srv)
         | Err e \<Rightarrow> (Err e, srv)
         | Panic \<Rightarrow> (Panic, srv))"

text \<open>After the last client task has returned, the log is flushed.\<close>

definition shut_down :: "server \<Rightarrow> (io_error, unit) result \<times> server" where
  "shut_down srv =
     (case srv_aof srv of
        None \<Rightarrow> (Ok (), srv)
      | Some engine \<Rightarrow> (let (res, d) = aof_flush engine (srv_disk srv) in (res, srv\<lparr>srv_disk := d\<rparr>)))"

section \<open>Requests and replies\<close>

lemma logged_iff_write: "command_args a cmd \<noteq> None \<longleftrightarrow> is_write_command cmd"
  by (cases cmd) simp_all

lemma append_granted:
  assumes "aof_file eng = Some (aof_path eng)" "files d (aof_path eng) = Some old" "faults d = []" "is_write_command cmd"
  shows "aof_append a cmd eng d = (Ok (), d\<lparr>files := (files d)(aof_path eng := Some (old @ record_bytes (a, cmd)))\<rparr>)"
proof -
  obtain args where "command_args a cmd = Some args" using assms(4) logged_iff_write by blast
  with assms(1-3) show ?thesis
    by (cases d) (simp add: aof_append_def command_to_resp_bytes_def file_mut_def io_defs record_bytes_def
        append_bytes_def set_file_def)
qed


lemma respond_granted:
  "send_faults (conn_stream (conn cl)) = [] \<Longrightarrow>
     respond v cl = \<lparr>conn = (conn cl)\<lparr>conn_stream := (conn_stream (conn cl))\<lparr>outbox := outbox (conn_stream (conn cl)) @ encode_resp v\<rparr>\<rparr>,
       phase = Reading\<rparr>"
  by (simp add: respond_def write_value_def)

text \<open>What a client has been sent.\<close>

abbreviation sent :: "client \<Rightarrow> bytes" where
  "sent cl \<equiv> outbox (conn_stream (conn cl))"



section \<open>A whole session\<close>

text \<open>
  A client that is alone with the server. A logged command takes two steps of its task, every other
  command one. \<open>log_ready old srv\<close>: the log, if the server keeps one, is open, holds \<open>old\<close>, and the file
  system will grant every call.
\<close>

definition events_of :: "bool \<Rightarrow> served list \<Rightarrow> (clock \<times> clock \<times> wake) list" where
  "events_of logging steps =
     concat (map (\<lambda>(a, c, cmd). replicate (if logging \<and> is_write_command cmd then 2 else 1) (a, c, Socket)) steps)"

definition log_ready :: "bytes \<Rightarrow> server \<Rightarrow> bool" where
  "log_ready old srv \<longleftrightarrow>
     (case srv_aof srv of
        None \<Rightarrow> True
      | Some eng \<Rightarrow> aof_file eng = Some (aof_path eng) \<and> files (srv_disk srv) (aof_path eng) = Some old \<and>
          faults (srv_disk srv) = [])"

definition is_request :: "limits \<Rightarrow> resp_value \<Rightarrow> served \<Rightarrow> bool" where
  "is_request lim v step = (case step of (a, c, cmd) \<Rightarrow> encodable lim v \<and> from_resp (frame_of v) = Ok cmd)"

lemma handle_client_append:
  "handle_client lim h ly json (es @ fs) srv cl =
     (case handle_client lim h ly json es srv cl of (srv, cl) \<Rightarrow> handle_client lim h ly json fs srv cl)"
  by (induction es arbitrary: srv cl) (auto split: prod.splits)

lemma execute_and_reply_granted:
  assumes "fst (execute_command h ly json c cmd (srv_db srv) (srv_stats srv)) = Ok v"
    and "send_faults (conn_stream (conn cl)) = []"
  shows "execute_and_reply h ly json c cmd srv cl =
    (srv\<lparr>srv_db := fst (snd (execute_command h ly json c cmd (srv_db srv) (srv_stats srv))),
       srv_stats := snd (snd (execute_command h ly json c cmd (srv_db srv) (srv_stats srv)))\<rparr>, respond v cl)"
  using assms by (simp add: execute_and_reply_def case_prod_beta Let_def)

text \<open>One request of the session: read, logged if it writes, executed, answered.\<close>

lemma request_step:
  assumes "encodable lim v" "from_resp (frame_of v) = Ok cmd"
    and "conn_buffer (conn cl) @ concat chunks = encode_resp v @ rest" "[] \<notin> set chunks"
    and "inbox (conn_stream (conn cl)) = map Recv chunks @ [Closed]"
    and "length (encode_resp v @ rest) \<le> conn_max_frame_size (conn cl)"
    and "phase cl = Reading" "send_faults (conn_stream (conn cl)) = []" "log_ready old srv"
    and run: "execute_command h ly json c cmd (srv_db srv) (srv_stats srv) = (Ok reply, db', st')"
  obtains srv' cl' chunks' where
    "handle_client lim h ly json (events_of (srv_aof srv \<noteq> None) [(a, c, cmd)]) srv cl = (srv', cl')"
    "phase cl' = Reading" "send_faults (conn_stream (conn cl')) = []" "sent cl' = sent cl @ encode_resp reply"
    "conn_buffer (conn cl') @ concat chunks' = rest" "[] \<notin> set chunks'"
    "inbox (conn_stream (conn cl')) = map Recv chunks' @ [Closed]"
    "conn_max_frame_size (conn cl') = conn_max_frame_size (conn cl)"
    "srv_db srv' = db'" "srv_stats srv' = st'" "srv_aof srv' = srv_aof srv"
    "log_ready (old @ (if is_write_command cmd then record_bytes (a, cmd) else [])) srv'"
proof -
  obtain cn chunks' where read: "read_value lim (conn cl) = (Some (Ok (Some (encode_resp v))), cn)"
    "conn_buffer cn @ concat chunks' = rest" "[] \<notin> set chunks'" "inbox (conn_stream cn) = map Recv chunks' @ [Closed]"
    "conn_max_frame_size cn = conn_max_frame_size (conn cl)"
    by (rule read_value_delivers [OF assms(1,3,4,5,6)])
  have stream: "send_faults (conn_stream cn) = []" "outbox (conn_stream cn) = sent cl"
    using read(1) assms(8) by (auto simp: read_value_def case_prod_beta)
  have parse: "parse_command lim (encode_resp v) = Ok cmd"
    using resp.dec_enc [OF assms(1)] assms(2) by (simp add: parse_command_def)
  let ?cl = "cl\<lparr>conn := cn\<rparr>"
  let ?done = "respond reply ?cl"
  have fst: "client_step lim h ly json a c Socket srv cl = handle_frame lim h ly json a c (encode_resp v) srv ?cl"
    using assms(7) by (simp add: client_step_def read(1) del: encode_resp_simps)
  have exec: "execute_and_reply h ly json c cmd srv2 cl2 = (srv2\<lparr>srv_db := db', srv_stats := st'\<rparr>, respond reply cl2)"
    if "srv_db srv2 = srv_db srv" "srv_stats srv2 = srv_stats srv" for srv2 cl2
    using run that by (simp add: execute_and_reply_def)
  have after: "phase ?done = Reading" "send_faults (conn_stream (conn ?done)) = []" "sent ?done = sent cl @ encode_resp reply"
    "conn_buffer (conn ?done) @ concat chunks' = rest" "inbox (conn_stream (conn ?done)) = map Recv chunks' @ [Closed]"
    "conn_max_frame_size (conn ?done) = conn_max_frame_size (conn cl)"
    using respond_granted [of ?cl reply] stream read by simp_all
  show ?thesis
  proof (cases "is_write_command cmd \<and> srv_aof srv \<noteq> None")
    case True
    then obtain eng where eng: "is_write_command cmd" "srv_aof srv = Some eng" by blast
    let ?d = "(srv_disk srv)\<lparr>files := (files (srv_disk srv))(aof_path eng := Some (old @ record_bytes (a, cmd)))\<rparr>"
    have append: "aof_append a cmd eng (srv_disk srv) = (Ok (), ?d)"
      by (rule append_granted) (use assms(9) eng in \<open>simp_all add: log_ready_def\<close>)
    have "handle_client lim h ly json [(a, c, Socket), (a, c, Socket)] srv cl =
        (srv\<lparr>srv_disk := ?d, srv_db := db', srv_stats := st'\<rparr>, ?done)"
      using fst eng append exec [of "srv\<lparr>srv_disk := ?d\<rparr>"] respond_granted [of "?cl\<lparr>phase := Logged cmd\<rparr>" reply]
        respond_granted [of ?cl reply] stream
      by (simp add: handle_frame_def handle_command_def parse client_step_def [of lim h ly json a c Socket "srv\<lparr>srv_disk := ?d\<rparr>"])
    with eng after read(3) assms(9) show ?thesis
      by (intro that [of "srv\<lparr>srv_disk := ?d, srv_db := db', srv_stats := st'\<rparr>" ?done chunks'])
         (simp_all add: events_of_def log_ready_def eval_nat_numeral)
  next
    case False
    then have "handle_frame lim h ly json a c (encode_resp v) srv ?cl = (srv\<lparr>srv_db := db', srv_stats := st'\<rparr>, ?done)"
      using exec [of srv ?cl] by (auto simp: handle_frame_def handle_command_def parse split: if_splits)
    with fst False after read(3) assms(9) show ?thesis
      by (intro that [of "srv\<lparr>srv_db := db', srv_stats := st'\<rparr>" ?done chunks'])
         (auto simp: events_of_def log_ready_def split: option.splits)
  qed
qed

lemma log_ready_cong: "srv_aof srv = None \<Longrightarrow> log_ready old srv \<longleftrightarrow> log_ready old' srv"
  by (simp add: log_ready_def)

lemma records_write: "records ((a, c, cmd) # steps) = (if is_write_command cmd then (a, cmd) # records steps else records steps)"
  using logged_iff_write [of a cmd] by (simp add: records_def)

lemma session_steps:
  assumes "list_all2 (is_request lim) vs steps"
    and "conn_buffer (conn cl) @ concat chunks = concat (map encode_resp vs)" "[] \<notin> set chunks"
    and "inbox (conn_stream (conn cl)) = map Recv chunks @ [Closed]"
    and "length (concat (map encode_resp vs)) \<le> conn_max_frame_size (conn cl)"
    and "phase cl = Reading" "send_faults (conn_stream (conn cl)) = []" "log_ready old srv"
    and "both.alike h t (srv_db srv) db" "in_time t (executions steps)"
    and "reference_run (executions steps) db = map Ok replies"
  shows "\<exists>srv' cl'. handle_client lim h ly json (events_of (srv_aof srv \<noteq> None) steps) srv cl = (srv', cl') \<and>
    phase cl' = Reading \<and> conn_buffer (conn cl') = [] \<and> inbox (conn_stream (conn cl')) = [Closed] \<and>
    sent cl' = sent cl @ concat (map encode_resp replies) \<and>
    srv_aof srv' = srv_aof srv \<and> log_ready (old @ log_bytes (records steps)) srv'"
  using assms
proof (induction vs steps arbitrary: cl chunks old srv t db replies rule: list_all2_induct)
  case Nil
  then have "chunks = []" by (cases chunks) auto
  with Nil show ?case by (simp add: events_of_def executions_def records_def log_bytes_def)
next
  case (Cons v vs step steps)
  obtain a c cmd where step: "step = (a, c, cmd)" by (cases step)
  let ?ref = "reference_command c cmd db"
  let ?run = "execute_command h ly json c cmd (srv_db srv) (srv_stats srv)"
  have req: "encodable lim v" "from_resp (frame_of v) = Ok cmd"
    using Cons.hyps(1) by (simp_all add: step is_request_def)
  have time: "since t c" "monotonic c" "cmd \<noteq> Info" "in_time (op_at c) (executions steps)"
    using Cons.prems(9) by (simp_all add: step executions_def)
  obtain reply replies' where replies: "replies = reply # replies'" "fst ?ref = Ok reply"
    "reference_run (executions steps) (snd ?ref) = map Ok replies'"
    using Cons.prems(10) by (cases replies) (auto simp: step executions_def case_prod_beta simp del: reference_command.simps)
  note alike = execute_alike [OF Cons.prems(8) time(1-3), of ly json "srv_stats srv"]
  have run: "?run = (Ok reply, fst (snd ?run), snd (snd ?run))"
    using alike(1) replies(2) by (metis prod.collapse)
  have total: "conn_buffer (conn cl) @ concat chunks = encode_resp v @ concat (map encode_resp vs)"
    "length (encode_resp v @ concat (map encode_resp vs)) \<le> conn_max_frame_size (conn cl)"
    using Cons.prems(1,4) by simp_all
  obtain srv1 cl1 chunks1 where one:
    "handle_client lim h ly json (events_of (srv_aof srv \<noteq> None) [(a, c, cmd)]) srv cl = (srv1, cl1)"
    "phase cl1 = Reading" "send_faults (conn_stream (conn cl1)) = []" "sent cl1 = sent cl @ encode_resp reply"
    "conn_buffer (conn cl1) @ concat chunks1 = concat (map encode_resp vs)" "[] \<notin> set chunks1"
    "inbox (conn_stream (conn cl1)) = map Recv chunks1 @ [Closed]"
    "conn_max_frame_size (conn cl1) = conn_max_frame_size (conn cl)"
    "srv_db srv1 = fst (snd ?run)" "srv_aof srv1 = srv_aof srv"
    "log_ready (old @ (if is_write_command cmd then record_bytes (a, cmd) else [])) srv1"
    by (rule request_step [OF req total(1) Cons.prems(2,3) total(2) Cons.prems(5,6,7) run, of a])
  have alike1: "both.alike h (op_at c) (srv_db srv1) (snd ?ref)" using alike(2) one(9) by simp
  have "length (concat (map encode_resp vs)) \<le> conn_max_frame_size (conn cl1)" using total(2) one(8) by simp
  from Cons.IH [OF one(5,6,7) this one(2,3,11) alike1 time(4) replies(3)]
  obtain srv' cl' where rest:
    "handle_client lim h ly json (events_of (srv_aof srv \<noteq> None) steps) srv1 cl1 = (srv', cl')"
    "phase cl' = Reading" "conn_buffer (conn cl') = []" "inbox (conn_stream (conn cl')) = [Closed]"
    "sent cl' = sent cl1 @ concat (map encode_resp replies')" "srv_aof srv' = srv_aof srv1"
    "log_ready ((old @ (if is_write_command cmd then record_bytes (a, cmd) else [])) @ log_bytes (records steps)) srv'"
    by (auto simp: one(10))
  have events: "events_of l (step # steps) = events_of l [(a, c, cmd)] @ events_of l steps" for l
    by (simp add: events_of_def step)
  have log: "old @ log_bytes (records (step # steps)) =
      (old @ (if is_write_command cmd then record_bytes (a, cmd) else [])) @ log_bytes (records steps)"
    by (simp add: step records_write log_bytes_def)
  show ?case
    unfolding log events handle_client_append using rest one by (simp add: replies(1))
qed

text \<open>
  C8: A client alone with a freshly started server, sending well-formed requests in whatever chunks,
  receives exactly the replies of the reference interpreter on one database, each once and in order;
  at the end of its stream its task returns without an error; and the log, if there is one, has grown
  by exactly the records of the writing commands, in order.
\<close>

theorem session_refines_reference:
  assumes "list_all2 (is_request lim) vs steps" "concat chunks = concat (map encode_resp vs)" "[] \<notin> set chunks"
    and "length (concat (map encode_resp vs)) \<le> m" "0 < max_depth lim"
    and "srv_db srv = sharded_new n" "log_ready old srv"
    and "in_time t (executions steps)" "reference_run (executions steps) db_new = map Ok replies"
    and "handle_client lim h ly json (events_of (srv_aof srv \<noteq> None) steps @ [(a, c, Socket)]) srv
      (client_new (sample_stream chunks) m) = (srv', cl')"
  shows "phase cl' = Finished (Ok ()) \<and> sent cl' = concat (map encode_resp replies) \<and>
    log_ready (old @ log_bytes (records steps)) srv'"
proof -
  let ?cl = "client_new (sample_stream chunks) m"
  have new: "conn_buffer (conn ?cl) @ concat chunks = concat (map encode_resp vs)"
    "inbox (conn_stream (conn ?cl)) = map Recv chunks @ [Closed]" "conn_max_frame_size (conn ?cl) = m"
    "phase ?cl = Reading" "send_faults (conn_stream (conn ?cl)) = []" "sent ?cl = []"
    using assms(2) by (simp_all add: client_new_def connection_new_def sample_stream_def)
  have "both.alike h t (srv_db srv) db_new" using new_alike by (simp add: assms(6))
  from session_steps [where ly = ly and json = json, OF assms(1) new(1) assms(3) new(2) _ new(4,5) assms(7) this assms(8,9)] assms(4) new(3,6)
  obtain srv1 cl1 where run:
    "handle_client lim h ly json (events_of (srv_aof srv \<noteq> None) steps) srv ?cl = (srv1, cl1)"
    "phase cl1 = Reading" "conn_buffer (conn cl1) = []" "inbox (conn_stream (conn cl1)) = [Closed]"
    "sent cl1 = concat (map encode_resp replies)" "log_ready (old @ log_bytes (records steps)) srv1"
    by auto
  have "fst (read_value lim (conn cl1)) = Some (Ok None)" "outbox (conn_stream (snd (read_value lim (conn cl1)))) = sent cl1"
    using run(3,4) assms(5)
    by (simp_all add: read_value_def case_prod_beta read_loop_round [of lim _ "[]"] settled_def arrives_def empty_incomplete)
  with run assms(10) show ?thesis
    by (auto simp: handle_client_append client_step_def case_prod_beta)
qed

definition sample_server :: server where
  "sample_server = \<lparr>srv_db = sharded_new 2, srv_stats = stats_new 0, srv_aof = Some sample_engine,
     srv_disk = disk_at (Map.empty(sample_path := Some [])) []\<rparr>"

definition sample_requests :: "resp_value list" where
  "sample_requests = [Array [BulkString ''set'', BulkString ''k'', BulkString ''v''], Array [BulkString ''GET'', BulkString ''k'']]"

theorem session_refines_reference_witness:
  "let r = handle_client sample_limits length sample_layout sample_json
        (replicate 4 (at_sec 1, at_sec 1, Socket)) sample_server (client_new (sample_stream (map encode_resp sample_requests)) 100)
   in sent (snd r) = ''+OK'' @ crlf @ ''$1'' @ crlf @ ''v'' @ crlf \<and> phase (snd r) = Finished (Ok ()) \<and>
      log_ready (log_bytes [(at_sec 1, Set ''k'' ''v'' None)]) (fst r)"
proof -
  let ?steps = "[(at_sec 1, at_sec 1, Set ''k'' ''v'' None), (at_sec 1, at_sec 1, Get ''k'')]"
  let ?chunks = "map encode_resp sample_requests"
  let ?events = "events_of (srv_aof sample_server \<noteq> None) ?steps @ [(at_sec 1, at_sec 1, Socket)]"
  let ?r = "handle_client sample_limits length sample_layout sample_json ?events sample_server
      (client_new (sample_stream ?chunks) 100)"
  have "list_all (encodable sample_limits) sample_requests" by code_simp
  moreover have "map (from_resp \<circ> frame_of) sample_requests = [Ok (Set ''k'' ''v'' None), Ok (Get ''k'')]" by code_simp
  ultimately have req: "list_all2 (is_request sample_limits) sample_requests ?steps"
    by (simp add: is_request_def sample_requests_def del: frame_of.simps)
  have size: "length (concat ?chunks) \<le> 100" "[] \<notin> set ?chunks" "0 < max_depth sample_limits" by code_simp+
  have fresh: "srv_db sample_server = sharded_new 2" "log_ready [] sample_server"
    by (simp_all add: sample_server_def log_ready_def sample_engine_def)
  have time: "in_time 0 (executions ?steps)" by (simp add: executions_def at_sec_def since_def)
  have ref: "reference_run (executions ?steps) db_new = map Ok [SimpleString ''OK'', BulkString ''v'']" by code_simp
  have events: "?events = replicate 4 (at_sec 1, at_sec 1, Socket)"
    by (simp add: events_of_def sample_server_def eval_nat_numeral)
  note session_refines_reference [OF req refl size(2,1,3) fresh time ref, of length sample_layout sample_json "at_sec 1" "at_sec 1"
      "fst ?r" "snd ?r", OF prod.collapse [symmetric]]
  moreover have "show_nat (Suc 0) = ''1''" by code_simp
  ultimately show ?thesis unfolding events by (simp add: Let_def records_def sample_limits_def)
qed


text \<open>
  The commands that are not logged do not write: whatever a later reader looks up, it finds the same
  as if they had not been executed. (All others are logged, if the server keeps a log.)
\<close>

theorem unlogged_commands_do_not_write:
  assumes "\<not> is_write_command cmd" "sharded_wf h db" "before c t"
  shows "visible t (sharded_map h (fst (snd (execute_command h ly json c cmd db st)))) = visible t (sharded_map h db) \<and>
    command_to_resp_bytes a cmd = None"
proof -
  have "command_args a cmd = None" using assms(1) logged_iff_write by blast
  with reading_command [OF this assms(2,3)] show ?thesis by (simp add: command_to_resp_bytes_def)
qed

theorem unlogged_commands_do_not_write_witness:
  "visible 5 (sharded_map length (fst (snd (execute_command length sample_layout sample_json (clock_at 3 None 9) (Get ''k'')
      (sharded_new 2) (stats_new 0))))) = visible 5 (sharded_map length (sharded_new 2))"
  using unlogged_commands_do_not_write [of "Get ''k''" length "sharded_new 2" "clock_at 3 None 9" 5] sharded_new_wf
  by simp

text \<open>
  A configuration is accepted exactly when its address has a character that is not white space and
  every limit is positive; it is refused as invalid input otherwise, and before anything is read or
  replayed; the default configuration is accepted.
\<close>

theorem config_validation:
  "(validate cfg = Ok () \<longleftrightarrow>
      (\<exists>ch \<in> set (utf8_chars (cfg_addr cfg)). \<not> char_is_whitespace ch) \<and> cfg_max_frame_size cfg \<noteq> 0 \<and>
      cfg_ttl_interval cfg \<noteq> 0 \<and> cfg_shard_count cfg \<noteq> 0 \<and> cfg_aof_rewrite_interval cfg \<noteq> 0 \<and>
      cfg_aof_rewrite_min_size cfg \<noteq> 0) \<and>
   (validate cfg \<noteq> Ok () \<longrightarrow> (\<exists>message. validate cfg = Err (IoError InvalidInput message) \<and>
      start_server lim h clk now local_addr cfg d = (Err (IoError InvalidInput message), d))) \<and>
   validate default_config = Ok ()"
proof -
  have "validate default_config = Ok ()" by code_simp
  then show ?thesis
    by (auto simp: validate_def invalid_config_def start_server_def str_trim_empty_iff list_all_iff)
qed

theorem config_validation_witness:
  "start_server sample_limits length (\<lambda>_. sample_clock) 0 (Ok ''127.0.0.1:7000'') (default_config\<lparr>cfg_shard_count := 0\<rparr>)
     (disk_at Map.empty []) =
   (Err (IoError InvalidInput ''shard count must be greater than 0''), disk_at Map.empty [])"
proof -
  have "validate (default_config\<lparr>cfg_shard_count := 0\<rparr>) =
      Err (IoError InvalidInput ''shard count must be greater than 0'')" by code_simp
  with config_validation [of "default_config\<lparr>cfg_shard_count := 0\<rparr>" sample_limits length "\<lambda>_. sample_clock" 0
      "Ok ''127.0.0.1:7000''" "disk_at Map.empty []"]
  show ?thesis by auto
qed

end
