(* ===== verification/Interleaving.thy ===== *)
theory Interleaving
  imports Server
begin

text \<open>
  The server with all its tasks: any number of client tasks, the TTL worker and the rewrite worker,
  taking turns in any order. A command that writes is logged and executed while its task holds the
  lock of the AOF engine and the read side of the rewrite barrier; a rewrite holds the write side
  from its snapshot to its end. \<open>now\<close>, \<open>history\<close>, \<open>appended_at\<close>, \<open>base\<close>, \<open>base_db\<close>, \<open>snapped_at\<close>,
  \<open>base_at\<close>, \<open>accepted\<close> and \<open>unwound\<close> are
  history variables: nothing the server does depends on them.
\<close>

record environment =
  env_limits :: limits
  env_hasher :: hasher
  env_layout :: layout
  env_json :: json
  env_frame_size :: nat
  env_min_size :: nat

datatype rewriter = Idle | Due | Snapshotted db_snapshot

record system =
  server_of :: server
  tasks :: "nat \<Rightarrow> client option"
  rewriter_of :: rewriter
  now :: instant
  history :: "served list"
  appended_at :: "clock option"
  base :: "(clock \<times> command) list"
  base_db :: sharded
  snapped_at :: "clock option"
  base_at :: "clock option"
  accepted :: nat
  unwound :: nat

definition sample_environment :: environment where
  "sample_environment = \<lparr>env_limits = sample_limits, env_hasher = length, env_layout = sample_layout, env_json = sample_json,
     env_frame_size = 100, env_min_size = 1\<rparr>"

definition initial_system :: "server \<Rightarrow> instant \<Rightarrow> system" where
  "initial_system srv t = \<lparr>server_of = srv, tasks = Map.empty, rewriter_of = Idle, now = t, history = [],
     appended_at = None, base = [], base_db = srv_db srv, snapped_at = None, base_at = None, accepted = 0, unwound = 0\<rparr>"

text \<open>The command a task is about to take from its connection, if its next step takes one.\<close>

definition next_command :: "limits \<Rightarrow> wake \<Rightarrow> client \<Rightarrow> command option" where
  "next_command lim w cl =
     (if phase cl = Reading \<and> w = Socket
      then case fst (read_value lim (conn cl)) of
             Some (Ok (Some frame)) \<Rightarrow> (case parse_command lim frame of Ok cmd \<Rightarrow> Some cmd | _ \<Rightarrow> None)
           | _ \<Rightarrow> None
      else None)"

text \<open>Nobody holds the engine's lock, nobody the write side of the barrier.\<close>

definition engine_free :: "system \<Rightarrow> bool" where
  "engine_free sys \<longleftrightarrow> (\<forall>i cl cmd. tasks sys i = Some cl \<longrightarrow> phase cl \<noteq> Logged cmd)"

definition barrier_open :: "system \<Rightarrow> bool" where
  "barrier_open sys \<longleftrightarrow> (case rewriter_of sys of Snapshotted snap \<Rightarrow> False | _ \<Rightarrow> True)"

definition task_step ::
  "environment \<Rightarrow> clock \<Rightarrow> clock \<Rightarrow> wake \<Rightarrow> nat \<Rightarrow> client \<Rightarrow> system \<Rightarrow> system" where
  "task_step env a c w i cl sys =
     (let (srv, cl') = client_step (env_limits env) (env_hasher env) (env_layout env) (env_json env) a c w (server_of sys) cl
      in sys\<lparr>server_of := srv, tasks := (tasks sys)(i \<mapsto> cl')\<rparr>)"

text \<open>
  \<open>accept\<close> and \<open>leave\<close> are the first and last lines of the spawned task; a task that has unwound never
  reaches its last line. \<open>log\<close> is the append, \<open>run_logged\<close> the execution that follows it under the lock.
\<close>

text \<open>Who takes a step.\<close>

datatype actor = Acceptor | Client_task nat | Ttl_worker | Rewrite_worker

inductive system_step :: "environment \<Rightarrow> actor \<Rightarrow> system \<Rightarrow> system \<Rightarrow> bool" for env where
  accept: "tasks sys i = None \<Longrightarrow> system_step env Acceptor sys
    (sys\<lparr>server_of := (server_of sys)\<lparr>srv_stats := incr_connected_clients (srv_stats (server_of sys))\<rparr>,
       tasks := (tasks sys)(i \<mapsto> client_new s (env_frame_size env)), accepted := accepted sys + 1\<rparr>)"
| wait: "tasks sys i = Some cl \<Longrightarrow> phase cl = Reading \<Longrightarrow> next_command (env_limits env) w cl = None \<Longrightarrow>
    system_step env (Client_task i) sys (task_step env a c w i cl sys)"
| run: "tasks sys i = Some cl \<Longrightarrow> next_command (env_limits env) Socket cl = Some cmd \<Longrightarrow>
    \<not> is_write_command cmd \<or> srv_aof (server_of sys) = None \<Longrightarrow> since (now sys) c \<Longrightarrow> monotonic c \<Longrightarrow>
    system_step env (Client_task i) sys ((task_step env a c Socket i cl sys)\<lparr>now := op_at c, history := history sys @ [(a, c, cmd)]\<rparr>)"
| log: "tasks sys i = Some cl \<Longrightarrow> next_command (env_limits env) Socket cl = Some cmd \<Longrightarrow>
    is_write_command cmd \<Longrightarrow> srv_aof (server_of sys) = Some eng \<Longrightarrow> engine_free sys \<Longrightarrow> barrier_open sys \<Longrightarrow>
    system_step env (Client_task i) sys ((task_step env a c Socket i cl sys)\<lparr>appended_at := Some a\<rparr>)"
| run_logged: "tasks sys i = Some cl \<Longrightarrow> phase cl = Logged cmd \<Longrightarrow> since (now sys) c \<Longrightarrow> monotonic c \<Longrightarrow>
    system_step env (Client_task i) sys ((task_step env a c w i cl sys)\<lparr>now := op_at c, appended_at := None,
      history := history sys @ [(the (appended_at sys), c, cmd)]\<rparr>)"
| leave: "tasks sys i = Some cl \<Longrightarrow> phase cl = Finished r \<Longrightarrow> r \<noteq> Panic \<Longrightarrow> system_step env (Client_task i) sys
    (sys\<lparr>server_of := (server_of sys)\<lparr>srv_stats := decr_connected_clients (srv_stats (server_of sys))\<rparr>,
       tasks := (tasks sys)(i := None)\<rparr>)"
| unwind: "tasks sys i = Some cl \<Longrightarrow> phase cl = Finished Panic \<Longrightarrow>
    system_step env (Client_task i) sys (sys\<lparr>tasks := (tasks sys)(i := None), unwound := unwound sys + 1\<rparr>)"
| tick: "since (now sys) c \<Longrightarrow> monotonic c \<Longrightarrow>
    system_step env Ttl_worker sys (sys\<lparr>server_of := ttl_tick c (server_of sys), now := op_at c\<rparr>)"
| check_size: "rewriter_of sys = Idle \<Longrightarrow> srv_aof (server_of sys) = Some eng \<Longrightarrow> engine_free sys \<Longrightarrow>
    rewrite_due (env_min_size env) eng (srv_disk (server_of sys)) = (res, d) \<Longrightarrow>
    system_step env Rewrite_worker sys (sys\<lparr>server_of := (server_of sys)\<lparr>srv_disk := d\<rparr>,
      rewriter_of := (if res = Ok True then Due else Idle)\<rparr>)"
| snapshot: "rewriter_of sys = Due \<Longrightarrow> engine_free sys \<Longrightarrow> since (now sys) c \<Longrightarrow> monotonic c \<Longrightarrow>
    take_snapshot c (server_of sys) = (snap, srv) \<Longrightarrow>
    system_step env Rewrite_worker sys (sys\<lparr>server_of := srv, now := op_at c, rewriter_of := Snapshotted snap, snapped_at := Some c\<rparr>)"
| rewrite: "rewriter_of sys = Snapshotted snap \<Longrightarrow> srv_aof (server_of sys) = Some eng \<Longrightarrow>
    rewrite_log c snap eng (server_of sys) = (res, srv) \<Longrightarrow>
    system_step env Rewrite_worker sys
      (if res = Ok ()
       then sys\<lparr>server_of := srv, rewriter_of := Idle, history := [], base_db := srv_db srv,
              base_at := snapped_at sys, base := map (\<lambda>e. (c, snapshot_command e)) (snap_entries snap)\<rparr>
       else sys\<lparr>server_of := srv, rewriter_of := Idle\<rparr>)"

inductive reachable :: "environment \<Rightarrow> system \<Rightarrow> system \<Rightarrow> bool" for env start where
  start: "reachable env start start"
| further: "reachable env start sys \<Longrightarrow> system_step env actor sys sys' \<Longrightarrow> reachable env start sys'"

section \<open>The steps of one task\<close>

lemma execute_and_reply_server:
  "fst (execute_and_reply h ly json c cmd srv cl) =
     srv\<lparr>srv_db := fst (snd (execute_command h ly json c cmd (srv_db srv) (srv_stats srv))),
       srv_stats := snd (snd (execute_command h ly json c cmd (srv_db srv) (srv_stats srv)))\<rparr>"
  by (simp add: execute_and_reply_def case_prod_beta Let_def split: result.split)

lemma respond_phase: "phase (respond v cl) \<noteq> Logged cmd"
  by (simp add: respond_def case_prod_beta split: result.split)

lemma execute_and_reply_phase: "phase (snd (execute_and_reply h ly json c cmd srv cl)) \<noteq> Logged cmd'"
  by (simp add: execute_and_reply_def case_prod_beta Let_def respond_phase split: result.split)

lemma client_step_waits:
  assumes "phase cl = Reading" "next_command lim w cl = None"
  shows "fst (client_step lim h ly json a c w srv cl) = srv"
    and "phase (snd (client_step lim h ly json a c w srv cl)) \<noteq> Logged cmd"
  using assms
  by (auto simp: client_step_def next_command_def handle_frame_def case_prod_beta Let_def respond_phase
      split: wake.splits option.splits result.splits)

lemma client_step_takes:
  assumes "next_command lim w cl = Some cmd"
  obtains cn where "w = Socket" "phase cl = Reading"
    "client_step lim h ly json a c w srv cl = handle_command h ly json a c cmd srv (cl\<lparr>conn := cn\<rparr>)"
proof -
  from assms obtain frame where "phase cl = Reading" "w = Socket"
    and "fst (read_value lim (conn cl)) = Some (Ok (Some frame))" "parse_command lim frame = Ok cmd"
    by (auto simp: next_command_def split: if_splits option.splits result.splits)
  then show ?thesis
    using that [of "snd (read_value lim (conn cl))"]
    by (simp add: client_step_def handle_frame_def case_prod_beta Let_def)
qed

lemma handle_command_logs:
  assumes "phase (snd (handle_command h ly json a c cmd srv cl)) = Logged cmd'"
  shows "cmd' = cmd \<and> is_write_command cmd \<and> (\<exists>eng. srv_aof srv = Some eng)"
  using assms execute_and_reply_phase respond_phase
  by (auto simp: handle_command_def Let_def case_prod_beta split: if_splits option.splits result.splits)

text \<open>Only an append leads to \<open>Logged\<close>.\<close>

lemma client_step_logs:
  assumes "phase (snd (client_step lim h ly json a c w srv cl)) = Logged cmd"
  shows "next_command lim w cl = Some cmd \<and> is_write_command cmd \<and> (\<exists>eng. srv_aof srv = Some eng)"
proof (cases "phase cl")
  case Reading
  show ?thesis
  proof (cases "next_command lim w cl")
    case None
    with assms client_step_waits(2) [OF Reading] show ?thesis by blast
  next
    case (Some cmd')
    obtain cn where "client_step lim h ly json a c w srv cl = handle_command h ly json a c cmd' srv (cl\<lparr>conn := cn\<rparr>)"
      by (rule client_step_takes [OF Some])
    with assms handle_command_logs [of h ly json a c cmd' srv "cl\<lparr>conn := cn\<rparr>" cmd] Some show ?thesis by auto
  qed
next
  case (Logged cmd')
  with assms execute_and_reply_phase show ?thesis by (simp add: client_step_def)
next
  case (Finished r)
  with assms show ?thesis by (simp add: client_step_def)
qed

lemma execute_keeps_connected:
  "connected_clients (snd (snd (execute_command h ly json c cmd sd st))) = connected_clients st"
  by (cases cmd)
     (simp_all add: execute_command_def after_op_def note_outcome_def stats_updates case_prod_beta Let_def
       set_memory_estimate_bytes_def to_json_string_def stats_snapshot_at_def split: result.split)

lemma handle_command_keeps_connected:
  "connected_clients (srv_stats (fst (handle_command h ly json a c cmd srv cl))) = connected_clients (srv_stats srv)"
  by (simp add: handle_command_def case_prod_beta Let_def execute_and_reply_server
      execute_keeps_connected split: option.split result.split)

lemma client_step_keeps_connected:
  "connected_clients (srv_stats (fst (client_step lim h ly json a c w srv cl))) = connected_clients (srv_stats srv)"
  by (simp add: client_step_def handle_frame_def case_prod_beta Let_def execute_and_reply_server
      execute_keeps_connected handle_command_keeps_connected split: phase.split wake.split option.split result.split)

section \<open>The lock of the log\<close>

definition exclusive :: "system \<Rightarrow> bool" where
  "exclusive sys \<longleftrightarrow>
     (\<forall>i j cl cl' cmd cmd'. tasks sys i = Some cl \<longrightarrow> phase cl = Logged cmd \<longrightarrow>
        tasks sys j = Some cl' \<longrightarrow> phase cl' = Logged cmd' \<longrightarrow> i = j) \<and>
     (barrier_open sys \<or> engine_free sys)"

lemma task_step_simps [simp]:
  "tasks (task_step env a c w i cl sys) = (tasks sys)(i \<mapsto>
     snd (client_step (env_limits env) (env_hasher env) (env_layout env) (env_json env) a c w (server_of sys) cl))"
  "server_of (task_step env a c w i cl sys) =
     fst (client_step (env_limits env) (env_hasher env) (env_layout env) (env_json env) a c w (server_of sys) cl)"
  "rewriter_of (task_step env a c w i cl sys) = rewriter_of sys" "now (task_step env a c w i cl sys) = now sys"
  "history (task_step env a c w i cl sys) = history sys" "appended_at (task_step env a c w i cl sys) = appended_at sys"
  "base (task_step env a c w i cl sys) = base sys" "base_db (task_step env a c w i cl sys) = base_db sys"
  "base_at (task_step env a c w i cl sys) = base_at sys" "snapped_at (task_step env a c w i cl sys) = snapped_at sys"
  "accepted (task_step env a c w i cl sys) = accepted sys" "unwound (task_step env a c w i cl sys) = unwound sys"
  by (simp_all add: task_step_def case_prod_beta Let_def)

text \<open>A task that does not come to hold the lock leaves the exclusion as it was.\<close>

lemma exclusive_upd:
  assumes "exclusive sys" "\<And>cmd. phase cl' = Logged cmd \<Longrightarrow> engine_free sys \<and> barrier_open sys"
    and "tasks sys' = (tasks sys)(i \<mapsto> cl')" "rewriter_of sys' = rewriter_of sys"
  shows "exclusive sys'"
  using assms unfolding exclusive_def engine_free_def barrier_open_def
  by (auto split: if_splits)

lemma exclusive_remove:
  "exclusive sys \<Longrightarrow> tasks sys' = (tasks sys)(i := None) \<Longrightarrow> rewriter_of sys' = rewriter_of sys \<Longrightarrow> exclusive sys'"
  unfolding exclusive_def engine_free_def barrier_open_def by (auto split: if_splits)

lemma exclusive_step: "system_step env actor sys sys' \<Longrightarrow> exclusive sys \<Longrightarrow> exclusive sys'"
proof (induction rule: system_step.induct)
  case (accept sys i s)
  show ?case by (rule exclusive_upd [OF accept(2)]) (simp_all add: client_new_def)
next
  case (wait sys i cl w a c)
  note waits = client_step_waits(2) [OF wait(2,3)]
  show ?case by (rule exclusive_upd [OF wait(4)]) (simp_all add: waits)
next
  case (run sys i cl cmd c a)
  have "phase (snd (client_step (env_limits env) (env_hasher env) (env_layout env) (env_json env) a c Socket
      (server_of sys) cl)) \<noteq> Logged cmd'" for cmd'
    using client_step_logs [of "env_limits env" _ _ _ a c Socket "server_of sys" cl cmd'] run(2,3) by fastforce
  note no_log = this
  show ?case by (rule exclusive_upd [OF run(6)]) (simp_all add: no_log)
next
  case (log sys i cl cmd eng a c)
  show ?case by (rule exclusive_upd [OF log(7)]) (use log(5,6) in simp_all)
next
  case (run_logged sys i cl cmd c a w)
  then have "phase (snd (client_step (env_limits env) (env_hasher env) (env_layout env) (env_json env) a c w (server_of sys) cl)) \<noteq> Logged cmd'" for cmd'
    by (simp add: client_step_def execute_and_reply_phase)
  note no_log = this
  show ?case by (rule exclusive_upd [OF run_logged(5)]) (simp_all add: no_log)
next
  case (leave sys i cl r)
  show ?case by (rule exclusive_remove [OF leave(4)]) simp_all
next
  case (unwind sys i cl)
  show ?case by (rule exclusive_remove [OF unwind(3)]) simp_all
qed (auto simp: exclusive_def engine_free_def barrier_open_def)

lemma exclusive_initial: "exclusive (initial_system srv t)"
  by (simp add: exclusive_def initial_system_def engine_free_def)

lemma reachable_exclusive: "reachable env (initial_system srv t) sys \<Longrightarrow> exclusive sys"
  by (induction rule: reachable.induct) (auto intro: exclusive_initial exclusive_step)

section \<open>The clients that are counted\<close>

definition counted :: "system \<Rightarrow> bool" where
  "counted sys \<longleftrightarrow> finite (dom (tasks sys)) \<and>
     connected_clients (srv_stats (server_of sys)) = u64_of (card (dom (tasks sys)) + unwound sys) \<and>
     card (dom (tasks sys)) + unwound sys \<le> accepted sys"

lemma ttl_tick_keeps_connected:
  "connected_clients (srv_stats (ttl_tick c srv)) = connected_clients (srv_stats srv)"
  by (simp add: ttl_tick_def case_prod_beta Let_def stats_updates)

lemma counted_same:
  assumes "counted sys" "dom (tasks sys') = dom (tasks sys)" "unwound sys' = unwound sys" "accepted sys' = accepted sys"
    and "connected_clients (srv_stats (server_of sys')) = connected_clients (srv_stats (server_of sys))"
  shows "counted sys'"
  using assms by (simp add: counted_def)

lemma counted_task_step:
  assumes "counted sys" "tasks sys i = Some cl"
  shows "counted (task_step env a c w i cl sys)"
  by (rule counted_same [OF assms(1)]) (use assms(2) in \<open>auto simp: client_step_keeps_connected\<close>)

lemma unat_u64_of: "n < 2 ^ 64 \<Longrightarrow> unat (u64_of n) = n"
  by (simp add: u64_of_def unat_of_nat take_bit_nat_eq_self unsigned_of_nat)

lemma counted_step:
  assumes "system_step env actor sys sys'"
  shows "counted sys \<Longrightarrow> accepted sys' < 2 ^ 64 \<Longrightarrow> counted sys'"
  using assms
proof (induction rule: system_step.induct)
  case (accept sys i s)
  then have "card (dom ((tasks sys)(i \<mapsto> cl))) = Suc (card (dom (tasks sys)))" for cl
    by (simp add: counted_def domIff)
  with accept show ?case
    by (simp add: counted_def incr_connected_clients_def u64_of_add)
next
  case (wait sys i cl w a c)
  then show ?case by (intro counted_task_step)
next
  case (run sys i cl cmd c a)
  show ?case by (rule counted_same [OF counted_task_step [OF run(6,1)]]) simp_all
next
  case (log sys i cl cmd eng a c)
  show ?case by (rule counted_same [OF counted_task_step [OF log(7,1)]]) simp_all
next
  case (run_logged sys i cl cmd c a w)
  show ?case by (rule counted_same [OF counted_task_step [OF run_logged(5,1)]]) simp_all
next
  case (leave sys i cl r)
  let ?n = "card (dom (tasks sys)) + unwound sys"
  have "i \<in> dom (tasks sys)" using leave(1) by blast
  then have card: "card (dom (tasks sys)) = Suc (card (dom (tasks sys) - {i}))"
    using leave(4) card.remove [of "dom (tasks sys)" i] by (simp add: counted_def)
  have "unat (connected_clients (srv_stats (server_of sys))) = card (dom (tasks sys)) + unwound sys"
    using leave(4,5) unat_u64_of by (simp add: counted_def)
  then have "connected_clients (srv_stats (server_of sys)) \<noteq> 0" using card by auto
  moreover have "connected_clients (srv_stats (server_of sys)) - 1 = u64_of (card (dom (tasks sys) - {i}) + unwound sys)"
    using leave(4) card by (simp add: counted_def)
  ultimately show ?case
    using leave(4) card by (simp add: counted_def decr_connected_clients_def dom_fun_upd)
next
  case (unwind sys i cl)
  have "i \<in> dom (tasks sys)" using unwind(1) by blast
  then have "card (dom (tasks sys)) = Suc (card (dom (tasks sys) - {i}))"
    using unwind(3) card.remove [of "dom (tasks sys)" i] by (simp add: counted_def)
  with unwind(3) show ?case by (simp add: counted_def dom_fun_upd)
next
  case (tick sys c)
  then show ?case by (simp add: counted_def ttl_tick_keeps_connected)
next
  case (check_size sys eng res d)
  then show ?case by (simp add: counted_def)
next
  case (snapshot sys c snap srv)
  then show ?case by (auto simp: counted_def take_snapshot_def case_prod_beta)
next
  case (rewrite sys snap eng c res srv)
  then show ?case by (auto simp: counted_def rewrite_log_def case_prod_beta Let_def)
qed

lemma accepted_grows: "system_step env actor sys sys' \<Longrightarrow> accepted sys \<le> accepted sys'"
  by (induction rule: system_step.induct) simp_all

text \<open>
  C24: In every reachable state, as long as fewer than \<open>2^64\<close> connections have been accepted, the
  statistics count the tasks that are alive \<^emph>\<open>and\<close> those that have unwound: the counter never falls
  below the number of clients, and every panicking request raises it for good.
\<close>

theorem connected_clients_counts_unwound_tasks:
  assumes "reachable env (initial_system srv t) sys" "connected_clients (srv_stats srv) = 0" "accepted sys < 2 ^ 64"
  shows "finite (dom (tasks sys)) \<and>
    unat (connected_clients (srv_stats (server_of sys))) = card (dom (tasks sys)) + unwound sys"
proof -
  have "counted sys"
    using assms(1,3)
  proof (induction rule: reachable.induct)
    case start
    then show ?case using assms(2) by (simp add: counted_def initial_system_def)
  next
    case (further sys sys')
    with accepted_grows [OF further(2)] show ?case using counted_step [OF further(2)] by simp
  qed
  with assms(3) show ?thesis
    using unat_u64_of [of "card (dom (tasks sys)) + unwound sys"] by (simp add: counted_def)
qed

theorem connected_clients_counts_unwound_tasks_witness:
  "unat (connected_clients (incr_connected_clients (stats_new 0))) = 1"
proof -
  let ?env = sample_environment
  let ?start = "initial_system sample_server 0"
  have "tasks ?start 7 = None" by (simp add: initial_system_def)
  from system_step.accept [of ?start 7 ?env "sample_stream []", OF this]
  have "reachable ?env ?start (?start\<lparr>server_of := sample_server\<lparr>srv_stats := incr_connected_clients (stats_new 0)\<rparr>,
      tasks := [7 \<mapsto> client_new (sample_stream []) 100], accepted := 1\<rparr>)"
    by (intro reachable.further [OF reachable.start]) (simp add: initial_system_def sample_server_def sample_environment_def)
  from connected_clients_counts_unwound_tasks [OF this] show ?thesis
    by (simp add: initial_system_def sample_server_def stats_new_def)
qed

section \<open>The log and the store\<close>












































end
