(* ===== verification/Lifecycle.thy ===== *)
theory Lifecycle
  imports Interleaving
begin

text \<open>
  The life of the server after its start (\<open>run_with_listener_and_shutdown\<close> from its accept loop on): it
  accepts clients until the shutdown flag is raised (or its sender is gone) or \<open>accept\<close> fails; then it waits
  for the client tasks, for the TTL worker and for the rewrite worker, flushes the log and returns. The tasks
  run as in \<open>Interleaving\<close>; the flag may be raised at any time, and each of them notices it in its own time.
\<close>

section \<open>Start\<close>

text \<open>The arguments of \<open>rustkv-server\<close> (\<open>main.rs\<close>), as clap has read them, and the configuration made of them.\<close>

record server_args =
  arg_addr :: bytes
  arg_aof :: "path option"
  arg_max_frame_size :: nat
  arg_ttl_interval_ms :: nat
  arg_shards :: nat
  arg_aof_rewrite_interval_ms :: nat
  arg_aof_rewrite_min_size :: nat

definition config_of_args :: "server_args \<Rightarrow> server_config" where
  "config_of_args args = \<lparr>cfg_addr = arg_addr args, cfg_aof_path = arg_aof args, cfg_max_frame_size = arg_max_frame_size args,
     cfg_ttl_interval = from_millis (arg_ttl_interval_ms args), cfg_shard_count = arg_shards args,
     cfg_aof_rewrite_interval = from_millis (arg_aof_rewrite_interval_ms args),
     cfg_aof_rewrite_min_size = arg_aof_rewrite_min_size args\<rparr>"

text \<open>
  \<open>run\<close>: the configuration is checked, the address bound (\<open>bound\<close> is the listener's \<open>local_addr\<close>, when binding
  succeeds), and the server started.
\<close>

definition server_run ::
  "limits \<Rightarrow> hasher \<Rightarrow> (nat \<Rightarrow> clock) \<Rightarrow> instant \<Rightarrow> server_config \<Rightarrow> (io_error, (io_error, bytes) result) result \<Rightarrow> disk \<Rightarrow>
    (io_error, server) result \<times> disk" where
  "server_run lim h clk first_instant cfg bound d =
     (case try_then (validate cfg) (\<lambda>_. bound) of
        Err e \<Rightarrow> (Err e, d)
      | Panic \<Rightarrow> (Panic, d)
      | Ok local_addr \<Rightarrow> start_server lim h clk first_instant local_addr cfg d)"

section \<open>The shutdown flag and the workers\<close>

text \<open>
  What a receiver of the flag sees when it changes: its value, or \<open>None\<close> when the sender is gone.
  \<open>shutdown_signal\<close> sends \<open>true\<close> on Ctrl+C; when it cannot listen for it, it drops the sender.
\<close>

definition flag_raised :: "bool option \<Rightarrow> bool" where
  "flag_raised v \<longleftrightarrow> v = None \<or> v = Some True"

definition shutdown_signal :: "(io_error, unit) result \<Rightarrow> bool option" where
  "shutdown_signal ctrl_c = (case ctrl_c of Ok _ \<Rightarrow> Some True | _ \<Rightarrow> None)"

lemma shutdown_signal_raises: "flag_raised (shutdown_signal ctrl_c)"
  by (simp add: shutdown_signal_def flag_raised_def split: result.split)

datatype worker_wake = Flag_changed "bool option" | Interval_tick clock

text \<open>The loops of the two workers, each alone with the server; whether it still runs, and the server. A failed rewrite is only reported.\<close>

fun ttl_worker :: "worker_wake list \<Rightarrow> server \<Rightarrow> bool \<times> server" where
  "ttl_worker [] srv = (True, srv)"
| "ttl_worker (Flag_changed v # wakes) srv = (if flag_raised v then (False, srv) else ttl_worker wakes srv)"
| "ttl_worker (Interval_tick c # wakes) srv = ttl_worker wakes (ttl_tick c srv)"

fun aof_rewrite_worker :: "nat \<Rightarrow> worker_wake list \<Rightarrow> server \<Rightarrow> bool \<times> server" where
  "aof_rewrite_worker min_size [] srv = (True, srv)"
| "aof_rewrite_worker min_size (Flag_changed v # wakes) srv =
     (if flag_raised v then (False, srv) else aof_rewrite_worker min_size wakes srv)"
| "aof_rewrite_worker min_size (Interval_tick c # wakes) srv =
     aof_rewrite_worker min_size wakes
       (case srv_aof srv of Some engine \<Rightarrow> snd (maybe_rewrite_aof c min_size engine srv) | None \<Rightarrow> srv)"

section \<open>The states of a run\<close>

record run_state =
  running :: system
  stop_requested :: bool
  accepting :: bool
  ttl_running :: bool
  rewriter_running :: bool
  run_result :: "(io_error, unit) result option"


definition may_act :: "run_state \<Rightarrow> actor \<Rightarrow> bool" where
  "may_act st actor =
     (case actor of
        Acceptor \<Rightarrow> accepting st
      | Client_task i \<Rightarrow> True
      | Ttl_worker \<Rightarrow> ttl_running st
      | Rewrite_worker \<Rightarrow> rewriter_running st)"

text \<open>
  \<open>stop_accepting\<close> is the \<open>break\<close> of the accept loop, \<open>accept_fails\<close> the \<open>?\<close> on \<open>accept\<close>: \<open>run\<close> returns at once,
  and the \<open>JoinSet\<close> it drops aborts the client tasks wherever they wait, while the workers, whose handles are
  merely dropped, go on. The workers end at the top of their loops. \<open>finish\<close> is what follows the last \<open>await\<close>.
\<close>

inductive run_step :: "environment \<Rightarrow> run_state \<Rightarrow> run_state \<Rightarrow> bool" for env where
  work: "system_step env actor (running st) sys' \<Longrightarrow> may_act st actor \<Longrightarrow> run_step env st (st\<lparr>running := sys'\<rparr>)"
| request_stop: "run_step env st (st\<lparr>stop_requested := True\<rparr>)"
| stop_accepting: "accepting st \<Longrightarrow> stop_requested st \<Longrightarrow> run_step env st (st\<lparr>accepting := False\<rparr>)"
| accept_fails: "accepting st \<Longrightarrow> run_step env st (st\<lparr>accepting := False, run_result := Some (Err e)\<rparr>)"
| abort_task: "run_result st = Some (Err e) \<Longrightarrow> tasks (running st) i = Some cl \<Longrightarrow>
    run_step env st (st\<lparr>running := (running st)\<lparr>tasks := (tasks (running st))(i := None)\<rparr>\<rparr>)"
| ttl_stops: "ttl_running st \<Longrightarrow> stop_requested st \<Longrightarrow> run_step env st (st\<lparr>ttl_running := False\<rparr>)"
| rewriter_stops: "rewriter_running st \<Longrightarrow> stop_requested st \<Longrightarrow> rewriter_of (running st) = Idle \<Longrightarrow>
    run_step env st (st\<lparr>rewriter_running := False\<rparr>)"
| finish: "run_result st = None \<Longrightarrow> \<not> accepting st \<Longrightarrow> tasks (running st) = Map.empty \<Longrightarrow> \<not> ttl_running st \<Longrightarrow>
    \<not> rewriter_running st \<Longrightarrow> shut_down (server_of (running st)) = (res, srv) \<Longrightarrow>
    run_step env st (st\<lparr>running := (running st)\<lparr>server_of := srv\<rparr>, run_result := Some res\<rparr>)"

abbreviation run_path :: "environment \<Rightarrow> run_state \<Rightarrow> run_state \<Rightarrow> bool" where
  "run_path env \<equiv> (run_step env)\<^sup>*\<^sup>*"

section \<open>What the server has done when it returns\<close>










section \<open>A shutdown can always complete\<close>





text \<open>The steps by which a run gets from one state of its system to another, all else being equal.\<close>

definition run_to :: "environment \<Rightarrow> run_state \<Rightarrow> system \<Rightarrow> bool" where
  "run_to env st sys \<longleftrightarrow> run_path env st (st\<lparr>running := sys\<rparr>)"


lemma run_to_step: "run_to env st sys \<Longrightarrow> system_step env actor sys sys' \<Longrightarrow> may_act st actor \<Longrightarrow> run_to env st sys'"
  using run_step.work [of env actor "st\<lparr>running := sys\<rparr>" sys']
  by (auto simp: run_to_def may_act_def split: actor.splits intro: rtranclp.rtrancl_into_rtrancl)






lemma flag_already_down [simp]:
  "\<not> accepting st \<Longrightarrow> st\<lparr>accepting := False\<rparr> = st" "\<not> ttl_running st \<Longrightarrow> st\<lparr>ttl_running := False\<rparr> = st"
  "\<not> rewriter_running st \<Longrightarrow> st\<lparr>rewriter_running := False\<rparr> = st"
  "tasks (running st) = Map.empty \<Longrightarrow> st\<lparr>running := (running st)\<lparr>tasks := Map.empty\<rparr>\<rparr> = st"
  by (cases st; simp)+





section \<open>The workers' loops\<close>

text \<open>The clock readings of a worker's ticks, in the order of time.\<close>

fun ticks_in_time :: "instant \<Rightarrow> worker_wake list \<Rightarrow> bool" where
  "ticks_in_time t [] \<longleftrightarrow> True"
| "ticks_in_time t (Flag_changed v # wakes) \<longleftrightarrow> ticks_in_time t wakes"
| "ticks_in_time t (Interval_tick c # wakes) \<longleftrightarrow> since t c \<and> monotonic c \<and> ticks_in_time (op_at c) wakes"

lemma since_earlier: "since t c \<Longrightarrow> t' \<le> t \<Longrightarrow> since t' c"
  by (auto simp: since_def intro: le_trans)

lemma ticks_earlier: "ticks_in_time t wakes \<Longrightarrow> t' \<le> t \<Longrightarrow> ticks_in_time t' wakes"
  by (induction t wakes rule: ticks_in_time.induct) (auto intro: since_earlier)

text \<open>Each worker's loop, while nobody else acts, is a path of the server's steps.\<close>

lemma ttl_worker_refines:
  "ttl_worker wakes (server_of sys) = (alive, srv) \<Longrightarrow> ticks_in_time (now sys) wakes \<Longrightarrow> run_to env st sys \<Longrightarrow> ttl_running st \<Longrightarrow>
     \<exists>sys'. run_to env st sys' \<and> server_of sys' = srv \<and> (\<not> alive \<longrightarrow> (\<exists>v. Flag_changed v \<in> set wakes \<and> flag_raised v))"
proof (induction wakes "server_of sys" arbitrary: sys rule: ttl_worker.induct)
  case 1
  then show ?case by auto
next
  case (2 v wakes)
  then show ?case by (fastforce split: if_splits)
next
  case (3 c wakes)
  let ?sys = "sys\<lparr>server_of := ttl_tick c (server_of sys), now := op_at c\<rparr>"
  have "run_to env st ?sys"
    using 3(3-5) by (intro run_to_step [OF 3(4) system_step.tick]) (auto simp: may_act_def)
  with 3(1) [of ?sys] 3(2,3,5) show ?case by auto
qed

lemma maybe_rewrite_refines:
  assumes "run_to env st sys" "rewriter_running st" "rewriter_of sys = Idle" "engine_free sys"
    and "srv_aof (server_of sys) = Some eng" "since (now sys) c" "monotonic c"
    and "maybe_rewrite_aof c (env_min_size env) eng (server_of sys) = (res, srv)"
  shows "\<exists>sys'. run_to env st sys' \<and> server_of sys' = srv \<and> rewriter_of sys' = Idle \<and> tasks sys' = tasks sys \<and> now sys' \<le> op_at c"
proof -
  note act = run_to_step [where actor = Rewrite_worker and st = st and env = env]
  have may: "may_act st Rewrite_worker" using assms(2) by (simp add: may_act_def)
  obtain due d where due: "rewrite_due (env_min_size env) eng (srv_disk (server_of sys)) = (due, d)" by fastforce
  let ?sys1 = "sys\<lparr>server_of := (server_of sys)\<lparr>srv_disk := d\<rparr>, rewriter_of := (if due = Ok True then Due else Idle)\<rparr>"
  have one: "run_to env st ?sys1" by (rule act [OF assms(1) system_step.check_size [OF assms(3,5,4) due] may])
  show ?thesis
  proof (cases "due = Ok True")
    case False
    with assms(8) due have "srv = (server_of sys)\<lparr>srv_disk := d\<rparr>"
      by (auto simp: maybe_rewrite_aof_def Let_def split: result.splits bool.splits)
    with one False sinceD(3) [OF assms(6)] show ?thesis by (intro exI [of _ ?sys1]) simp
  next
    case True
    obtain snap srv1 where snap: "take_snapshot c (server_of ?sys1) = (snap, srv1)" by fastforce
    then have aof: "srv_aof srv1 = Some eng" using assms(5) by (auto simp: take_snapshot_def case_prod_beta)
    let ?sys2 = "?sys1\<lparr>server_of := srv1, now := op_at c, rewriter_of := Snapshotted snap, snapped_at := Some c\<rparr>"
    have two: "run_to env st ?sys2"
      by (rule act [OF one system_step.snapshot [OF _ _ _ assms(7) snap] may])
         (use True assms(4,6) in \<open>simp_all add: engine_free_def\<close>)
    have log: "rewrite_log c snap eng (server_of ?sys2) = (res, srv)"
      using assms(8) due True snap by (simp add: maybe_rewrite_aof_def Let_def)
    have "run_to env st (if res = Ok ()
        then ?sys2\<lparr>server_of := srv, rewriter_of := Idle, history := [], base_db := srv_db srv, base_at := snapped_at ?sys2,
               base := map (\<lambda>e. (c, snapshot_command e)) (snap_entries snap)\<rparr>
        else ?sys2\<lparr>server_of := srv, rewriter_of := Idle\<rparr>)"
      by (rule act [OF two system_step.rewrite [OF _ _ log] may]) (use aof in simp_all)
    then show ?thesis by (cases "res = Ok ()") (auto intro: exI)
  qed
qed

lemma aof_rewrite_worker_refines:
  "aof_rewrite_worker (env_min_size env) wakes (server_of sys) = (alive, srv) \<Longrightarrow> ticks_in_time (now sys) wakes \<Longrightarrow>
     run_to env st sys \<Longrightarrow> rewriter_running st \<Longrightarrow> rewriter_of sys = Idle \<Longrightarrow> engine_free sys \<Longrightarrow>
     \<exists>sys'. run_to env st sys' \<and> server_of sys' = srv \<and> rewriter_of sys' = Idle"
proof (induction "env_min_size env" wakes "server_of sys" arbitrary: sys rule: aof_rewrite_worker.induct)
  case 1
  then show ?case by auto
next
  case (2 v wakes)
  then show ?case by (fastforce split: if_splits)
next
  case (3 c wakes)
  have later: "ticks_in_time t wakes" if "t \<le> op_at c" for t
    using that 3(3) ticks_earlier by auto
  show ?case
  proof (cases "srv_aof (server_of sys)")
    case None
    with 3 later [of "now sys"] sinceD(3) show ?thesis by auto
  next
    case (Some eng)
    obtain res srv1 where run: "maybe_rewrite_aof c (env_min_size env) eng (server_of sys) = (res, srv1)" by fastforce
    have "since (now sys) c" "monotonic c" using 3(3) by simp_all
    from maybe_rewrite_refines [OF 3(4-7) Some this run] obtain sys' where
      "run_to env st sys'" "server_of sys' = srv1" "rewriter_of sys' = Idle" "tasks sys' = tasks sys" "now sys' \<le> op_at c" by blast
    with 3(1) [of sys'] 3(2,5,7) Some run later show ?thesis by (simp add: engine_free_def)
  qed
qed

section \<open>When accept fails\<close>



section \<open>A run\<close>













end
