(* ===== verification/Restart.thy ===== *)
theory Restart
  imports Lifecycle
begin

text \<open>
  A restart after any life of the server: clients, expiry sweeps and rewrites of the log in any order
  (\<open>Interleaving\<close>), then a start that replays the log (\<open>start_server\<close>, \<open>AofEngine::load_and_replay\<close>). The records of a
  rewrite's snapshot are those that \<open>SET\<close> commands executed at the instant of the snapshot would have
  left, so that a rewritten log is the log of some life of its own, and \<open>Recovery\<close> applies to it.
\<close>

section \<open>A snapshot as a life of its own\<close>









section \<open>The clocks of a life and of its replay\<close>














section \<open>What a restart brings back\<close>






section \<open>Restarts of a sample\<close>














end
