(* ===== verification/Screen.thy ===== *)
theory Screen
  imports Complex_Main File_System Rust_Chars
begin

text \<open>
  What the two terminal programs use of crossterm and ratatui. A \<open>tty\<close> is the state of the terminal that a
  program must leave as it found it; each call on it may fail. A drawn screen is the list of the widgets
  the code builds and the areas it puts them in: ratatui's layout (\<open>layout_split\<close>, \<open>block_inner\<close>) is a
  parameter. \<open>format_fixed\<close> is \<open>{:.p}\<close> of an \<open>f64\<close> that is not negative.
\<close>

section \<open>The terminal\<close>

datatype terminal_call =
  Enable_raw | Disable_raw | Enter_alternate | Leave_alternate | New_terminal | Clear_screen | Draw_frame
| Poll_event | Read_event | Show_cursor

text \<open>Whether the call that is number \<open>n\<close> fails, and how.\<close>

type_synonym terminal_fates = "terminal_call \<Rightarrow> nat \<Rightarrow> io_error option"

record tty =
  tty_raw :: bool
  tty_alternate :: bool
  tty_cursor_hidden :: bool
  tty_calls :: nat

definition tty_found :: tty where
  "tty_found = \<lparr>tty_raw = False, tty_alternate = False, tty_cursor_hidden = False, tty_calls = 0\<rparr>"

definition tty_restored :: "tty \<Rightarrow> bool" where
  "tty_restored t \<longleftrightarrow> \<not> tty_raw t \<and> \<not> tty_alternate t \<and> \<not> tty_cursor_hidden t"

text \<open>
  A call that fails changes nothing. Drawing a frame that sets no cursor hides it, one that sets it shows it.
\<close>

fun call_effect :: "terminal_call \<Rightarrow> bool \<Rightarrow> tty \<Rightarrow> tty" where
  "call_effect Enable_raw cursor t = t\<lparr>tty_raw := True\<rparr>"
| "call_effect Disable_raw cursor t = t\<lparr>tty_raw := False\<rparr>"
| "call_effect Enter_alternate cursor t = t\<lparr>tty_alternate := True\<rparr>"
| "call_effect Leave_alternate cursor t = t\<lparr>tty_alternate := False\<rparr>"
| "call_effect Draw_frame cursor t = t\<lparr>tty_cursor_hidden := \<not> cursor\<rparr>"
| "call_effect Show_cursor cursor t = t\<lparr>tty_cursor_hidden := False\<rparr>"
| "call_effect _ cursor t = t"

definition tty_call ::
  "terminal_fates \<Rightarrow> terminal_call \<Rightarrow> bool \<Rightarrow> tty \<Rightarrow> (io_error, unit) result \<times> tty" where
  "tty_call fates call cursor t =
     (let n = tty_calls t; t = t\<lparr>tty_calls := n + 1\<rparr>
      in case fates call n of
           Some e \<Rightarrow> (Err e, t)
         | None \<Rightarrow> (Ok (), call_effect call cursor t))"

definition tty_then ::
  "(tty \<Rightarrow> ('e, 'a) result \<times> tty) \<Rightarrow> ('a \<Rightarrow> tty \<Rightarrow> ('e, 'b) result \<times> tty) \<Rightarrow> tty \<Rightarrow> ('e, 'b) result \<times> tty" where
  "tty_then m f t =
     (case m t of (Ok x, t) \<Rightarrow> f x t | (Err e, t) \<Rightarrow> (Err e, t) | (Panic, t) \<Rightarrow> (Panic, t))"

definition terminal_setup :: "terminal_fates \<Rightarrow> tty \<Rightarrow> (io_error, unit) result \<times> tty" where
  "terminal_setup fates = tty_then (tty_call fates New_terminal True) (\<lambda>_. tty_call fates Clear_screen True)"

definition terminal_cleanup :: "terminal_fates \<Rightarrow> tty \<Rightarrow> (io_error, unit) result \<times> tty" where
  "terminal_cleanup fates =
     tty_then (tty_call fates Disable_raw True) (\<lambda>_.
     tty_then (tty_call fates Leave_alternate True) (\<lambda>_. tty_call fates Show_cursor True))"

definition granted :: "terminal_fates \<Rightarrow> terminal_call set \<Rightarrow> bool" where
  "granted fates calls \<longleftrightarrow> (\<forall>call \<in> calls. \<forall>n. fates call n = None)"

lemma grantedD: "granted fates calls \<Longrightarrow> call \<in> calls \<Longrightarrow> fates call n = None"
  by (simp add: granted_def)

lemma tty_call_granted:
  "fates call (tty_calls t) = None \<Longrightarrow>
     tty_call fates call cursor t = (Ok (), call_effect call cursor (t\<lparr>tty_calls := tty_calls t + 1\<rparr>))"
  by (simp add: tty_call_def)

lemma tty_call_not_panic: "fst (tty_call fates call cursor t) \<noteq> Panic"
  by (simp add: tty_call_def Let_def split: option.split)

lemma cleanup_restores:
  assumes "granted fates {Disable_raw, Leave_alternate, Show_cursor}"
  shows "fst (terminal_cleanup fates t) = Ok ()" "tty_restored (snd (terminal_cleanup fates t))"
  using grantedD [OF assms] by (simp_all add: terminal_cleanup_def tty_then_def tty_call_def tty_restored_def Let_def)

text \<open>The calls of a loop that draws and waits for keys leave the mode and the screen as they are.\<close>

definition same_mode :: "tty \<Rightarrow> tty \<Rightarrow> bool" where
  "same_mode t t' \<longleftrightarrow> tty_raw t' = tty_raw t \<and> tty_alternate t' = tty_alternate t"

lemma same_mode_refl [simp]: "same_mode t t"
  by (simp add: same_mode_def)

lemma same_mode_trans: "same_mode t t' \<Longrightarrow> same_mode t' t'' \<Longrightarrow> same_mode t t''"
  by (simp add: same_mode_def)

lemma loop_call_mode:
  "call \<in> {Draw_frame, Poll_event, Read_event, New_terminal, Clear_screen, Show_cursor} \<Longrightarrow>
     tty_call fates call cursor t = (res, t') \<Longrightarrow> same_mode t t'"
  by (auto simp: tty_call_def same_mode_def Let_def split: option.splits)

section \<open>What is drawn\<close>

datatype color = Green | Yellow | Red | Cyan | Dark_gray | Blue | Magenta | White

record style =
  style_fg :: "color option"
  style_bold :: bool

definition style_default :: style where
  "style_default = \<lparr>style_fg = None, style_bold = False\<rparr>"

definition colored :: "color \<Rightarrow> style" where
  "colored c = \<lparr>style_fg = Some c, style_bold = False\<rparr>"

definition bold :: "style \<Rightarrow> style" where
  "bold s = s\<lparr>style_bold := True\<rparr>"

type_synonym span = "bytes \<times> style"

definition span_raw :: "bytes \<Rightarrow> span" where
  "span_raw content = (content, style_default)"

text \<open>Every block has a title and borders on all sides.\<close>

record block =
  block_title :: bytes
  block_border :: style

definition titled :: "bytes \<Rightarrow> block" where
  "titled title = \<lparr>block_title = title, block_border = style_default\<rparr>"

definition bordered :: "style \<Rightarrow> block \<Rightarrow> block" where
  "bordered s b = b\<lparr>block_border := s\<rparr>"

text \<open>\<open>Text_box\<close> is a \<open>Paragraph\<close>: its lines, its style, whether it wraps (\<open>Wrap { trim: true }\<close>), its block.\<close>

datatype widget =
  Text_box "span list list" style bool block
| Item_list "span list list" block
| Gauge_bar nat bytes style block

record rect =
  rect_x :: nat
  rect_y :: nat
  rect_width :: nat
  rect_height :: nat

datatype direction = Vertical | Horizontal
datatype layout_constraint = Length_of nat | Min_of nat | Percentage_of nat

type_synonym layout_split = "direction \<Rightarrow> layout_constraint list \<Rightarrow> rect \<Rightarrow> rect list"

record screen =
  drawn :: "(rect \<times> widget) list"
  cursor_at :: "(nat \<times> nat) option"

definition line_text :: "span list \<Rightarrow> bytes" where
  "line_text spans = concat (map fst spans)"

text \<open>The lines that ratatui makes of a text.\<close>

definition text_lines :: "bytes \<Rightarrow> span list list" where
  "text_lines s = map (\<lambda>l. [span_raw l]) (str_lines s)"

section \<open>Numbers on the screen\<close>

definition pad_right :: "nat \<Rightarrow> bytes \<Rightarrow> bytes" where
  "pad_right n s = s @ replicate (n - length s) (CHR '' '')"

definition pad_zeros :: "nat \<Rightarrow> bytes \<Rightarrow> bytes" where
  "pad_zeros n s = replicate (n - length s) (CHR ''0'') @ s"

definition round_half_even :: "real \<Rightarrow> int" where
  "round_half_even x =
     (let f = \<lfloor>x\<rfloor>; r = x - of_int f
      in if r < 1 / 2 then f else if 1 / 2 < r then f + 1 else if even f then f else f + 1)"

definition format_fixed :: "nat \<Rightarrow> real \<Rightarrow> bytes" where
  "format_fixed p x =
     (let n = nat (round_half_even (x * 10 ^ p))
      in show_nat (n div 10 ^ p) @ ''.'' @ pad_zeros p (show_nat (n mod 10 ^ p)))"

lemma round_half_even_near: "\<bar>x - of_int (round_half_even x)\<bar> \<le> 1 / 2"
  unfolding round_half_even_def Let_def by (simp split: if_split; linarith)

lemma round_half_even_nonneg: "0 \<le> x \<Longrightarrow> 0 \<le> round_half_even x"
  by (simp add: round_half_even_def Let_def)

end
