(* ===== verification/Monitor.thy ===== *)
theory Monitor
  imports Complex_Main Wire Frame_Reader Executor
begin

text \<open>
  \<open>rustkv-monitor/src/app.rs\<close>: once a second the monitor opens a connection, sends \<open>INFO\<close>, reads one
  response and turns the JSON text in it into \<open>metrics\<close>. Parameters stand for \<open>serde_json\<close> (\<open>json_reader\<close>),
  the derived \<open>Debug\<close> text of a frame and the rounding of \<open>f64\<close> (\<open>rnd\<close>: each operation is the exact one,
  rounded). What is drawn of the state is in \<open>Monitor_Screen\<close>.
\<close>

section \<open>State\<close>

datatype connection_status = Connecting | Online | Offline

fun status_label :: "connection_status \<Rightarrow> bytes" where
  "status_label Connecting = ''CONNECTING''"
| "status_label Online = ''ONLINE''"
| "status_label Offline = ''OFFLINE''"

record metrics =
  m_server_version :: bytes
  m_role :: bytes
  m_memory_estimate_bytes :: u64
  m_aof_enabled :: bool
  m_addr :: bytes
  m_max_frame_size :: u64
  m_total_commands :: u64
  m_connected_clients :: u64
  m_key_count :: u64
  m_expired_keys :: u64
  m_get_count :: u64
  m_set_count :: u64
  m_del_count :: u64
  m_uptime_seconds :: u64

definition metrics_default :: metrics where
  "metrics_default = \<lparr>m_server_version = [], m_role = [], m_memory_estimate_bytes = 0, m_aof_enabled = False,
     m_addr = [], m_max_frame_size = 0, m_total_commands = 0, m_connected_clients = 0, m_key_count = 0,
     m_expired_keys = 0, m_get_count = 0, m_set_count = 0, m_del_count = 0, m_uptime_seconds = 0\<rparr>"

record monitor_state =
  ms_addr :: bytes
  ms_metrics :: metrics
  ms_status :: connection_status
  ms_qps :: real
  ms_last_error :: "bytes option"
  ms_last_updated :: "instant option"

definition monitor_state_new :: "bytes \<Rightarrow> monitor_state" where
  "monitor_state_new a = \<lparr>ms_addr = a, ms_metrics = metrics_default, ms_status = Connecting, ms_qps = 0,
     ms_last_error = None, ms_last_updated = None\<rparr>"

text \<open>\<open>{:02}\<close>\<close>

definition two_digits :: "nat \<Rightarrow> bytes" where
  "two_digits n = (if n < 10 then ''0'' @ show_nat n else show_nat n)"

definition format_duration :: "nat \<Rightarrow> bytes" where
  "format_duration secs =
     (let d = secs div 86400; h = (secs mod 86400) div 3600; m = (secs mod 3600) div 60; s = secs mod 60;
          clock_text = two_digits h @ ''h '' @ two_digits m @ ''m '' @ two_digits s @ ''s''
      in if 0 < d then show_nat d @ ''d '' @ clock_text else clock_text)"

definition uptime_text :: "monitor_state \<Rightarrow> bytes" where
  "uptime_text st = format_duration (unat (m_uptime_seconds (ms_metrics st)))"

definition last_updated_text :: "instant \<Rightarrow> monitor_state \<Rightarrow> bytes" where
  "last_updated_text now st =
     (case ms_last_updated st of
        Some updated_at \<Rightarrow>
          (let elapsed = as_secs (now - updated_at)
           in if elapsed = 0 then ''just now'' else show_nat elapsed @ ''s ago'')
      | None \<Rightarrow> ''never'')"

definition health_percent :: "monitor_state \<Rightarrow> nat" where
  "health_percent st = (case ms_status st of Online \<Rightarrow> 100 | Connecting \<Rightarrow> 50 | Offline \<Rightarrow> 0)"

record event_loop =
  el_addr :: bytes
  el_state :: monitor_state
  el_previous_total_commands :: "u64 option"
  el_previous_sample_at :: "instant option"

definition event_loop_new :: "bytes \<Rightarrow> event_loop" where
  "event_loop_new a = \<lparr>el_addr = a, el_state = monitor_state_new a, el_previous_total_commands = None,
     el_previous_sample_at = None\<rparr>"

section \<open>The rate\<close>

text \<open>\<open>Duration::as_secs_f64\<close> and \<open>calculate_qps\<close>; \<open>duration_since\<close> saturates at zero.\<close>

definition as_secs_f64 :: "(real \<Rightarrow> real) \<Rightarrow> duration \<Rightarrow> real" where
  "as_secs_f64 rnd d = rnd (rnd (real (as_secs d)) + rnd (rnd (real (subsec_nanos d)) / rnd (real nanos_per_sec)))"

definition calculate_qps :: "(real \<Rightarrow> real) \<Rightarrow> u64 \<Rightarrow> instant \<Rightarrow> event_loop \<Rightarrow> real \<times> event_loop" where
  "calculate_qps rnd commands now el =
     (let qps = (case (el_previous_total_commands el, el_previous_sample_at el) of
          (Some previous_total, Some previous_sample_at) \<Rightarrow>
            (let elapsed = as_secs_f64 rnd (now - previous_sample_at)
             in if 0 < elapsed then rnd (rnd (real (unat commands - unat previous_total)) / elapsed) else 0)
        | _ \<Rightarrow> 0)
      in (qps, el\<lparr>el_previous_total_commands := Some commands, el_previous_sample_at := Some now\<rparr>))"

section \<open>Metrics out of JSON\<close>

record 'v json_reader =
  from_slice :: "bytes \<Rightarrow> (bytes, 'v) result"
  get_field :: "'v \<Rightarrow> bytes \<Rightarrow> 'v option"
  as_u64 :: "'v \<Rightarrow> u64 option"
  as_bool :: "'v \<Rightarrow> bool option"
  as_str :: "'v \<Rightarrow> bytes option"

definition or_default :: "'a \<Rightarrow> 'a option \<Rightarrow> 'a" where
  "or_default d x = (case x of Some y \<Rightarrow> y | None \<Rightarrow> d)"

definition field_u64 :: "'v json_reader \<Rightarrow> 'v \<Rightarrow> bytes \<Rightarrow> u64" where
  "field_u64 jr value name = or_default 0 (Option.bind (get_field jr value name) (as_u64 jr))"

definition field_bool :: "'v json_reader \<Rightarrow> 'v \<Rightarrow> bytes \<Rightarrow> bool" where
  "field_bool jr value name = or_default False (Option.bind (get_field jr value name) (as_bool jr))"

definition field_string :: "'v json_reader \<Rightarrow> 'v \<Rightarrow> bytes \<Rightarrow> bytes" where
  "field_string jr value name = or_default [] (Option.bind (get_field jr value name) (as_str jr))"

definition parse_metrics :: "'v json_reader \<Rightarrow> bytes \<Rightarrow> (bytes, metrics) result" where
  "parse_metrics jr text =
     map_ok (\<lambda>value. \<lparr>m_server_version = field_string jr value ''server_version'', m_role = field_string jr value ''role'',
         m_memory_estimate_bytes = field_u64 jr value ''memory_estimate_bytes'',
         m_aof_enabled = field_bool jr value ''aof_enabled'', m_addr = field_string jr value ''addr'',
         m_max_frame_size = field_u64 jr value ''max_frame_size'',
         m_total_commands = field_u64 jr value ''total_commands'',
         m_connected_clients = field_u64 jr value ''connected_clients'', m_key_count = field_u64 jr value ''key_count'',
         m_expired_keys = field_u64 jr value ''expired_keys'', m_get_count = field_u64 jr value ''get_count'',
         m_set_count = field_u64 jr value ''set_count'', m_del_count = field_u64 jr value ''del_count'',
         m_uptime_seconds = field_u64 jr value ''uptime_seconds''\<rparr>)
       (map_err (\<lambda>e. ''invalid INFO json: '' @ e) (from_slice jr text))"

section \<open>One request\<close>

definition encode_info_command :: bytes where
  "encode_info_command = encode_resp (Array (map BulkString [''INFO'']))"

definition monitor_is_complete_response :: "limits \<Rightarrow> bytes \<Rightarrow> (bytes, bool) result" where
  "monitor_is_complete_response lims buffer =
     (case parse_resp lims buffer of
        Ok (v, consumed) \<Rightarrow> Ok True
      | Err Incomplete \<Rightarrow> Ok False
      | Err error \<Rightarrow> Err (''protocol error: '' @ show_protocol_error error)
      | Panic \<Rightarrow> Panic)"

definition closed_early :: bytes where
  "closed_early = ''server closed connection before a complete response arrived''"

text \<open>The loop of \<open>read_response\<close>. A peer that stays silent makes the read time out.\<close>

fun monitor_read_loop :: "limits \<Rightarrow> bytes \<Rightarrow> recv list \<Rightarrow> (bytes, bytes) result \<times> recv list" where
  "monitor_read_loop lims buffer rs =
     (case monitor_is_complete_response lims buffer of
        Ok True \<Rightarrow> (Ok buffer, rs)
      | Err e \<Rightarrow> (Err e, rs)
      | Panic \<Rightarrow> (Panic, rs)
      | Ok False \<Rightarrow>
          (case rs of
             [] \<Rightarrow> (Err ''read timed out'', [])
           | Recv_error e # rs \<Rightarrow> (Err (''read failed: '' @ show_io_error e), rs)
           | Closed # rs \<Rightarrow> (Err closed_early, rs)
           | Recv chunk # rs \<Rightarrow>
               if chunk = [] then (Err closed_early, rs) else monitor_read_loop lims (buffer @ chunk) rs))"

declare monitor_read_loop.simps [simp del]

text \<open>\<open>opened\<close> is the answer of \<open>connect\<close>, or \<open>None\<close> when two seconds have passed.\<close>

definition fetch_metrics ::
  "limits \<Rightarrow> 'v json_reader \<Rightarrow> (resp_frame \<Rightarrow> bytes) \<Rightarrow> (io_error, tcp) result option \<Rightarrow> (bytes, metrics) result" where
  "fetch_metrics lims jr debug opened =
     (case opened of
        None \<Rightarrow> Err ''connection timed out''
      | Some connect_result \<Rightarrow>
          try_then (map_err (\<lambda>e. ''connect failed: '' @ show_io_error e) connect_result) (\<lambda>stream.
            let (written, stream) = tcp_send encode_info_command stream
            in try_then (map_err (\<lambda>e. ''write failed: '' @ show_io_error e) written) (\<lambda>_.
              let (flushed, stream) = tcp_send [] stream
              in try_then (map_err (\<lambda>e. ''flush failed: '' @ show_io_error e) flushed) (\<lambda>_.
                try_then (fst (monitor_read_loop lims [] (inbox stream))) (\<lambda>response.
                  try_then (map_err (\<lambda>e. ''parse failed: '' @ show_protocol_error e) (parse_resp lims response))
                    (\<lambda>(value, consumed).
                      case value of
                        FBulkString text \<Rightarrow> parse_metrics jr text
                      | FSimpleString text \<Rightarrow> parse_metrics jr text
                      | FError text \<Rightarrow> Err (''server returned error: '' @ text)
                      | other \<Rightarrow> Err (''unexpected INFO response: '' @ debug other)))))))"

text \<open>\<open>Panic\<close>: the monitor's task has unwound and the state is not touched any more.\<close>

definition refresh_once ::
  "limits \<Rightarrow> 'v json_reader \<Rightarrow> (resp_frame \<Rightarrow> bytes) \<Rightarrow> (real \<Rightarrow> real) \<Rightarrow> (io_error, tcp) result option \<Rightarrow> instant \<Rightarrow>
    event_loop \<Rightarrow> event_loop" where
  "refresh_once lims jr debug rnd opened now el =
     (case fetch_metrics lims jr debug opened of
        Ok m \<Rightarrow>
          (let (qps, el) = calculate_qps rnd (m_total_commands m) now el
           in el\<lparr>el_state := (el_state el)\<lparr>ms_qps := qps, ms_metrics := m, ms_status := Online, ms_last_error := None,
                ms_last_updated := Some now\<rparr>\<rparr>)
      | Err error \<Rightarrow> el\<lparr>el_state := (el_state el)\<lparr>ms_status := Offline, ms_last_error := Some error\<rparr>\<rparr>
      | Panic \<Rightarrow> el)"

text \<open>The states that \<open>run\<close> publishes, one per tick.\<close>

fun monitor_run ::
  "limits \<Rightarrow> 'v json_reader \<Rightarrow> (resp_frame \<Rightarrow> bytes) \<Rightarrow> (real \<Rightarrow> real) \<Rightarrow> ((io_error, tcp) result option \<times> instant) list \<Rightarrow>
    event_loop \<Rightarrow> monitor_state list" where
  "monitor_run lims jr debug rnd [] el = []"
| "monitor_run lims jr debug rnd ((opened, now) # ticks) el =
     (case fetch_metrics lims jr debug opened of
        Panic \<Rightarrow> []
      | _ \<Rightarrow> (let el = refresh_once lims jr debug rnd opened now el in el_state el # monitor_run lims jr debug rnd ticks el))"

interpretation monitor_reader: frame_loop "parse_resp lims" Incomplete "\<lambda>_. True"
  "\<lambda>v n buf rs. (Ok buf, rs)" "monitor_read_loop lims" for lims
proof unfold_locales
  show "monitor_read_loop lims buf rs = (Ok buf, rs)" if "parse_resp lims buf = Ok (v, n)" for buf rs v n
    using that by (simp add: monitor_read_loop.simps monitor_is_complete_response_def)
  show "monitor_read_loop lims buf (Recv bs # rs) = monitor_read_loop lims (buf @ bs) rs"
    if "parse_resp lims buf = Err Incomplete" "bs \<noteq> []" for buf bs rs
    using that by (subst monitor_read_loop.simps) (simp add: monitor_is_complete_response_def)
qed simp

section \<open>What the monitor shows\<close>

text \<open>
  What the monitor relies on of \<open>serde_json\<close> at both ends: the text written for a snapshot reads back as
  an object whose members are the fields of the struct, under their names.
\<close>

definition number_members :: "(bytes \<times> (stats_snapshot \<Rightarrow> u64)) list" where
  "number_members = [(''uptime_seconds'', snapshot_uptime_seconds), (''memory_estimate_bytes'', snapshot_memory_estimate_bytes),
     (''max_frame_size'', snapshot_max_frame_size), (''total_commands'', snapshot_total_commands),
     (''connected_clients'', snapshot_connected_clients), (''key_count'', snapshot_key_count),
     (''expired_keys'', snapshot_expired_keys), (''get_count'', snapshot_get_count), (''set_count'', snapshot_set_count),
     (''del_count'', snapshot_del_count)]"

definition text_members :: "(bytes \<times> (stats_snapshot \<Rightarrow> bytes)) list" where
  "text_members = [(''server_version'', snapshot_server_version), (''role'', snapshot_role), (''addr'', snapshot_addr)]"

definition serde_contract :: "json \<Rightarrow> 'v json_reader \<Rightarrow> bool" where
  "serde_contract json jr \<longleftrightarrow> (\<forall>s t. json s = Ok t \<longrightarrow> (\<exists>v. from_slice jr t = Ok v \<and>
     list_all (\<lambda>(name, f). Option.bind (get_field jr v name) (as_u64 jr) = Some (f s)) number_members \<and>
     list_all (\<lambda>(name, f). Option.bind (get_field jr v name) (as_str jr) = Some (f s)) text_members \<and>
     Option.bind (get_field jr v ''aof_enabled'') (as_bool jr) = Some (snapshot_aof_enabled s)))"

definition metrics_of :: "server_stats \<Rightarrow> metrics" where
  "metrics_of st = \<lparr>m_server_version = server_version st, m_role = role st,
     m_memory_estimate_bytes = memory_estimate_bytes st, m_aof_enabled = aof_enabled st, m_addr = addr st,
     m_max_frame_size = max_frame_size st, m_total_commands = total_commands st,
     m_connected_clients = connected_clients st, m_key_count = stat_key_count st, m_expired_keys = expired_keys st,
     m_get_count = get_count st, m_set_count = set_count st, m_del_count = del_count st,
     m_uptime_seconds = uptime_seconds st\<rparr>"

lemma parse_metrics_snapshot:
  assumes "serde_contract json jr" "json (fst (stats_snapshot_at t st)) = Ok text"
  shows "parse_metrics jr text = Ok (metrics_of (snd (stats_snapshot_at t st)))"
proof -
  let ?s = "fst (stats_snapshot_at t st)"
  from assms obtain v where v: "from_slice jr text = Ok v"
    "list_all (\<lambda>(name, f). Option.bind (get_field jr v name) (as_u64 jr) = Some (f ?s)) number_members"
    "list_all (\<lambda>(name, f). Option.bind (get_field jr v name) (as_str jr) = Some (f ?s)) text_members"
    "Option.bind (get_field jr v ''aof_enabled'') (as_bool jr) = Some (snapshot_aof_enabled ?s)"
    unfolding serde_contract_def by blast
  then show ?thesis
    by (simp add: parse_metrics_def field_u64_def field_string_def field_bool_def or_default_def number_members_def
        text_members_def metrics_of_def stats_snapshot_at_def Let_def)
qed

lemma fetch_metrics_bulk:
  assumes "encodable lims (BulkString text)" "[] \<notin> set chunks" "concat chunks = encode_resp (BulkString text) @ rest"
    and "inbox stream = map Recv chunks @ rs" "send_faults stream = []"
  shows "fetch_metrics lims jr debug (Some (Ok stream)) = parse_metrics jr text"
proof -
  have stream: "[] @ concat chunks = encode_resp (BulkString text) @ rest" using assms(3) by simp
  from monitor_reader.delivers [OF resp.dec_enc [OF assms(1)] stream assms(2) TrueI, of rs] obtain buf chunks' where
    "monitor_read_loop lims [] (map Recv chunks @ rs) = (Ok (encode_resp (BulkString text) @ buf), map Recv chunks' @ rs)"
    by metis
  then show ?thesis
    using assms(4,5) resp.dec_enc_append [OF assms(1), of buf]
    by (simp add: fetch_metrics_def tcp_send_def Let_def del: encode_resp_simps)
qed

text \<open>
  What the monitor shows after a refresh is what the server's statistics hold when it has answered
  \<open>INFO\<close>: every figure arrives in its place, however TCP cuts the response. Server and monitor agree on the
  names and the types of the members.
\<close>

theorem monitor_shows_server_stats:
  assumes "serde_contract json jr" "execute_command h ly json c Info sd st = (Ok (BulkString body), sd', st')"
    and "encodable lims (BulkString body)" "[] \<notin> set chunks" "concat chunks = encode_resp (BulkString body)"
    and "inbox stream = map Recv chunks @ rs" "send_faults stream = []"
  shows "let state = el_state (refresh_once lims jr debug rnd (Some (Ok stream)) now el)
    in ms_metrics state = metrics_of st' \<and> ms_status state = Online \<and> ms_last_error state = None \<and>
       ms_last_updated state = Some now"
proof -
  let ?st1 = "incr_expired_keys_by (info_expired_count (fst (sharded_info_snapshot ly c sd)))
      (set_memory_estimate_bytes (info_memory_estimate_bytes (fst (sharded_info_snapshot ly c sd)))
        (set_key_count (info_key_count (fst (sharded_info_snapshot ly c sd))) st))"
  have run: "BulkString body = result_response bulk_response (map_err Serde (json (fst (stats_snapshot_at (op_at c) ?st1))))"
    "st' = snd (stats_snapshot_at (op_at c) ?st1)"
    using assms(2) by (simp_all add: execute_command_def to_json_string_def case_prod_beta Let_def)
  have written: "json (fst (stats_snapshot_at (op_at c) ?st1)) = Ok body"
    using run(1) by (cases "json (fst (stats_snapshot_at (op_at c) ?st1))") (simp_all add: response_defs)
  have "fetch_metrics lims jr debug (Some (Ok stream)) = parse_metrics jr body"
    by (rule fetch_metrics_bulk [OF assms(3,4) _ assms(6,7), of "[]"]) (simp add: assms(5))
  then have "fetch_metrics lims jr debug (Some (Ok stream)) = Ok (metrics_of st')"
    using parse_metrics_snapshot [OF assms(1) written] by (simp only: run(2))
  then show ?thesis by (simp add: refresh_once_def calculate_qps_def Let_def)
qed

section \<open>The published states\<close>

definition state_ok :: "monitor_state \<Rightarrow> bool" where
  "state_ok s \<longleftrightarrow>
     (case ms_status s of
        Connecting \<Rightarrow> ms_last_error s = None \<and> ms_last_updated s = None \<and> ms_metrics s = metrics_default
      | Online \<Rightarrow> ms_last_error s = None \<and> ms_last_updated s \<noteq> None
      | Offline \<Rightarrow> ms_last_error s \<noteq> None) \<and>
     (ms_last_updated s = None \<longrightarrow> ms_metrics s = metrics_default \<and> ms_qps s = 0)"

lemma refresh_once_cases:
  "(\<exists>m. fetch_metrics lims jr debug opened = Ok m \<and> el_state (refresh_once lims jr debug rnd opened now el) =
      (el_state el)\<lparr>ms_qps := fst (calculate_qps rnd (m_total_commands m) now el), ms_metrics := m, ms_status := Online,
        ms_last_error := None, ms_last_updated := Some now\<rparr>) \<or>
   (\<exists>e. fetch_metrics lims jr debug opened = Err e \<and> el_state (refresh_once lims jr debug rnd opened now el) =
      (el_state el)\<lparr>ms_status := Offline, ms_last_error := Some e\<rparr>) \<or>
   fetch_metrics lims jr debug opened = Panic \<and> refresh_once lims jr debug rnd opened now el = el"
  by (cases "fetch_metrics lims jr debug opened")
     (simp_all add: refresh_once_def case_prod_beta Let_def calculate_qps_def)

text \<open>
  Every state the monitor publishes is coherent, whatever the server does and whenever it is away: ONLINE
  means no error and a time of the last update, OFFLINE comes with an error, and figures are shown
  only if they were read; while the server cannot be reached the last figures stay.
\<close>

theorem published_states_coherent:
  "list_all state_ok (monitor_run lims jr debug rnd ticks (event_loop_new a)) \<and>
   (\<forall>el opened now. ms_status (el_state (refresh_once lims jr debug rnd opened now el)) = Offline \<longrightarrow>
      ms_metrics (el_state (refresh_once lims jr debug rnd opened now el)) = ms_metrics (el_state el) \<and>
      ms_last_updated (el_state (refresh_once lims jr debug rnd opened now el)) = ms_last_updated (el_state el))"
proof -
  have keeps: "state_ok (el_state (refresh_once lims jr debug rnd opened now el))" if "state_ok (el_state el)" for el opened now
    using refresh_once_cases [of lims jr debug opened rnd now el] that
    by (auto simp: state_ok_def split: connection_status.splits)
  have "list_all state_ok (monitor_run lims jr debug rnd ticks el)" if "state_ok (el_state el)" for el
    using that by (induction ticks arbitrary: el) (auto simp: Let_def keeps split: result.split)
  moreover have "state_ok (el_state (event_loop_new a))"
    by (simp add: state_ok_def event_loop_new_def monitor_state_new_def)
  moreover have "ms_status s' = Offline \<longrightarrow> ms_metrics s' = ms_metrics (el_state el) \<and> ms_last_updated s' = ms_last_updated (el_state el)"
    if "s' = el_state (refresh_once lims jr debug rnd opened now el)" for s' el opened now
    using refresh_once_cases [of lims jr debug opened rnd now el] that by auto
  ultimately show ?thesis by blast
qed

section \<open>The rate that is shown\<close>

lemma as_secs_f64_exact: "as_secs_f64 (\<lambda>x. x) d = real d / real nanos_per_sec"
proof -
  have "real d = real nanos_per_sec * real (as_secs d) + real (subsec_nanos d)"
    by (simp add: as_secs_def subsec_nanos_def flip: of_nat_mult of_nat_add)
  then show ?thesis by (simp add: as_secs_f64_def nanos_per_sec_def field_simps)
qed

text \<open>
  Whatever way \<open>f64\<close> rounds, the rate is never negative and is zero at the first sample, when the clock
  has not moved and when the counter has not grown (as after a restart of the server); without
  rounding it is the number of new commands per second since the last sample.
\<close>

theorem qps_is_rate:
  assumes "mono rnd" "rnd 0 = 0" "calculate_qps rnd n now el = (qps, el')"
  shows "0 \<le> qps \<and>
    (el_previous_total_commands el = None \<or> el_previous_sample_at el = None \<longrightarrow> qps = 0) \<and>
    (\<forall>p t. el_previous_total_commands el = Some p \<and> el_previous_sample_at el = Some t \<longrightarrow>
       (n \<le> p \<or> now \<le> t \<longrightarrow> qps = 0) \<and>
       (rnd = (\<lambda>x. x) \<and> p \<le> n \<and> t < now \<longrightarrow>
          qps * (real (now - t) / real nanos_per_sec) = real (unat n) - real (unat p))) \<and>
    el_previous_total_commands el' = Some n \<and> el_previous_sample_at el' = Some now"
proof -
  have pos: "0 \<le> rnd x" if "0 \<le> x" for x using monoD [OF assms(1) that] assms(2) by simp
  have zero: "as_secs_f64 rnd 0 = 0" by (simp add: as_secs_f64_def as_secs_def subsec_nanos_def assms(2))
  show ?thesis
  proof (cases "el_previous_total_commands el = None \<or> el_previous_sample_at el = None")
    case True
    with assms(3) show ?thesis by (auto simp: calculate_qps_def split: option.splits)
  next
    case False
    then obtain p t where old: "el_previous_total_commands el = Some p" "el_previous_sample_at el = Some t" by auto
    have qps: "qps = (let elapsed = as_secs_f64 rnd (now - t)
        in if 0 < elapsed then rnd (rnd (real (unat n - unat p)) / elapsed) else 0)"
      and el': "el' = el\<lparr>el_previous_total_commands := Some n, el_previous_sample_at := Some now\<rparr>"
      using assms(3) by (simp_all add: calculate_qps_def old Let_def)
    have "0 \<le> qps" unfolding qps Let_def using pos by simp
    moreover have "n \<le> p \<Longrightarrow> qps = 0"
      by (simp add: qps word_le_nat_alt assms(2) Let_def)
    moreover have "now \<le> t \<Longrightarrow> qps = 0" by (simp add: qps zero)
    moreover have "qps * (real (now - t) / real nanos_per_sec) = real (unat n) - real (unat p)"
      if "rnd = (\<lambda>x. x)" "p \<le> n" "t < now"
      using that by (simp add: qps as_secs_f64_exact nanos_per_sec_def word_le_nat_alt Let_def)
    ultimately show ?thesis by (auto simp: old el')
  qed
qed

theorem qps_is_rate_witness:
  "0 \<le> fst (calculate_qps (\<lambda>x. real_of_int \<lfloor>x\<rfloor>) 12 (from_secs 3)
     ((event_loop_new [])\<lparr>el_previous_total_commands := Some 7, el_previous_sample_at := Some (from_secs 1)\<rparr>))"
proof -
  have "mono (\<lambda>x. real_of_int \<lfloor>x\<rfloor>)" by (simp add: mono_def floor_mono)
  from qps_is_rate [OF this _ prod.collapse [symmetric]] show ?thesis by simp
qed

section \<open>Examples\<close>

text \<open>A reader that knows one snapshot, and a writer that writes only that one.\<close>

definition known_snapshot :: stats_snapshot where
  "known_snapshot = fst (stats_snapshot_at 0 (incr_set_count (stats_new 0)))"

definition known_json :: json where
  "known_json s = (if s = known_snapshot then Ok ''{..}'' else Err ''unknown'')"

definition known_reader :: "bytes json_reader" where
  "known_reader = \<lparr>from_slice = (\<lambda>t. if t = ''{..}'' then Ok [] else Err ''no JSON''), get_field = (\<lambda>v name. Some name),
     as_u64 = (\<lambda>name. map_option (\<lambda>f. f known_snapshot) (map_of number_members name)),
     as_bool = (\<lambda>name. Some (snapshot_aof_enabled known_snapshot)),
     as_str = (\<lambda>name. map_option (\<lambda>f. f known_snapshot) (map_of text_members name))\<rparr>"

lemma known_contract: "serde_contract known_json known_reader"
  by (simp add: serde_contract_def known_json_def known_reader_def number_members_def text_members_def)

definition sample_info_stream :: tcp where
  "sample_info_stream = \<lparr>inbox = map Recv [''$4'' @ crlf @ ''{.'', ''.}'' @ crlf], outbox = [], send_faults = []\<rparr>"

theorem monitor_shows_server_stats_witness:
  "let state = el_state (refresh_once sample_limits known_reader (\<lambda>_. []) (\<lambda>x. x) (Some (Ok sample_info_stream)) 7 (event_loop_new ''a''))
   in ms_status state = Online \<and> m_set_count (ms_metrics state) = 1 \<and> ms_last_updated state = Some 7"
proof -
  let ?x = "execute_command length sample_layout known_json (clock_at 0 None 9) Info (sharded_new 1) (incr_set_count (stats_new 0))"
  have run: "?x = (Ok (BulkString ''{..}''), fst (snd ?x), snd (snd ?x))" "set_count (snd (snd ?x)) = 1" by code_simp+
  have "encodable sample_limits (BulkString ''{..}'')" "[] \<notin> set [''$4'' @ crlf @ ''{.'', ''.}'' @ crlf]"
    "concat [''$4'' @ crlf @ ''{.'', ''.}'' @ crlf] = encode_resp (BulkString ''{..}'')"
    "inbox sample_info_stream = map Recv [''$4'' @ crlf @ ''{.'', ''.}'' @ crlf] @ []" "send_faults sample_info_stream = []"
    by code_simp+
  from monitor_shows_server_stats [OF known_contract run(1) this, of "\<lambda>_. []" "\<lambda>x. x" 7 "event_loop_new ''a''"] run(2)
  show ?thesis by (simp add: Let_def metrics_of_def)
qed

theorem published_states_coherent_witness:
  "let states = monitor_run sample_limits known_reader (\<lambda>_. []) (\<lambda>x. x)
       [(None, 1), (Some (Ok sample_info_stream), 7), (Some (Err (IoError OtherKind ''refused'')), 9)] (event_loop_new ''a'')
   in list_all state_ok states \<and> map ms_status states = [Offline, Online, Offline] \<and>
      map (\<lambda>s. m_set_count (ms_metrics s)) states = [0, 1, 1]"
proof -
  let ?ticks = "[(None, 1), (Some (Ok sample_info_stream), 7), (Some (Err (IoError OtherKind ''refused'')), 9)]"
  let ?states = "monitor_run sample_limits known_reader (\<lambda>_. []) (\<lambda>x. x) ?ticks (event_loop_new ''a'')"
  have fetched: "fetch_metrics sample_limits known_reader (\<lambda>_. []) (Some (Ok sample_info_stream)) = Ok (metrics_of (snd (stats_snapshot_at 0 (incr_set_count (stats_new 0)))))"
  proof -
    have "encodable sample_limits (BulkString ''{..}'')" "[] \<notin> set [''$4'' @ crlf @ ''{.'', ''.}'' @ crlf]"
      "concat [''$4'' @ crlf @ ''{.'', ''.}'' @ crlf] = encode_resp (BulkString ''{..}'') @ []"
      "inbox sample_info_stream = map Recv [''$4'' @ crlf @ ''{.'', ''.}'' @ crlf] @ []" "send_faults sample_info_stream = []"
      by code_simp+
    from fetch_metrics_bulk [OF this, of known_reader "\<lambda>_. []"] parse_metrics_snapshot [OF known_contract, of 0 "incr_set_count (stats_new 0)"]
    show ?thesis by (simp add: known_json_def known_snapshot_def)
  qed
  have away: "fetch_metrics sample_limits known_reader (\<lambda>_. []) None = Err ''connection timed out''"
    "fetch_metrics sample_limits known_reader (\<lambda>_. []) (Some (Err (IoError OtherKind ''refused''))) = Err ''connect failed: refused''"
    by (simp_all add: fetch_metrics_def)
  have "map ms_status ?states = [Offline, Online, Offline] \<and> map (\<lambda>s. m_set_count (ms_metrics s)) ?states = [0, 1, 1]"
    by (simp add: refresh_once_def fetched away event_loop_new_def monitor_state_new_def
        metrics_default_def calculate_qps_def metrics_of_def stats_snapshot_at_def incr_set_count_def stats_new_def Let_def)
  with published_states_coherent [of sample_limits known_reader "\<lambda>_. []" "\<lambda>x. x" ?ticks "''a''"] show ?thesis by (simp add: Let_def)
qed

end
