(* ===== verification/Monitor_Screen.thy ===== *)
theory Monitor_Screen
  imports Screen Monitor
begin

text \<open>
  \<open>rustkv-monitor/src/ui.rs\<close>: the loop that draws the last published state and waits for a key, the terminal
  it sets up and restores, and the widgets of the screen.
\<close>

section \<open>The widgets\<close>

definition status_color :: "connection_status \<Rightarrow> color" where
  "status_color s = (case s of Online \<Rightarrow> Green | Connecting \<Rightarrow> Yellow | Offline \<Rightarrow> Red)"

definition default_text :: "bytes \<Rightarrow> bytes \<Rightarrow> bytes" where
  "default_text content fallback = (if content = [] then fallback else content)"

definition monitor_format_bytes :: "(real \<Rightarrow> real) \<Rightarrow> u64 \<Rightarrow> bytes" where
  "monitor_format_bytes rnd n =
     (if 1024 * 1024 \<le> unat n then format_fixed 1 (rnd (rnd (rnd (real (unat n)) / 1024) / 1024)) @ '' MiB''
      else if 1024 \<le> unat n then format_fixed 1 (rnd (rnd (real (unat n)) / 1024)) @ '' KiB''
      else show_nat (unat n) @ '' B'')"

definition metric_item :: "bytes \<Rightarrow> u64 \<Rightarrow> span list" where
  "metric_item label n = [(pad_right 20 label, colored Dark_gray), (show_nat (unat n), bold (colored White))]"

definition monitor_header :: "instant \<Rightarrow> monitor_state \<Rightarrow> widget" where
  "monitor_header now st =
     (let status_style = (case ms_status st of
            Online \<Rightarrow> bold (colored Green) | Connecting \<Rightarrow> colored Yellow | Offline \<Rightarrow> bold (colored Red));
          reported_addr = (if m_addr (ms_metrics st) = [] then ms_addr st else m_addr (ms_metrics st));
          gray = colored Dark_gray
      in Text_box
           [[(''rustkv monitor'', bold (colored Cyan)), span_raw ''  '', (status_label (ms_status st), status_style)],
            [(''Address: '', gray), span_raw reported_addr, span_raw ''    '', (''Uptime: '', gray), span_raw (uptime_text st),
             span_raw ''    '', (''Updated: '', gray), span_raw (last_updated_text now st)],
            [(''Version: '', gray), span_raw (default_text (m_server_version (ms_metrics st)) ''unknown''), span_raw ''    '',
             (''Role: '', gray), span_raw (default_text (m_role (ms_metrics st)) ''unknown''), span_raw ''    '',
             (''AOF: '', gray), span_raw (if m_aof_enabled (ms_metrics st) then ''on'' else ''off'')]]
           style_default True (titled ''System''))"

definition monitor_metrics :: "monitor_state \<Rightarrow> widget" where
  "monitor_metrics st =
     (let m = ms_metrics st
      in Item_list
           [metric_item ''Connected clients'' (m_connected_clients m), metric_item ''Key count'' (m_key_count m),
            metric_item ''Expired keys'' (m_expired_keys m), metric_item ''Memory bytes'' (m_memory_estimate_bytes m),
            metric_item ''Total commands'' (m_total_commands m), metric_item ''GET count'' (m_get_count m),
            metric_item ''SET count'' (m_set_count m), metric_item ''DEL count'' (m_del_count m)]
           (bordered (colored Blue) (titled ''Key Metrics'')))"

definition monitor_gauge :: "monitor_state \<Rightarrow> widget" where
  "monitor_gauge st =
     (let gauge_style = colored (status_color (ms_status st))
      in Gauge_bar (health_percent st) (show_nat (health_percent st) @ ''%'') (bold gauge_style)
           (bordered gauge_style (titled ''Runtime Health'')))"

definition monitor_traffic :: "(real \<Rightarrow> real) \<Rightarrow> monitor_state \<Rightarrow> widget" where
  "monitor_traffic rnd st =
     (let m = ms_metrics st; gray = colored Dark_gray
      in Text_box
           [[(''QPS: '', gray), (format_fixed 2 (ms_qps st), colored Cyan)],
            [(''Command mix: '', gray), span_raw (''GET '' @ show_nat (unat (m_get_count m)) @ '' / SET '' @
               show_nat (unat (m_set_count m)) @ '' / DEL '' @ show_nat (unat (m_del_count m)))],
            [(''Load note: '', gray), span_raw ''INFO polling uses short-lived TCP connections''],
            [(''Frame limit: '', gray), span_raw (monitor_format_bytes rnd (m_max_frame_size m))]]
           style_default True (bordered (colored Magenta) (titled ''Traffic'')))"

definition status_message :: "monitor_state \<Rightarrow> bytes" where
  "status_message st =
     (case ms_last_error st of
        Some error \<Rightarrow> ''Last error: '' @ error
      | None \<Rightarrow> ''Server telemetry stream is healthy.'')"

definition monitor_help :: widget where
  "monitor_help = Text_box (text_lines ''q: quit safely | refresh: 1s | source: INFO'') (colored Dark_gray) False (titled ''Help'')"

definition monitor_status :: "(real \<Rightarrow> real) \<Rightarrow> layout_split \<Rightarrow> rect \<Rightarrow> monitor_state \<Rightarrow> (rect \<times> widget) list" where
  "monitor_status rnd split area st =
     (let sections = split Vertical [Length_of 5, Length_of 7, Min_of 4] area
      in [(sections ! 0, monitor_gauge st), (sections ! 1, monitor_traffic rnd st),
          (sections ! 2, Text_box (text_lines (status_message st)) style_default True (titled ''Status''))])"

definition draw_monitor :: "(real \<Rightarrow> real) \<Rightarrow> layout_split \<Rightarrow> instant \<Rightarrow> rect \<Rightarrow> monitor_state \<Rightarrow> screen" where
  "draw_monitor rnd split now area st =
     (let vertical = split Vertical [Length_of 5, Min_of 10, Length_of 3] area;
          middle = split Horizontal [Percentage_of 55, Percentage_of 45] (vertical ! 1)
      in \<lparr>drawn = [(vertical ! 0, monitor_header now st), (middle ! 0, monitor_metrics st)] @
            monitor_status rnd split (middle ! 1) st @ [(vertical ! 2, monitor_help)], cursor_at = None\<rparr>)"

section \<open>The loop\<close>

text \<open>
  A round: the state published since the last one, if any, and the event, if one comes within the tenth of a
  second: whether it is a press of \<open>q\<close>. The result is \<open>None\<close> while the loop goes on; with it come
  the states that have been drawn.
\<close>

type_synonym ui_round = "monitor_state option \<times> bool option"

fun ui_loop ::
  "terminal_fates \<Rightarrow> ui_round list \<Rightarrow> monitor_state \<Rightarrow> tty \<Rightarrow> (io_error, unit) result option \<times> monitor_state list \<times> tty" where
  "ui_loop fates [] state t = (None, [], t)"
| "ui_loop fates ((published, event) # rounds) state t =
     (let state = (case published of Some s \<Rightarrow> s | None \<Rightarrow> state)
      in case tty_call fates Draw_frame False t of
           (Ok _, t) \<Rightarrow>
             (case tty_call fates Poll_event False t of
                (Ok _, t) \<Rightarrow>
                  (case event of
                     None \<Rightarrow> (let (res, shown, t) = ui_loop fates rounds state t in (res, state # shown, t))
                   | Some quit_pressed \<Rightarrow>
                       (case tty_call fates Read_event False t of
                          (Ok _, t) \<Rightarrow>
                            if quit_pressed then (Some (Ok ()), [state], t)
                            else (let (res, shown, t) = ui_loop fates rounds state t in (res, state # shown, t))
                        | (failed, t) \<Rightarrow> (Some failed, [state], t)))
              | (failed, t) \<Rightarrow> (Some failed, [state], t))
         | (failed, t) \<Rightarrow> (Some failed, [], t))"

definition ui_run ::
  "terminal_fates \<Rightarrow> ui_round list \<Rightarrow> monitor_state \<Rightarrow> tty \<Rightarrow> (io_error, unit) result option \<times> monitor_state list \<times> tty" where
  "ui_run fates rounds state t =
     (case tty_then (tty_call fates Enable_raw False) (\<lambda>_.
           tty_then (tty_call fates Enter_alternate False) (\<lambda>_. terminal_setup fates)) t of
        (Ok _, t) \<Rightarrow>
          (case ui_loop fates rounds state t of
             (None, shown, t) \<Rightarrow> (None, shown, t)
           | (Some result, shown, t) \<Rightarrow>
               (case terminal_cleanup fates t of
                  (Ok _, t) \<Rightarrow> (Some result, shown, t)
                | (failed, t) \<Rightarrow> (Some failed, shown, t)))
      | (failed, t) \<Rightarrow> (Some failed, [], t))"

section \<open>The event loop and the screen together\<close>






section \<open>What is on the screen\<close>

text \<open>The number behind a label in the first list that has it.\<close>

definition read_metric :: "screen \<Rightarrow> bytes \<Rightarrow> nat option" where
  "read_metric s label =
     Option.bind
       (find (\<lambda>text. take 20 text = pad_right 20 label)
         (concat (map (\<lambda>(area, w). case w of Item_list items b \<Rightarrow> map line_text items | _ \<Rightarrow> []) (drawn s))))
       (\<lambda>text. parse_digits 0 (drop 20 text))"

definition metric_labels :: "(bytes \<times> (metrics \<Rightarrow> u64)) list" where
  "metric_labels = [(''Connected clients'', m_connected_clients), (''Key count'', m_key_count),
     (''Expired keys'', m_expired_keys), (''Memory bytes'', m_memory_estimate_bytes), (''Total commands'', m_total_commands),
     (''GET count'', m_get_count), (''SET count'', m_set_count), (''DEL count'', m_del_count)]"

lemma metric_item_text:
  "length label \<le> 20 \<Longrightarrow> take 20 (line_text (metric_item label n)) = pad_right 20 label"
  "length label \<le> 20 \<Longrightarrow> drop 20 (line_text (metric_item label n)) = show_nat (unat n)"
  by (simp_all add: line_text_def metric_item_def pad_right_def)

lemma drawn_metrics:
  "concat (map (\<lambda>(area, w). case w of Item_list items b \<Rightarrow> map line_text items | _ \<Rightarrow> []) (drawn (draw_monitor rnd split now area st))) =
     map (\<lambda>(label, f). line_text (metric_item label (f (ms_metrics st)))) metric_labels"
  by (simp add: draw_monitor_def monitor_header_def monitor_metrics_def monitor_gauge_def monitor_traffic_def
      monitor_status_def monitor_help_def metric_labels_def Let_def)

lemma find_metric:
  assumes "\<forall>(l, f) \<in> set ms. length l \<le> 20" "\<forall>(l, f) \<in> set ms. pad_right 20 l = pad_right 20 label \<longrightarrow> l = label"
    and "map_of ms label = Some g"
  shows "find (\<lambda>text. take 20 text = pad_right 20 label) (map (\<lambda>(l, f). line_text (metric_item l (f m))) ms) =
    Some (line_text (metric_item label (g m)))"
  using assms
proof (induction ms)
  case (Cons x ms)
  obtain l f where x: "x = (l, f)" by (cases x)
  then have head: "take 20 (line_text (metric_item l (f m))) = pad_right 20 l" using Cons.prems(1) by (intro metric_item_text) auto
  show ?case
  proof (cases "l = label")
    case True
    with head Cons.prems(3) show ?thesis by (simp add: x)
  next
    case False
    with Cons.prems(2) have "pad_right 20 l \<noteq> pad_right 20 label" by (auto simp: x)
    with head False Cons show ?thesis by (simp add: x)
  qed
qed simp

lemma metric_labels_fit:
  "distinct (map fst metric_labels)" "list_all (\<lambda>l. length l \<le> 20) (map fst metric_labels)"
  "list_all (\<lambda>l. list_all (\<lambda>l'. pad_right 20 l = pad_right 20 l' \<longrightarrow> l = l') (map fst metric_labels)) (map fst metric_labels)"
  by code_simp+

lemma metrics_read_back:
  "list_all (\<lambda>(label, f). read_metric (draw_monitor rnd split now area st) label = Some (unat (f (ms_metrics st)))) metric_labels"
proof -
  have "read_metric (draw_monitor rnd split now area st) label = Some (unat (f (ms_metrics st)))"
    if "(label, f) \<in> set metric_labels" for label f
  proof -
    have labels: "label \<in> set (map fst metric_labels)" using that by force
    have pads: "\<forall>(l, f) \<in> set metric_labels. pad_right 20 l = pad_right 20 label \<longrightarrow> l = label"
      using metric_labels_fit(3) labels by (fastforce simp: list_all_iff)
    have fits: "map_of metric_labels label = Some f" "\<forall>(l, f) \<in> set metric_labels. length l \<le> 20" "length label \<le> 20"
      using map_of_is_SomeI [OF metric_labels_fit(1) that] metric_labels_fit(2) labels by (auto simp: list_all_iff)
    from find_metric [OF fits(2) pads fits(1), of "ms_metrics st"] show ?thesis
      by (simp add: read_metric_def drawn_metrics metric_item_text(2) [OF fits(3)] parse_digits_show_nat)
  qed
  then show ?thesis by (auto simp: list_all_iff)
qed

definition server_labels :: "(bytes \<times> (server_stats \<Rightarrow> u64)) list" where
  "server_labels = [(''Connected clients'', connected_clients), (''Key count'', stat_key_count),
     (''Expired keys'', expired_keys), (''Memory bytes'', memory_estimate_bytes), (''Total commands'', total_commands),
     (''GET count'', get_count), (''SET count'', set_count), (''DEL count'', del_count)]"

text \<open>
  C29: What stands on the monitor's screen after a refresh is what the server's statistics held when it
  answered \<open>INFO\<close>: each of the eight figures, read off the screen behind its label, is the server's counter,
  however TCP cut the response and however ratatui lays out the screen; the state shown is ONLINE, without an
  error.
\<close>

theorem screen_shows_server_stats:
  assumes "serde_contract json jr" "execute_command h ly json c Info sd st = (Ok (BulkString body), sd', st')"
    and "encodable lims (BulkString body)" "[] \<notin> set chunks" "concat chunks = encode_resp (BulkString body)"
    and "inbox stream = map Recv chunks @ rs" "send_faults stream = []"
  shows "let state = el_state (refresh_once lims jr debug rnd (Some (Ok stream)) now el);
        shown = draw_monitor rnd split t area state
    in list_all (\<lambda>(label, counter). read_metric shown label = Some (unat (counter st'))) server_labels \<and>
       ms_status state = Online \<and> status_message state = ''Server telemetry stream is healthy.'' \<and>
       last_updated_text now state = ''just now''"
proof -
  let ?state = "el_state (refresh_once lims jr debug rnd (Some (Ok stream)) now el)"
  have state: "ms_metrics ?state = metrics_of st'" "ms_status ?state = Online" "ms_last_error ?state = None"
    "ms_last_updated ?state = Some now"
    using monitor_shows_server_stats [OF assms, of debug rnd now el] by (simp_all add: Let_def)
  have "list_all (\<lambda>(label, counter). read_metric (draw_monitor rnd split t area ?state) label = Some (unat (counter st'))) server_labels"
    using metrics_read_back [of rnd split t area ?state]
    by (simp add: state(1) metric_labels_def server_labels_def metrics_of_def)
  with state show ?thesis by (simp add: Let_def status_message_def last_updated_text_def as_secs_def)
qed

theorem screen_shows_server_stats_witness:
  "read_metric (draw_monitor (\<lambda>x. x) (\<lambda>d cs r. map (\<lambda>c. r) cs) 8 \<lparr>rect_x = 0, rect_y = 0, rect_width = 80, rect_height = 24\<rparr>
     (el_state (refresh_once sample_limits known_reader (\<lambda>_. []) (\<lambda>x. x) (Some (Ok sample_info_stream)) 7 (event_loop_new ''a''))))
     ''SET count'' = Some 1"
proof -
  let ?x = "execute_command length sample_layout known_json (clock_at 0 None 9) Info (sharded_new 1) (incr_set_count (stats_new 0))"
  have run: "?x = (Ok (BulkString ''{..}''), fst (snd ?x), snd (snd ?x))" "set_count (snd (snd ?x)) = 1" by code_simp+
  have "encodable sample_limits (BulkString ''{..}'')" "[] \<notin> set [''$4'' @ crlf @ ''{.'', ''.}'' @ crlf]"
    "concat [''$4'' @ crlf @ ''{.'', ''.}'' @ crlf] = encode_resp (BulkString ''{..}'')"
    "inbox sample_info_stream = map Recv [''$4'' @ crlf @ ''{.'', ''.}'' @ crlf] @ []" "send_faults sample_info_stream = []"
    by code_simp+
  from screen_shows_server_stats [OF known_contract run(1) this] run(2) show ?thesis
    by (simp add: Let_def server_labels_def)
qed

section \<open>The terminal afterwards\<close>

lemma ui_loop_mode: "ui_loop fates rounds state t = (res, shown, t') \<Longrightarrow> same_mode t t'"
proof (induction fates rounds state t arbitrary: res shown t' rule: ui_loop.induct)
  case (2 fates published event rounds state t)
  obtain r1 t1 where draw: "tty_call fates Draw_frame False t = (r1, t1)" by fastforce
  obtain r2 t2 where poll: "tty_call fates Poll_event False t1 = (r2, t2)" by fastforce
  obtain r3 t3 where read: "tty_call fates Read_event False t2 = (r3, t3)" by fastforce
  have modes: "same_mode t t1" "same_mode t1 t2" "same_mode t2 t3"
    using loop_call_mode [OF _ draw] loop_call_mode [OF _ poll] loop_call_mode [OF _ read] by simp_all
  note steps = same_mode_trans [OF modes(1,2)] same_mode_trans [OF same_mode_trans [OF modes(1,2)] modes(3)]
  from 2 show ?case
    using modes(1) steps
    by (auto simp: draw poll read Let_def split: result.splits option.splits prod.splits if_splits
        intro: same_mode_trans)
qed simp

text \<open>
  Whatever fails while the monitor draws and waits for keys, and however it ends, the terminal is restored:
  the raw mode is off, the alternate screen left, the cursor visible, as long as the calls that set it up and
  those that restore it are granted; and the monitor returns what its loop returned.
\<close>

theorem monitor_restores_terminal:
  assumes "granted fates {Enter_alternate, New_terminal, Clear_screen, Disable_raw, Leave_alternate, Show_cursor}"
    and "ui_run fates rounds state tty_found = (Some res, shown, t)"
  shows "tty_restored t \<and>
    (case fates Enable_raw 0 of
       Some e \<Rightarrow> res = Err e
     | None \<Rightarrow> (\<exists>t1 t2. ui_loop fates rounds state t1 = (Some res, shown, t2) \<and> tty_raw t1 \<and> tty_alternate t1))"
proof (cases "fates Enable_raw 0")
  case (Some e)
  with assms(2) show ?thesis
    by (auto simp: ui_run_def tty_then_def tty_call_def tty_found_def tty_restored_def)
next
  case None
  let ?t = "\<lparr>tty_raw = True, tty_alternate = True, tty_cursor_hidden = False, tty_calls = 4\<rparr>"
  have set_up: "tty_then (tty_call fates Enable_raw False) (\<lambda>_. tty_then (tty_call fates Enter_alternate False)
      (\<lambda>_. terminal_setup fates)) tty_found = (Ok (), ?t)"
    using None grantedD [OF assms(1)]
    by (simp add: tty_then_def tty_call_def tty_found_def terminal_setup_def)
  have cleanup: "granted fates {Disable_raw, Leave_alternate, Show_cursor}" using assms(1) by (simp add: granted_def)
  obtain result shown' t1 where loop: "ui_loop fates rounds state ?t = (result, shown', t1)" by (metis surj_pair)
  obtain t2 where "terminal_cleanup fates t1 = (Ok (), t2)" "tty_restored t2"
    using cleanup_restores [OF cleanup, of t1] by (metis prod.collapse)
  with assms(2) loop have "t = t2" "shown' = shown" "result = Some res"
    by (simp_all add: ui_run_def set_up split: option.splits)
  moreover have "tty_raw ?t \<and> tty_alternate ?t" by simp
  ultimately show ?thesis using loop None \<open>tty_restored t2\<close> by (simp only: option.case) blast
qed

theorem monitor_restores_terminal_witness:
  "tty_restored (snd (snd (ui_run (\<lambda>call n. if call = Draw_frame \<and> n = 7 then Some (IoError OtherKind ''broken pipe'') else None)
     [(None, None), (Some (monitor_state_new ''b''), Some True)] (monitor_state_new ''a'') tty_found)))"
proof -
  let ?fates = "\<lambda>call n. if call = Draw_frame \<and> n = 7 then Some (IoError OtherKind ''broken pipe'') else None"
  have "ui_run ?fates [(None, None), (Some (monitor_state_new ''b''), Some True)] (monitor_state_new ''a'') tty_found =
      (Some (Ok ()), [monitor_state_new ''a'', monitor_state_new ''b''],
       \<lparr>tty_raw = False, tty_alternate = False, tty_cursor_hidden = False, tty_calls = 12\<rparr>)"
    by (simp add: ui_run_def tty_then_def tty_call_def tty_found_def terminal_setup_def terminal_cleanup_def)
  from monitor_restores_terminal [OF _ this] this show ?thesis by (simp add: granted_def)
qed

end
