(* ===== verification/Cli.thy ===== *)
theory Cli
  imports Wire Frame_Reader Command Rust_Chars
begin

text \<open>
  \<open>rustkv-cli/src/main.rs\<close>: the one-shot client. A subcommand becomes the arguments of one request; the
  request is sent, one response is read and printed. Parsing of the process's arguments is clap's;
  what clap guarantees is \<open>cli_wf\<close>.
\<close>

section \<open>Requests\<close>

datatype client_command =
    CliPing
  | CliSet bytes bytes "nat option" "nat option"
  | CliGet bytes
  | CliDel "bytes list"
  | CliExists bytes
  | CliKeys
  | CliExpire bytes nat
  | CliTtl bytes
  | CliFlushdb
  | CliInfo
  | CliShell

text \<open>\<open>Box<dyn Error>\<close>: a protocol error, an \<open>io::Error\<close>, or a text.\<close>

datatype client_error = Protocol_failure protocol_error | Io_failure io_error | Failure bytes

fun show_client_error :: "client_error \<Rightarrow> bytes" where
  "show_client_error (Protocol_failure e) = show_protocol_error e"
| "show_client_error (Io_failure e) = show_io_error e"
| "show_client_error (Failure t) = t"

fun into_args :: "client_command \<Rightarrow> (client_error, bytes list) result" where
  "into_args CliPing = Ok [''PING'']"
| "into_args (CliSet k v ex px) = Ok
     ([''SET'', k, v]
      @ (case ex of Some s \<Rightarrow> [''EX'', show_nat s] | None \<Rightarrow> [])
      @ (case px of Some ms \<Rightarrow> [''PX'', show_nat ms] | None \<Rightarrow> []))"
| "into_args (CliGet k) = Ok [''GET'', k]"
| "into_args (CliDel ks) = Ok (''DEL'' # ks)"
| "into_args (CliExists k) = Ok [''EXISTS'', k]"
| "into_args CliKeys = Ok [''KEYS'']"
| "into_args (CliExpire k s) = Ok [''EXPIRE'', k, show_nat s]"
| "into_args (CliTtl k) = Ok [''TTL'', k]"
| "into_args CliFlushdb = Ok [''FLUSHDB'']"
| "into_args CliInfo = Ok [''INFO'']"
| "into_args CliShell = Err (Failure ''shell mode is interactive and cannot be encoded as one request'')"

definition encode_command :: "bytes list \<Rightarrow> bytes" where
  "encode_command args = encode_resp (Array (map BulkString args))"

section \<open>One response\<close>

definition is_complete_response :: "limits \<Rightarrow> bytes \<Rightarrow> (client_error, bool) result" where
  "is_complete_response lim buffer =
     (case parse_resp lim buffer of
        Ok (v, consumed) \<Rightarrow> Ok True
      | Err Incomplete \<Rightarrow> Ok False
      | Err error \<Rightarrow> Err (Protocol_failure error)
      | Panic \<Rightarrow> Panic)"

definition server_closed :: client_error where
  "server_closed = Failure ''server closed connection before sending a complete RESP response''"

text \<open>The loop of \<open>read_response\<close>; \<open>None\<close> is a read that waits.\<close>

fun read_response_loop :: "limits \<Rightarrow> bytes \<Rightarrow> recv list \<Rightarrow> (client_error, bytes) result option \<times> recv list" where
  "read_response_loop lim buffer rs =
     (case is_complete_response lim buffer of
        Ok True \<Rightarrow> (Some (Ok buffer), rs)
      | Err e \<Rightarrow> (Some (Err e), rs)
      | Panic \<Rightarrow> (Some Panic, rs)
      | Ok False \<Rightarrow>
          (case rs of
             [] \<Rightarrow> (None, [])
           | Recv_error e # rs \<Rightarrow> (Some (Err (Io_failure e)), rs)
           | Closed # rs \<Rightarrow> (Some (Err server_closed), rs)
           | Recv chunk # rs \<Rightarrow>
               if chunk = [] then (Some (Err server_closed), rs) else read_response_loop lim (buffer @ chunk) rs))"

declare read_response_loop.simps [simp del]

definition read_response :: "limits \<Rightarrow> tcp \<Rightarrow> (client_error, bytes) result option \<times> tcp" where
  "read_response lim stream =
     (let (res, rs) = read_response_loop lim [] (inbox stream) in (res, stream\<lparr>inbox := rs\<rparr>))"

section \<open>Printing\<close>

definition hex_digit :: "nat \<Rightarrow> byte" where
  "hex_digit d = ''0123456789abcdef'' ! d"

definition hex_byte :: "byte \<Rightarrow> bytes" where
  "hex_byte b = [hex_digit (code b div 16), hex_digit (code b mod 16)]"

definition is_terminal_text :: "bytes \<Rightarrow> bool" where
  "is_terminal_text text \<longleftrightarrow>
     list_all (\<lambda>ch. \<not> char_is_control ch \<or> ch = [LF] \<or> ch = [CR] \<or> ch = [CHR 0x09]) (utf8_chars text)"

definition format_bytes :: "bytes \<Rightarrow> bytes" where
  "format_bytes bytes =
     (case from_utf8 bytes of
        Some text \<Rightarrow> if is_terminal_text text then text else ''0x'' @ concat (map hex_byte bytes)
      | None \<Rightarrow> ''0x'' @ concat (map hex_byte bytes))"

fun format_resp_lines :: "resp_frame \<Rightarrow> nat \<Rightarrow> bytes list"
and format_elements :: "nat \<Rightarrow> resp_frame list \<Rightarrow> nat \<Rightarrow> bytes list" where
  "format_resp_lines (FSimpleString text) indent = [concat (replicate indent ''  '') @ text]"
| "format_resp_lines (FError text) indent = [concat (replicate indent ''  '') @ ''(error) '' @ text]"
| "format_resp_lines (FInteger number) indent =
     [concat (replicate indent ''  '') @ ''(integer) '' @ show_int (sint number)]"
| "format_resp_lines (FBulkString bytes) indent = [concat (replicate indent ''  '') @ format_bytes bytes]"
| "format_resp_lines (FArray values) indent = format_elements 0 values indent"
| "format_resp_lines FNull indent = [concat (replicate indent ''  '') @ ''(nil)'']"
| "format_elements index [] indent = []"
| "format_elements index (v # values) indent =
     (concat (replicate indent ''  '') @ show_nat (index + 1) @ '')'')
       # format_resp_lines v (indent + 1) @ format_elements (index + 1) values indent"

definition join_lines :: "bytes list \<Rightarrow> bytes" where
  "join_lines lines = (case lines of [] \<Rightarrow> [] | l # ls \<Rightarrow> l @ concat (map (\<lambda>x. LF # x) ls))"

definition format_resp :: "resp_frame \<Rightarrow> bytes" where
  "format_resp v = join_lines (format_resp_lines v 0)"

section \<open>The whole client\<close>

text \<open>\<open>connected\<close> is the answer of \<open>TcpStream::connect\<close>; the result is the lines that are printed.\<close>

definition run_one_shot ::
  "limits \<Rightarrow> client_command \<Rightarrow> (io_error, tcp) result \<Rightarrow> (client_error, bytes list) result option \<times> tcp option" where
  "run_one_shot lim cmd connected =
     (case try_then (into_args cmd) (\<lambda>args. map_ok (\<lambda>s. (encode_command args, s)) (map_err Io_failure connected)) of
        Err e \<Rightarrow> (Some (Err e), None)
      | Panic \<Rightarrow> (Some Panic, None)
      | Ok (request, stream) \<Rightarrow>
          (let (written, stream) = write_and_flush request stream
           in case written of
                Err e \<Rightarrow> (Some (Err (Io_failure e)), Some stream)
              | Panic \<Rightarrow> (Some Panic, Some stream)
              | Ok _ \<Rightarrow>
                  (let (response_bytes, stream) = read_response lim stream
                   in (map_option (\<lambda>r. try_then r (\<lambda>bs.
                         map_ok (\<lambda>(response, consumed). format_resp_lines response 0)
                           (map_err Protocol_failure (parse_resp lim bs)))) response_bytes, Some stream))))"

text \<open>The client's loop keeps the contract of \<open>frame_loop\<close>: it holds whatever the server sends.\<close>

interpretation cli_reader: frame_loop "parse_resp lim" Incomplete "\<lambda>_. True"
  "\<lambda>v n buf rs. (Some (Ok buf), rs)" "read_response_loop lim" for lim
proof unfold_locales
  show "read_response_loop lim buf rs = (Some (Ok buf), rs)" if "parse_resp lim buf = Ok (v, n)" for buf rs v n
    using that by (simp add: read_response_loop.simps is_complete_response_def)
  show "read_response_loop lim buf (Recv bs # rs) = read_response_loop lim (buf @ bs) rs"
    if "parse_resp lim buf = Err Incomplete" "bs \<noteq> []" for buf bs rs
    using that by (subst read_response_loop.simps) (simp add: is_complete_response_def)
qed simp

section \<open>What clap guarantees, and what a request means\<close>

fun cli_wf :: "client_command \<Rightarrow> bool" where
  "cli_wf (CliSet k v ex px) \<longleftrightarrow> utf8 k \<and> utf8 v \<and> (ex = None \<or> px = None) \<and>
     (case ex of None \<Rightarrow> True | Some s \<Rightarrow> s \<le> u64_max) \<and> (case px of None \<Rightarrow> True | Some ms \<Rightarrow> ms \<le> u64_max)"
| "cli_wf (CliDel ks) \<longleftrightarrow> ks \<noteq> [] \<and> list_all utf8 ks"
| "cli_wf (CliExpire k s) \<longleftrightarrow> utf8 k \<and> s \<le> u64_max"
| "cli_wf (CliGet k) \<longleftrightarrow> utf8 k"
| "cli_wf (CliExists k) \<longleftrightarrow> utf8 k"
| "cli_wf (CliTtl k) \<longleftrightarrow> utf8 k"
| "cli_wf CliShell \<longleftrightarrow> False"
| "cli_wf _ \<longleftrightarrow> True"

fun command_meant :: "client_command \<Rightarrow> command" where
  "command_meant CliPing = Ping"
| "command_meant (CliSet k v ex px) =
     Set k v (case ex of Some s \<Rightarrow> Some (from_secs s) | None \<Rightarrow> map_option from_millis px)"
| "command_meant (CliGet k) = Get k"
| "command_meant (CliDel ks) = Del ks"
| "command_meant (CliExists k) = Exists k"
| "command_meant CliKeys = Keys"
| "command_meant (CliExpire k s) = Expire k s"
| "command_meant (CliTtl k) = Ttl k"
| "command_meant CliFlushdb = FlushDb"
| "command_meant CliInfo = Info"
| "command_meant CliShell = Unknown []"

definition request_of :: "client_command \<Rightarrow> resp_value" where
  "request_of cmd = (case into_args cmd of Ok args \<Rightarrow> Array (map BulkString args) | _ \<Rightarrow> Null)"

lemma upper_literals:
  "to_ascii_uppercase ''PING'' = ''PING''" "to_ascii_uppercase ''SET'' = ''SET''" "to_ascii_uppercase ''GET'' = ''GET''"
  "to_ascii_uppercase ''DEL'' = ''DEL''" "to_ascii_uppercase ''EXISTS'' = ''EXISTS''" "to_ascii_uppercase ''KEYS'' = ''KEYS''"
  "to_ascii_uppercase ''EXPIRE'' = ''EXPIRE''" "to_ascii_uppercase ''TTL'' = ''TTL''" "to_ascii_uppercase ''FLUSHDB'' = ''FLUSHDB''"
  "to_ascii_uppercase ''INFO'' = ''INFO''" "to_ascii_uppercase ''EX'' = ''EX''" "to_ascii_uppercase ''PX'' = ''PX''"
  by code_simp+

lemma utf8_literals [simp]:
  "utf8 ''PING''" "utf8 ''SET''" "utf8 ''GET''" "utf8 ''DEL''" "utf8 ''EXISTS''" "utf8 ''KEYS''" "utf8 ''EXPIRE''"
  "utf8 ''TTL''" "utf8 ''FLUSHDB''" "utf8 ''INFO''" "utf8 ''EX''" "utf8 ''PX''"
  by code_simp+

lemma readers_Ok:
  "utf8 a \<Longrightarrow> arg_to_str a l = Ok a" "utf8 a \<Longrightarrow> arg_to_owned_string a l = Ok a"
  "n \<le> u64_max \<Longrightarrow> parse_u64_arg (show_nat n) l = Ok n"
  "list_all utf8 xs \<Longrightarrow> collect_results (\<lambda>arg. arg_to_owned_string arg l) xs = Ok xs"
  using collect_results_all_Ok [of xs "\<lambda>arg. arg_to_owned_string arg l" "\<lambda>x. x"]
  by (auto simp: arg_to_str_def arg_to_owned_string_def parse_u64_arg_def from_utf8_def parse_u64_show_nat list_all_iff)

lemma bulk_request: "from_resp (frame_of (Array (map BulkString args))) = command_of_args args"
  by (simp add: comp_def)

lemma cli_args:
  assumes "cli_wf cmd"
  obtains args where "into_args cmd = Ok args" "request_of cmd = Array (map BulkString args)"
    "command_of_args args = Ok (command_meant cmd)"
proof -
  have "\<exists>args. into_args cmd = Ok args \<and> command_of_args args = Ok (command_meant cmd)"
    using assms
    by (cases cmd)
       (auto simp: command_of_args_def command_parser_def upper_literals readers_Ok command_parsers expect_arity_def
          list_all_iff Let_def simp del: utf8.simps split: option.splits)
  with that show ?thesis by (auto simp: request_of_def)
qed

lemma cli_request_means:
  assumes "cli_wf cmd"
  shows "from_resp (frame_of (request_of cmd)) = Ok (command_meant cmd)"
  by (rule cli_args [OF assms]) (simp only: bulk_request)

section \<open>What is printed\<close>

lemma hex_digit_plain: "d < 16 \<Longrightarrow> code (hex_digit d) < 0x80 \<and> \<not> char_is_control [hex_digit d]"
proof -
  have "list_all (\<lambda>d. code (hex_digit d) < 0x80 \<and> \<not> char_is_control [hex_digit d]) [0..<16]" by code_simp
  then show "d < 16 \<Longrightarrow> code (hex_digit d) < 0x80 \<and> \<not> char_is_control [hex_digit d]" by (simp add: list_all_iff)
qed

lemma code_less: "code b < 256"
  using nat_of_char_less_256 [of b] by (simp add: code_def)

lemma hex_text: "ascii (concat (map hex_byte bs)) \<and> list_all (\<lambda>b. \<not> char_is_control [b]) (concat (map hex_byte bs))"
proof -
  have "code b div 16 < 16" "code b mod 16 < 16" for b :: byte
    using code_less [of b] by auto
  then show ?thesis
    using hex_digit_plain by (induction bs) (auto simp: ascii_def hex_byte_def)
qed

text \<open>
  A bulk string is printed as it is exactly when it is text without control characters (line breaks
  and tabs apart); anything else is printed in hexadecimal. What reaches the terminal is always
  well-formed UTF-8 and moves neither the cursor nor the terminal's state.
\<close>

theorem format_bytes_terminal_safe:
  "utf8 (format_bytes bs) \<and> is_terminal_text (format_bytes bs) \<and>
   (format_bytes bs = bs \<longleftrightarrow> utf8 bs \<and> is_terminal_text bs)"
proof (cases "utf8 bs \<and> is_terminal_text bs")
  case True
  then show ?thesis by (simp add: format_bytes_def from_utf8_def)
next
  case False
  let ?hex = "''0x'' @ concat (map hex_byte bs)"
  have hex: "format_bytes bs = ?hex" using False by (auto simp: format_bytes_def from_utf8_def)
  have plain: "ascii ?hex" "list_all (\<lambda>b. \<not> char_is_control [b]) ?hex"
    using hex_text [of bs] by (simp_all add: ascii_def code_def char_is_control_def)
  have "is_terminal_text ?hex"
    using plain(2) by (simp only: is_terminal_text_def utf8_chars_ascii [OF plain(1)]) (simp add: list_all_iff)
  moreover have "length (concat (map hex_byte bs)) = 2 * length bs" by (induction bs) (simp_all add: hex_byte_def)
  then have "length ?hex \<noteq> length bs" by simp
  then have "?hex \<noteq> bs" by metis
  ultimately show ?thesis using ascii_utf8 [OF plain(1)] False unfolding hex by blast
qed

lemma run_one_shot_prints:
  assumes "into_args cmd = Ok args" "encodable lim r" "[] \<notin> set chunks" "concat chunks = encode_resp r @ rest"
    and "inbox stream = map Recv chunks @ rs" "send_faults stream = []"
  obtains rs' where "run_one_shot lim cmd (Ok stream) = (Some (Ok (format_resp_lines (frame_of r) 0)),
    Some (stream\<lparr>inbox := rs', outbox := outbox stream @ encode_command args\<rparr>))"
proof -
  have "[] @ concat chunks = encode_resp r @ rest" using assms(4) by simp
  from cli_reader.delivers [OF resp.dec_enc [OF assms(2)] this assms(3) TrueI, of rs] obtain buf chunks' where
    "read_response_loop lim [] (map Recv chunks @ rs) = (Some (Ok (encode_resp r @ buf)), map Recv chunks' @ rs)"
    by metis
  with assms(1,5,6) resp.dec_enc_append [OF assms(2), of buf] show ?thesis
    by (intro that [of "map Recv chunks' @ rs"])
       (simp add: run_one_shot_def read_response_def Let_def del: encode_resp_simps)
qed

end
