(* ===== verification/Shell.thy ===== *)
theory Shell
  imports Cli
begin

text \<open>
  \<open>rustkv-cli/src/tui.rs\<close>: the interactive shell. Its state is \<open>shell_app\<close> and the connection \<open>shell_client\<close>;
  a key press is one step of \<open>handle_key\<close>. The screen, the loop around the keys and the terminal are in
  \<open>Shell_Screen\<close>. Requests are counted without a bound.
\<close>

section \<open>The history\<close>

record shell_app =
  sh_addr :: bytes
  sh_input :: bytes
  sh_history :: "bytes list"
  sh_connected :: bool
  sh_request_count :: nat
  sh_last_error :: "bytes option"

definition shell_app_new :: "bytes \<Rightarrow> shell_app" where
  "shell_app_new a = \<lparr>sh_addr = a, sh_input = [], sh_history = [], sh_connected = True, sh_request_count = 0,
     sh_last_error = None\<rparr>"

definition max_history_lines :: nat where
  "max_history_lines = 500"

definition push_history :: "bytes \<Rightarrow> shell_app \<Rightarrow> shell_app" where
  "push_history line app =
     (let history = sh_history app @ [line]
      in app\<lparr>sh_history :=
           (if max_history_lines < length history then drop (length history - max_history_lines) history else history)\<rparr>)"

definition push_user :: "bytes \<Rightarrow> shell_app \<Rightarrow> shell_app" where
  "push_user text app = push_history (''> '' @ text) app"

definition push_response :: "bytes \<Rightarrow> shell_app \<Rightarrow> shell_app" where
  "push_response text app = fold (\<lambda>line. push_history (''< '' @ line)) (str_lines text) app"

definition push_error :: "bytes \<Rightarrow> shell_app \<Rightarrow> shell_app" where
  "push_error text app = push_history (''! '' @ text) app"

definition push_system :: "bytes \<Rightarrow> shell_app \<Rightarrow> shell_app" where
  "push_system text app = push_history (''* '' @ text) app"

section \<open>What fits on the screen\<close>

definition visible_input :: "nat \<Rightarrow> shell_app \<Rightarrow> bytes" where
  "visible_input width app =
     (let max_width = width - 1
      in if max_width = 0 then []
         else let chars = utf8_chars (sh_input app); start = length chars - max_width in concat (drop start chars))"

text \<open>One round of the loop of \<open>wrap_history_line\<close>, over the rows, the current row and its width.\<close>

definition wrap_char :: "nat \<Rightarrow> rchar \<Rightarrow> bytes list \<times> bytes \<times> nat \<Rightarrow> bytes list \<times> bytes \<times> nat" where
  "wrap_char width ch = (\<lambda>(rows, row, row_width).
     let (rows, row, row_width) = (if row_width = width then (rows @ [row], [], 0) else (rows, row, row_width))
     in (rows, row @ ch, row_width + 1))"

definition wrap_history_line :: "bytes \<Rightarrow> nat \<Rightarrow> bytes list" where
  "wrap_history_line line width =
     (if width = 0 then []
      else let (rows, row, _) = fold (wrap_char width) (utf8_chars line) ([], [], 0)
           in if row \<noteq> [] \<or> line = [] then rows @ [row] else rows)"

definition history_rows :: "nat \<Rightarrow> shell_app \<Rightarrow> bytes list" where
  "history_rows width app = concat (map (\<lambda>line. wrap_history_line line width) (sh_history app))"

definition visible_history_text :: "nat \<Rightarrow> nat \<Rightarrow> shell_app \<Rightarrow> bytes" where
  "visible_history_text width height app =
     (if width = 0 \<or> height = 0 then []
      else let rows = history_rows width app; start = length rows - height in join_lines (drop start rows))"

section \<open>The command line\<close>

record splitter =
  sp_tokens :: "bytes list"
  sp_token :: bytes
  sp_quote :: "rchar option"
  sp_escaped :: bool
  sp_active :: bool

definition backslash :: rchar where
  "backslash = [CHR 0x5C]"

definition split_char :: "rchar \<Rightarrow> splitter \<Rightarrow> splitter" where
  "split_char ch st =
     (if sp_escaped st then st\<lparr>sp_token := sp_token st @ ch, sp_active := True, sp_escaped := False\<rparr>
      else if ch = backslash then st\<lparr>sp_escaped := True, sp_active := True\<rparr>
      else case sp_quote st of
        Some quote_ch \<Rightarrow>
          (if ch = quote_ch then st\<lparr>sp_quote := None, sp_active := True\<rparr>
           else st\<lparr>sp_token := sp_token st @ ch, sp_active := True\<rparr>)
      | None \<Rightarrow>
          if ch = [CHR 0x22] \<or> ch = [CHR 0x27] then st\<lparr>sp_quote := Some ch, sp_active := True\<rparr>
          else if char_is_whitespace ch
            then (if sp_active st
                  then st\<lparr>sp_tokens := sp_tokens st @ [sp_token st], sp_token := [], sp_active := False\<rparr>
                  else st)
            else st\<lparr>sp_token := sp_token st @ ch, sp_active := True\<rparr>)"

definition split_init :: splitter where
  "split_init = \<lparr>sp_tokens = [], sp_token = [], sp_quote = None, sp_escaped = False, sp_active = False\<rparr>"

definition split_command_line :: "bytes \<Rightarrow> (bytes, bytes list) result" where
  "split_command_line input =
     (let st = fold split_char (utf8_chars input) split_init;
          token = (if sp_escaped st then sp_token st @ backslash else sp_token st)
      in case sp_quote st of
           Some quote_ch \<Rightarrow> Err (''missing closing quote '' @ quote_ch)
         | None \<Rightarrow> Ok (if sp_active st then sp_tokens st @ [token] else sp_tokens st))"

datatype shell_action = Send_args "bytes list" | Clear_history | Show_help | Quit

definition lower_byte :: "byte \<Rightarrow> byte" where
  "lower_byte c = (if CHR ''A'' \<le> c \<and> c \<le> CHR ''Z'' then char_of (code c + 32) else c)"

definition to_ascii_lowercase :: "bytes \<Rightarrow> bytes" where
  "to_ascii_lowercase s = map lower_byte s"

definition parse_shell_input :: "bytes \<Rightarrow> (bytes, shell_action) result" where
  "parse_shell_input line =
     map_ok (\<lambda>toks.
       case toks of
         [] \<Rightarrow> Show_help
       | t # _ \<Rightarrow>
           (let w = to_ascii_lowercase t
            in if w = ''quit'' \<or> w = ''exit'' then Quit
               else if w = ''clear'' then Clear_history
               else if w = ''help'' \<or> w = ''?'' then Show_help
               else Send_args toks))
       (split_command_line line)"

section \<open>Requests\<close>

record shell_client =
  sc_stream :: tcp
  sc_buffer :: bytes

definition shell_connect :: "(io_error, tcp) result \<Rightarrow> (client_error, shell_client) result" where
  "shell_connect connected = map_ok (\<lambda>s. \<lparr>sc_stream = s, sc_buffer = []\<rparr>) (map_err Io_failure connected)"

text \<open>The loop of \<open>read_response_text\<close>: the result, the buffer and the reads that are left.\<close>

fun response_text_loop ::
  "limits \<Rightarrow> bytes \<Rightarrow> recv list \<Rightarrow> (client_error, bytes) result option \<times> bytes \<times> recv list" where
  "response_text_loop lim buf rs =
     (case parse_resp lim buf of
        Ok (frame, consumed) \<Rightarrow> (Some (Ok (format_resp frame)), drop consumed buf, rs)
      | Panic \<Rightarrow> (Some Panic, buf, rs)
      | Err error \<Rightarrow>
          if error \<noteq> Incomplete then (Some (Err (Protocol_failure error)), buf, rs)
          else case rs of
            [] \<Rightarrow> (None, buf, [])
          | Recv_error e # rs \<Rightarrow> (Some (Err (Io_failure e)), buf, rs)
          | Closed # rs \<Rightarrow> (Some (Err server_closed), buf, rs)
          | Recv chunk # rs \<Rightarrow>
              if chunk = [] then (Some (Err server_closed), buf, rs) else response_text_loop lim (buf @ chunk) rs)"

declare response_text_loop.simps [simp del]

definition read_response_text :: "limits \<Rightarrow> shell_client \<Rightarrow> (client_error, bytes) result option \<times> shell_client" where
  "read_response_text lim client =
     (let (res, buf, rs) = response_text_loop lim (sc_buffer client) (inbox (sc_stream client))
      in (res, client\<lparr>sc_buffer := buf, sc_stream := (sc_stream client)\<lparr>inbox := rs\<rparr>\<rparr>))"

definition shell_execute ::
  "limits \<Rightarrow> bytes list \<Rightarrow> shell_client \<Rightarrow> (client_error, bytes) result option \<times> shell_client" where
  "shell_execute lim args client =
     (let request = encode_command args; (written, s) = write_and_flush request (sc_stream client);
          client = client\<lparr>sc_stream := s\<rparr>
      in case written of
           Ok _ \<Rightarrow> read_response_text lim client
         | Err e \<Rightarrow> (Some (Err (Io_failure e)), client)
         | Panic \<Rightarrow> (Some Panic, client))"

section \<open>Steps of the shell\<close>

definition help_lines :: "bytes list" where
  "help_lines = [''Examples:'', ''  ping'', ''  set name rust'',
     ''  set greeting '' @ [CHR 0x22] @ ''hello rust'' @ [CHR 0x22], ''  get name'', ''  del name'',
     ''  expire name 30'', ''  ttl name'', ''  info'', ''Local commands: help, clear, quit'']"

text \<open>
  \<open>submit_input\<close>: whether the shell goes on; \<open>None\<close> while the reply has not come, \<open>Some Panic\<close> when the
  parser has panicked. The shell itself never returns an error.
\<close>

definition submit_input ::
  "limits \<Rightarrow> shell_app \<Rightarrow> shell_client \<Rightarrow> (client_error, bool) result option \<times> shell_app \<times> shell_client" where
  "submit_input lim app client =
     (let line = str_trim (sh_input app); app = app\<lparr>sh_input := []\<rparr>
      in if line = [] then (Some (Ok True), app, client)
         else let app = push_user line app
         in case parse_shell_input line of
              Ok Quit \<Rightarrow> (Some (Ok False), app, client)
            | Ok Clear_history \<Rightarrow> (Some (Ok True), push_system ''History cleared.'' (app\<lparr>sh_history := []\<rparr>), client)
            | Ok Show_help \<Rightarrow> (Some (Ok True), fold push_system help_lines app, client)
            | Ok (Send_args args) \<Rightarrow>
                (let app = app\<lparr>sh_connected := True\<rparr>; (res, client) = shell_execute lim args client
                 in case res of
                      None \<Rightarrow> (None, app, client)
                    | Some (Ok response) \<Rightarrow>
                        (Some (Ok True), push_response response
                           (app\<lparr>sh_request_count := sh_request_count app + 1, sh_last_error := None\<rparr>), client)
                    | Some (Err error) \<Rightarrow>
                        (Some (Ok True), push_error (''request failed: '' @ show_client_error error)
                           (app\<lparr>sh_connected := False, sh_last_error := Some (show_client_error error)\<rparr>), client)
                    | Some Panic \<Rightarrow> (Some Panic, app, client))
            | Err error \<Rightarrow> (Some (Ok True), push_error error app, client)
            | Panic \<Rightarrow> (Some Panic, app, client))"

text \<open>The keys \<open>run_loop\<close> looks at; any other event is \<open>Other_key\<close>.\<close>

datatype key_press = Escape | Ctrl_c | Ctrl_u | Backspace | Enter | Char_key rchar | Other_key

definition handle_key ::
  "limits \<Rightarrow> key_press \<Rightarrow> shell_app \<Rightarrow> shell_client \<Rightarrow> (client_error, bool) result option \<times> shell_app \<times> shell_client" where
  "handle_key lim press app client =
     (case press of
        Escape \<Rightarrow> (Some (Ok False), app, client)
      | Ctrl_c \<Rightarrow> (Some (Ok False), app, client)
      | Ctrl_u \<Rightarrow> (Some (Ok True), app\<lparr>sh_input := []\<rparr>, client)
      | Backspace \<Rightarrow> (Some (Ok True), app\<lparr>sh_input := concat (butlast (utf8_chars (sh_input app)))\<rparr>, client)
      | Enter \<Rightarrow> submit_input lim app client
      | Char_key ch \<Rightarrow> (Some (Ok True), app\<lparr>sh_input := sh_input app @ ch\<rparr>, client)
      | Other_key \<Rightarrow> (Some (Ok True), app, client))"

definition shell_start :: "bytes \<Rightarrow> shell_app" where
  "shell_start a =
     push_system ''Type help for commands, quit to leave the shell.''
       (push_system ''Connected with one persistent TCP session.'' (shell_app_new a))"

fun run_shell_loop ::
  "limits \<Rightarrow> key_press list \<Rightarrow> shell_app \<Rightarrow> shell_client \<Rightarrow> (client_error, bool) result option \<times> shell_app \<times> shell_client" where
  "run_shell_loop lim [] app client = (Some (Ok True), app, client)"
| "run_shell_loop lim (press # presses) app client =
     (case handle_key lim press app client of
        (Some (Ok True), app, client) \<Rightarrow> run_shell_loop lim presses app client
      | stopped \<Rightarrow> stopped)"


section \<open>What a message changes\<close>

lemma push_history_keeps [simp]:
  "sh_input (push_history l app) = sh_input app" "sh_connected (push_history l app) = sh_connected app"
  "sh_last_error (push_history l app) = sh_last_error app" "sh_request_count (push_history l app) = sh_request_count app"
  by (simp_all add: push_history_def Let_def)

lemma push_lines_keep [simp]:
  "sh_input (fold (\<lambda>l. push_history (f l)) ls app) = sh_input app"
  "sh_connected (fold (\<lambda>l. push_history (f l)) ls app) = sh_connected app"
  "sh_last_error (fold (\<lambda>l. push_history (f l)) ls app) = sh_last_error app"
  "sh_request_count (fold (\<lambda>l. push_history (f l)) ls app) = sh_request_count app"
  by (induction ls arbitrary: app) simp_all

lemmas messages = push_user_def push_response_def push_error_def push_system_def

section \<open>Typing a command\<close>

text \<open>A command line that quotes every argument.\<close>

definition quote_chars :: "rchar list \<Rightarrow> rchar list" where
  "quote_chars cs = [[CHR 0x22]] @ concat (map (\<lambda>ch. if ch = backslash \<or> ch = [CHR 0x22] then [backslash, ch] else [ch]) cs)
     @ [[CHR 0x22]]"

definition typed_chars :: "bytes list \<Rightarrow> rchar list" where
  "typed_chars args = (case map (\<lambda>a. quote_chars (utf8_chars a)) args of
     [] \<Rightarrow> [] | q # qs \<Rightarrow> q @ concat (map (\<lambda>q. [CHR '' ''] # q) qs))"

definition typed_line :: "bytes list \<Rightarrow> bytes" where
  "typed_line args = concat (typed_chars args)"

lemma split_quoted_text:
  assumes "sp_quote st = Some [CHR 0x22]" "\<not> sp_escaped st" "sp_active st"
  shows "fold split_char (concat (map (\<lambda>ch. if ch = backslash \<or> ch = [CHR 0x22] then [backslash, ch] else [ch]) cs)) st =
     st\<lparr>sp_token := sp_token st @ concat cs\<rparr>"
  using assms
proof (induction cs arbitrary: st)
  case (Cons ch cs)
  have "fold split_char (if ch = backslash \<or> ch = [CHR 0x22] then [backslash, ch] else [ch]) st =
      st\<lparr>sp_token := sp_token st @ ch\<rparr>"
    using Cons.prems by (cases st) (simp add: split_char_def)
  with Cons show ?case by simp
qed simp

lemma split_quoted:
  assumes "sp_quote st = None" "\<not> sp_escaped st"
  shows "fold split_char (quote_chars cs) st = st\<lparr>sp_token := sp_token st @ concat cs, sp_active := True\<rparr>"
proof -
  let ?st = "st\<lparr>sp_quote := Some [CHR 0x22], sp_active := True\<rparr>"
  have "split_char [CHR 0x22] st = ?st" using assms by (simp add: split_char_def backslash_def)
  moreover have "split_char [CHR 0x22] (?st\<lparr>sp_token := sp_token st @ concat cs\<rparr>) =
      st\<lparr>sp_token := sp_token st @ concat cs, sp_active := True\<rparr>"
    using assms by (cases st) (simp add: split_char_def backslash_def)
  ultimately show ?thesis
    using split_quoted_text [of ?st cs] assms by (simp add: quote_chars_def)
qed

lemma split_blank:
  "sp_quote st = None \<Longrightarrow> \<not> sp_escaped st \<Longrightarrow> sp_active st \<Longrightarrow>
     split_char [CHR '' ''] st = st\<lparr>sp_tokens := sp_tokens st @ [sp_token st], sp_token := [], sp_active := False\<rparr>"
  by (simp add: split_char_def backslash_def char_is_whitespace_def code_def)

lemma split_more_args:
  assumes "sp_quote st = None" "\<not> sp_escaped st" "sp_active st" "list_all utf8 args"
  shows "\<exists>st'. fold split_char (concat (map (\<lambda>a. [CHR '' ''] # quote_chars (utf8_chars a)) args)) st = st' \<and>
    sp_quote st' = None \<and> \<not> sp_escaped st' \<and> sp_active st' \<and>
    sp_tokens st' @ [sp_token st'] = sp_tokens st @ [sp_token st] @ args"
  using assms
proof (induction args arbitrary: st)
  case (Cons a args)
  let ?st = "st\<lparr>sp_tokens := sp_tokens st @ [sp_token st], sp_token := a, sp_active := True\<rparr>"
  have "fold split_char ([CHR '' ''] # quote_chars (utf8_chars a)) st = ?st"
    using Cons.prems split_quoted [of "st\<lparr>sp_tokens := sp_tokens st @ [sp_token st], sp_token := [], sp_active := False\<rparr>" "utf8_chars a"]
    by (simp add: split_blank utf8_chars_concat)
  with Cons.IH [of ?st] Cons.prems show ?case by simp
qed simp

lemma plain_rchars [simp]: "is_rchar [CHR 0x22]" "is_rchar [CHR '' '']" "is_rchar backslash"
  by (simp_all add: is_rchar_ascii code_def backslash_def)

lemma quote_chars_rchars: "list_all is_rchar cs \<Longrightarrow> list_all is_rchar (quote_chars cs)"
proof -
  have "list_all is_rchar cs \<Longrightarrow>
      list_all is_rchar (concat (map (\<lambda>ch. if ch = backslash \<or> ch = [CHR 0x22] then [backslash, ch] else [ch]) cs))"
    by (induction cs) auto
  then show "list_all is_rchar cs \<Longrightarrow> list_all is_rchar (quote_chars cs)" by (simp add: quote_chars_def)
qed

lemma typed_chars_rchars: "list_all utf8 args \<Longrightarrow> list_all is_rchar (typed_chars args)"
proof -
  have quoted: "utf8 a \<Longrightarrow> list_all is_rchar (quote_chars (utf8_chars a))" for a
    by (rule quote_chars_rchars [OF utf8_chars_rchars])
  have more: "list_all utf8 as \<Longrightarrow> list_all is_rchar (concat (map (\<lambda>a. [CHR '' ''] # quote_chars (utf8_chars a)) as))" for as
    by (induction as) (simp_all add: quoted)
  show "list_all utf8 args \<Longrightarrow> list_all is_rchar (typed_chars args)"
    using quoted more by (cases args) (simp_all add: typed_chars_def comp_def)
qed

lemma split_typed_line:
  assumes "list_all utf8 args" "args \<noteq> []"
  shows "split_command_line (typed_line args) = Ok args"
proof -
  obtain a rest where args: "args = a # rest" using assms(2) by (cases args) auto
  let ?st = "split_init\<lparr>sp_token := a, sp_active := True\<rparr>"
  have first: "fold split_char (quote_chars (utf8_chars a)) split_init = ?st"
    using split_quoted [of split_init "utf8_chars a"] by (simp add: split_init_def utf8_chars_concat)
  have "sp_quote ?st = None" "\<not> sp_escaped ?st" "sp_active ?st" "list_all utf8 rest"
    using assms(1) args by (simp_all add: split_init_def)
  from split_more_args [OF this] obtain st' where st': "fold split_char (concat (map (\<lambda>a. [CHR '' ''] # quote_chars (utf8_chars a)) rest)) ?st = st'"
    "sp_quote st' = None" "\<not> sp_escaped st'" "sp_active st'" "sp_tokens st' @ [sp_token st'] = a # rest"
    by (auto simp: split_init_def)
  have "utf8_chars (typed_line args) = typed_chars args"
    using utf8_chars_concat_map [OF typed_chars_rchars [OF assms(1)]] by (simp add: typed_line_def)
  moreover have "fold split_char (typed_chars args) split_init = st'"
    using st'(1) first by (simp add: typed_chars_def args comp_def)
  ultimately show ?thesis using st'(2-5) by (simp add: split_command_line_def args Let_def)
qed

lemma trim_unblank:
  assumes "list_all is_rchar cs" "cs \<noteq> []" "\<not> char_is_whitespace (hd cs)" "\<not> char_is_whitespace (last cs)"
  shows "str_trim (concat cs) = concat cs"
proof -
  have "dropWhile char_is_whitespace cs = cs" using assms(2,3) by (cases cs) auto
  moreover have "dropWhile char_is_whitespace (rev cs) = rev cs"
    using assms(2,4) by (cases cs rule: rev_cases) auto
  ultimately show ?thesis using utf8_chars_concat_map [OF assms(1)] by (simp add: str_trim_def)
qed

lemma trim_typed_line:
  assumes "list_all utf8 args" "args \<noteq> []"
  shows "str_trim (typed_line args) = typed_line args" "typed_line args \<noteq> []"
proof -
  obtain a rest where args: "args = a # rest" using assms(2) by (cases args) auto
  have "hd (typed_chars args) = [CHR 0x22]" "typed_chars args \<noteq> []"
    by (simp_all add: typed_chars_def args quote_chars_def)
  moreover have "last (typed_chars args) = [CHR 0x22]"
    by (cases rest rule: rev_cases) (simp_all add: typed_chars_def args quote_chars_def)
  moreover have "\<not> char_is_whitespace [CHR 0x22]" by (simp add: char_is_whitespace_def code_def)
  ultimately show "str_trim (typed_line args) = typed_line args"
    unfolding typed_line_def by (intro trim_unblank [OF typed_chars_rchars [OF assms(1)]]) simp_all
  show "typed_line args \<noteq> []" by (simp add: typed_line_def typed_chars_def args quote_chars_def)
qed

text \<open>
  C28: Whatever the arguments of a request are (spaces, quotes, backslashes, empty arguments, any Unicode
  text), it can be typed: quoted and escaped, the line is read as exactly those arguments, and
  pressing Enter sends exactly their encoding, unless the first is one of the shell's own words.
\<close>

theorem shell_can_send_any_arguments:
  assumes "list_all utf8 (name # args)" "to_ascii_lowercase name \<notin> {''quit'', ''exit'', ''clear'', ''help'', ''?''}"
    and "send_faults (sc_stream client) = []" "sh_input app = typed_line (name # args)"
    and "handle_key lim Enter app client = (res, app', client')"
  shows "parse_shell_input (typed_line (name # args)) = Ok (Send_args (name # args)) \<and>
    outbox (sc_stream client') = outbox (sc_stream client) @ encode_resp (Array (map BulkString (name # args))) \<and>
    sh_input app' = []"
proof -
  have parse: "parse_shell_input (typed_line (name # args)) = Ok (Send_args (name # args))"
    using assms(2) split_typed_line [OF assms(1)] by (simp add: parse_shell_input_def Let_def)
  note trim = trim_typed_line [OF assms(1) list.distinct(2)]
  have "outbox (sc_stream (snd (shell_execute lim (name # args) client))) =
      outbox (sc_stream client) @ encode_resp (Array (map BulkString (name # args)))"
    using assms(3) by (simp add: shell_execute_def read_response_text_def encode_command_def case_prod_beta Let_def)
  with assms(4,5) parse trim show ?thesis
    by (auto simp: handle_key_def submit_input_def Let_def case_prod_beta messages split: option.splits result.splits)
qed

definition sample_shell_client :: shell_client where
  "sample_shell_client = \<lparr>sc_stream = \<lparr>inbox = [Recv (''$1'' @ crlf), Recv (''v'' @ crlf @ ''+P''), Recv (''ONG'' @ crlf)],
     outbox = [], send_faults = []\<rparr>, sc_buffer = []\<rparr>"

theorem shell_can_send_any_arguments_witness:
  "parse_shell_input (typed_line [''get'', ''a b'', [], [CHR 0x22, CHR 0x5C]]) =
     Ok (Send_args [''get'', ''a b'', [], [CHR 0x22, CHR 0x5C]])"
proof -
  let ?app = "(shell_start ''a'')\<lparr>sh_input := typed_line [''get'', ''a b'', [], [CHR 0x22, CHR 0x5C]]\<rparr>"
  have "list_all utf8 [''get'', ''a b'', [], [CHR 0x22, CHR 0x5C]]"
    "to_ascii_lowercase ''get'' \<notin> {''quit'', ''exit'', ''clear'', ''help'', ''?''}"
    "send_faults (sc_stream sample_shell_client) = []" by code_simp+
  note sent = shell_can_send_any_arguments [OF this, of ?app]
  obtain res app' client' where "handle_key sample_limits Enter ?app sample_shell_client = (res, app', client')"
    by (rule prod_cases3)
  from sent [OF _ this] show ?thesis by simp
qed

section \<open>What is shown\<close>

lemma wrap_char_apply:
  "wrap_char width ch (rows, row, n) = (if n = width then (rows @ [row], ch, 1) else (rows, row @ ch, n + 1))"
  by (simp add: wrap_char_def)

text \<open>The rows of a line: groups of \<open>width\<close> characters, the last one possibly shorter.\<close>

lemma wrap_fold:
  assumes "0 < width" "length g \<le> width" "fold (wrap_char width) cs (rows, concat g, length g) = (rows', row', n)"
  shows "\<exists>gs g'. rows' = rows @ map concat gs \<and> row' = concat g' \<and> concat gs @ g' = g @ cs \<and>
    (\<forall>x \<in> set gs. length x = width) \<and> length g' \<le> width \<and> (g' = [] \<longrightarrow> g @ cs = [])"
  using assms(2,3)
proof (induction cs arbitrary: rows g)
  case Nil
  then show ?case by (intro exI [of _ "[]"] exI [of _ g]) simp
next
  case (Cons ch cs)
  show ?case
  proof (cases "length g = width")
    case True
    with Cons.prems(2) assms(1) have "fold (wrap_char width) cs (rows @ [concat g], concat [ch], length [ch]) = (rows', row', n)"
      by (simp add: wrap_char_apply)
    from Cons.IH [OF _ this] assms(1) obtain gs g' where "rows' = (rows @ [concat g]) @ map concat gs" "row' = concat g'"
      "concat gs @ g' = [ch] @ cs" "\<forall>x \<in> set gs. length x = width" "length g' \<le> width" "g' = [] \<longrightarrow> [ch] @ cs = []"
      by auto
    with True show ?thesis by (intro exI [of _ "g # gs"] exI [of _ g']) simp
  next
    case False
    with Cons.prems assms(1) have "fold (wrap_char width) cs (rows, concat (g @ [ch]), length (g @ [ch])) = (rows', row', n)"
      by (simp add: wrap_char_apply)
    from Cons.IH [OF _ this] False Cons.prems(1) show ?thesis by auto
  qed
qed

lemma concat_map_concat: "concat (map concat xss) = concat (concat xss)"
  by (induction xss) simp_all

lemma wrap_history_line_rows:
  assumes "0 < width" "utf8 line"
  shows "concat (wrap_history_line line width) = line" "wrap_history_line line width \<noteq> []"
    "row \<in> set (wrap_history_line line width) \<Longrightarrow> length (utf8_chars row) \<le> width"
proof -
  obtain rows cur n where f: "fold (wrap_char width) (utf8_chars line) ([], concat ([] :: rchar list), length ([] :: rchar list)) = (rows, cur, n)"
    by (rule prod_cases3)
  from wrap_fold [OF assms(1) _ f] obtain gs g where g: "rows = map concat gs" "cur = concat g" "concat gs @ g = utf8_chars line"
    "\<forall>x \<in> set gs. length x = width" "length g \<le> width" "g = [] \<longrightarrow> utf8_chars line = []"
    by auto
  have rchars: "list_all is_rchar (concat gs @ g)" using utf8_chars_rchars [OF assms(2)] g(3) by simp
  have line: "line = concat (concat gs) @ concat g" by (metis g(3) concat_append utf8_chars_concat)
  have "\<forall>c \<in> set g. c \<noteq> []" using utf8_chars_nonempty [of _ line] by (simp add: g(3) [symmetric])
  then have "cur = [] \<longleftrightarrow> g = []" using g(2) by (cases g) auto
  moreover have "line = [] \<longleftrightarrow> utf8_chars line = []" by (metis utf8_chars.simps(1) utf8_chars_concat concat.simps(1))
  ultimately have rows: "wrap_history_line line width = map concat gs @ [concat g]"
    using f g assms(1) by (auto simp: wrap_history_line_def)
  show "concat (wrap_history_line line width) = line" unfolding rows by (simp add: concat_map_concat line)
  show "wrap_history_line line width \<noteq> []" by (simp add: rows)
  have "length (utf8_chars (concat x)) \<le> width" if "x \<in> set gs \<or> x = g" for x
  proof -
    have "list_all is_rchar x" using rchars that by (auto simp: list_all_iff)
    then have "utf8_chars (concat x) = x" using utf8_chars_concat_map by blast
    with that g(4,5) show ?thesis by auto
  qed
  then show "row \<in> set (wrap_history_line line width) \<Longrightarrow> length (utf8_chars row) \<le> width" by (auto simp: rows)
qed

text \<open>
  What the history pane shows fits it and is the newest part: at most \<open>height\<close> rows of at most
  \<open>width\<close> characters, a suffix of all rows, full unless everything is shown; and the rows are the text of the
  history, no character dropped, repeated or cut in two.
\<close>

theorem history_fits_pane:
  assumes "0 < width" "0 < height" "list_all utf8 (sh_history app)"
  shows "\<exists>hidden shown. history_rows width app = hidden @ shown \<and>
    visible_history_text width height app = join_lines shown \<and>
    length shown \<le> height \<and> (hidden \<noteq> [] \<longrightarrow> length shown = height) \<and>
    (\<forall>row \<in> set shown. length (utf8_chars row) \<le> width) \<and> concat (hidden @ shown) = concat (sh_history app)"
proof -
  let ?rows = "history_rows width app" and ?n = "length (history_rows width app) - height"
  have "concat (concat (map (\<lambda>line. wrap_history_line line width) ls)) = concat ls" if "list_all utf8 ls" for ls
    using that wrap_history_line_rows(1) [OF assms(1)] by (induction ls) simp_all
  then have whole: "concat ?rows = concat (sh_history app)" using assms(3) by (simp add: history_rows_def)
  have narrow: "\<forall>row \<in> set ?rows. length (utf8_chars row) \<le> width"
    using wrap_history_line_rows(3) [OF assms(1)] assms(3) by (auto simp: history_rows_def list_all_iff)
  show ?thesis
  proof (rule exI [of _ "take ?n ?rows"], rule exI [of _ "drop ?n ?rows"], intro conjI)
    show "\<forall>row \<in> set (drop ?n ?rows). length (utf8_chars row) \<le> width" using narrow in_set_dropD by metis
    show "visible_history_text width height app = join_lines (drop ?n ?rows)"
      using assms(1,2) by (simp add: visible_history_text_def Let_def)
    show "length (drop ?n ?rows) \<le> height" by simp
    show "take ?n ?rows \<noteq> [] \<longrightarrow> length (drop ?n ?rows) = height" by simp
  qed (use narrow whole in simp_all)
qed

theorem history_fits_pane_witness:
  "visible_history_text 4 2 \<lparr>sh_addr = [], sh_input = [], sh_history = [''< abcdefg'', ''< ok''], sh_connected = True,
     sh_request_count = 1, sh_last_error = None\<rparr> = ''g'' @ [LF] @ ''< ok''"
proof -
  let ?app = "\<lparr>sh_addr = [], sh_input = [], sh_history = [''< abcdefg'', ''< ok''], sh_connected = True,
     sh_request_count = 1, sh_last_error = None\<rparr>"
  have "list_all utf8 (sh_history ?app)" "(0::nat) < 4" "(0::nat) < 2" by code_simp+
  from history_fits_pane [OF this(2,3,1)] obtain hidden shown where
    "history_rows 4 ?app = hidden @ shown" "visible_history_text 4 2 ?app = join_lines shown" "length shown \<le> 2"
    "hidden \<noteq> [] \<longrightarrow> length shown = 2" by blast
  moreover have "history_rows 4 ?app = [''< ab'', ''cdef'', ''g'', ''< ok'']" by code_simp
  ultimately show ?thesis
    by (auto simp: join_lines_def append_eq_Cons_conv Cons_eq_append_conv split: if_splits)
qed

section \<open>What the state guarantees\<close>

definition shell_invariant :: "shell_app \<Rightarrow> bool" where
  "shell_invariant app \<longleftrightarrow> length (sh_history app) \<le> max_history_lines \<and>
     (sh_connected app \<or> (\<exists>e. sh_last_error app = Some e))"

lemma push_history_invariant: "shell_invariant app \<Longrightarrow> shell_invariant (push_history l app)"
  by (auto simp: shell_invariant_def push_history_def Let_def max_history_lines_def)

lemma push_lines_invariant: "shell_invariant app \<Longrightarrow> shell_invariant (fold (\<lambda>l. push_history (f l)) ls app)"
  by (induction ls arbitrary: app) (simp_all add: push_history_invariant)

text \<open>The newest line is always kept.\<close>

lemma push_history_newest: "sh_history (push_history l app) \<noteq> [] \<and> last (sh_history (push_history l app)) = l"
  by (simp add: push_history_def Let_def max_history_lines_def)

lemma shell_invariant_step:
  assumes "shell_invariant app" "handle_key lim press app client = (res, app', client')"
  shows "shell_invariant app'"
proof -
  have typed: "shell_invariant (app\<lparr>sh_input := x\<rparr>)" for x using assms(1) by (simp add: shell_invariant_def)
  show ?thesis
  proof (cases "press = Enter")
    case False
    with assms typed show ?thesis by (cases press) (auto simp: handle_key_def)
  next
    case True
    let ?line = "str_trim (sh_input app)" and ?app = "push_user (str_trim (sh_input app)) (app\<lparr>sh_input := []\<rparr>)"
    have up: "shell_invariant ?app" unfolding messages by (rule push_history_invariant [OF typed])
    have states: "shell_invariant (?app\<lparr>sh_history := []\<rparr>)" "shell_invariant (?app\<lparr>sh_connected := True\<rparr>)"
      "shell_invariant (?app\<lparr>sh_connected := True, sh_request_count := n, sh_last_error := None\<rparr>)"
      "shell_invariant (?app\<lparr>sh_connected := False, sh_last_error := Some e\<rparr>)" for n e
      using up by (auto simp: shell_invariant_def)
    have "push_system = (\<lambda>l. push_history (''* '' @ l))" by (simp add: fun_eq_iff push_system_def)
    note system = this
    have helped: "shell_invariant (fold push_system ls ?app)" for ls
      unfolding system by (rule push_lines_invariant [OF up])
    note kept = push_lines_invariant [OF up] push_history_invariant [OF up] push_history_invariant [OF states(1)] states(2)
    note replied = push_lines_invariant [OF states(3)] push_history_invariant [OF states(4)]
    show ?thesis
    proof (cases "?line = [] \<or> (\<exists>args. parse_shell_input ?line = Ok (Send_args args))")
      case False
      with assms(2) True kept up helped show ?thesis
        by (auto simp: handle_key_def submit_input_def Let_def messages split: result.splits shell_action.splits)
    next
      case True
      note here = this
      show ?thesis
      proof (cases "?line = []")
        case True
        with assms(2) typed [of "[]"] \<open>press = Enter\<close> show ?thesis by (auto simp: handle_key_def submit_input_def Let_def)
      next
        case False
        with here obtain args where "parse_shell_input ?line = Ok (Send_args args)" by blast
        with assms(2) False \<open>press = Enter\<close> kept(4) replied show ?thesis
          by (auto simp: handle_key_def submit_input_def Let_def case_prod_beta push_response_def push_error_def
              split: option.splits result.splits)
      qed
    qed
  qed
qed

text \<open>
  Whatever is typed and whatever the server does: the history never grows beyond its limit, and the
  header never says ERROR without an error to show.
\<close>

theorem shell_state_invariant:
  "run_shell_loop lim presses (shell_start a) client = (res, app', client') \<Longrightarrow>
     length (sh_history app') \<le> 500 \<and> (sh_connected app' \<or> (\<exists>e. sh_last_error app' = Some e))"
proof -
  have steps: "shell_invariant app \<Longrightarrow> run_shell_loop lim presses app client = (res, app', client') \<Longrightarrow> shell_invariant app'" for app
  proof (induction presses arbitrary: app client)
    case (Cons press presses)
    obtain r app1 client1 where step: "handle_key lim press app client = (r, app1, client1)" by (rule prod_cases3)
    note after = shell_invariant_step [OF Cons.prems(1) step]
    show ?case
    proof (cases "r = Some (Ok True)")
      case True
      with Cons.IH [OF after] Cons.prems(2) step show ?thesis by simp
    next
      case False
      then have "run_shell_loop lim (press # presses) app client = (r, app1, client1)"
        using step by (auto split: option.split result.split bool.split)
      with after Cons.prems(2) show ?thesis by simp
    qed
  qed simp
  have "shell_invariant (shell_start a)"
    by (simp add: shell_start_def messages shell_invariant_def push_history_def max_history_lines_def shell_app_new_def)
  from steps [OF this]
  show "run_shell_loop lim presses (shell_start a) client = (res, app', client') \<Longrightarrow>
     length (sh_history app') \<le> 500 \<and> (sh_connected app' \<or> (\<exists>e. sh_last_error app' = Some e))"
    by (simp add: shell_invariant_def max_history_lines_def)
qed

section \<open>A session\<close>

fun shell_requests ::
  "limits \<Rightarrow> bytes list list \<Rightarrow> shell_client \<Rightarrow> (client_error, bytes) result option list \<times> shell_client" where
  "shell_requests lim [] client = ([], client)"
| "shell_requests lim (args # reqs) client =
     (let (res, client) = shell_execute lim args client; (more_res, client) = shell_requests lim reqs client
      in (res # more_res, client))"


text \<open>
  After a malformed response the session is dead: the bytes that could not be parsed stay in the
  buffer, so every later request is still sent (and executed by the server) but reported as failed
  with the same error, whatever the server answers.
\<close>

theorem shell_stuck_after_protocol_error:
  assumes "parse_resp lim (sc_buffer client) = Err e" "e \<noteq> Incomplete" "send_faults (sc_stream client) = []"
    and "shell_requests lim reqs client = (shown, client')"
  shows "shown = replicate (length reqs) (Some (Err (Protocol_failure e))) \<and> sc_buffer client' = sc_buffer client \<and>
    inbox (sc_stream client') = inbox (sc_stream client) \<and>
    outbox (sc_stream client') = outbox (sc_stream client) @ concat (map encode_command reqs)"
  using assms
proof (induction reqs arbitrary: client shown)
  case (Cons args reqs)
  let ?client = "client\<lparr>sc_stream := (sc_stream client)\<lparr>outbox := outbox (sc_stream client) @ encode_command args\<rparr>\<rparr>"
  have "response_text_loop lim (sc_buffer client) rs = (Some (Err (Protocol_failure e)), sc_buffer client, rs)" for rs
    using Cons.prems(1,2) by (subst response_text_loop.simps) simp
  then have step: "shell_execute lim args client = (Some (Err (Protocol_failure e)), ?client)"
    using Cons.prems(3) by (simp add: shell_execute_def read_response_text_def Let_def)
  obtain shown' client2 where more_steps: "shell_requests lim reqs ?client = (shown', client2)" by fastforce
  with Cons.prems(4) step have result: "shown = Some (Err (Protocol_failure e)) # shown'" "client2 = client'"
    by simp_all
  with Cons.IH [of ?client shown'] Cons.prems(1-3) more_steps show ?case by simp
qed simp

theorem shell_state_invariant_witness:
  "let r = run_shell_loop sample_limits (map (\<lambda>b. Char_key [b]) ''get k'' @ [Enter, Escape]) (shell_start ''a'') sample_shell_client
   in sh_history (fst (snd r)) \<noteq> [] \<and> length (sh_history (fst (snd r))) \<le> 500"
proof -
  let ?r = "run_shell_loop sample_limits (map (\<lambda>b. Char_key [b]) ''get k'' @ [Enter, Escape]) (shell_start ''a'') sample_shell_client"
  have "?r = (fst ?r, fst (snd ?r), snd (snd ?r))" by simp
  moreover have "sh_history (fst (snd ?r)) \<noteq> []" by code_simp
  ultimately show ?thesis using shell_state_invariant [of sample_limits _ "''a''" sample_shell_client] unfolding Let_def by blast
qed


theorem shell_stuck_after_protocol_error_witness:
  "fst (shell_requests sample_limits [[''ping''], [''ping'']] (sample_shell_client\<lparr>sc_buffer := ''!oops'' @ crlf\<rparr>)) =
     replicate 2 (Some (Err (Protocol_failure (InvalidTypeByte CHR 0x21))))"
proof -
  let ?client = "sample_shell_client\<lparr>sc_buffer := ''!oops'' @ crlf\<rparr>"
  have "parse_resp sample_limits (sc_buffer ?client) = Err (InvalidTypeByte CHR 0x21)"
    "InvalidTypeByte CHR 0x21 \<noteq> Incomplete" "send_faults (sc_stream ?client) = []" by code_simp+
  note stuck = shell_stuck_after_protocol_error [OF this, of "[[''ping''], [''ping'']]", OF prod.collapse [symmetric]]
  have "length [[''ping''], [''ping'']] = 2" by simp
  with stuck show ?thesis by (simp only: conj_assoc)
qed

end
