(* ===== verification/Shell_Screen.thy ===== *)
theory Shell_Screen
  imports Monitor_Screen Shell
begin

text \<open>
  The terminal side of the shell (\<open>rustkv-cli/src/tui.rs\<close>): \<open>run_shell\<close> with the terminal it sets up and
  restores, the loop around \<open>handle_key\<close>, and the widgets of its screen. \<open>inner\<close> stands for ratatui's
  \<open>Block::inner\<close>, the area inside the borders.
\<close>

section \<open>The widgets\<close>








section \<open>The loop and the terminal\<close>

text \<open>
  An event is a key, or \<open>None\<close> when none comes within the poll's time. The result is \<open>None\<close> while the shell
  goes on or waits for a reply.
\<close>

fun shell_loop ::
  "terminal_fates \<Rightarrow> limits \<Rightarrow> key_press option list \<Rightarrow> shell_app \<Rightarrow> shell_client \<Rightarrow> tty \<Rightarrow>
    (client_error, unit) result option \<times> shell_app \<times> shell_client \<times> tty" where
  "shell_loop fates lims [] app client t = (None, app, client, t)"
| "shell_loop fates lims (event # events) app client t =
     (case tty_call fates Draw_frame True t of
        (Ok _, t) \<Rightarrow>
          (case tty_call fates Poll_event True t of
             (Ok _, t) \<Rightarrow>
               (case event of
                  None \<Rightarrow> shell_loop fates lims events app client t
                | Some press \<Rightarrow>
                    (case tty_call fates Read_event True t of
                       (Ok _, t) \<Rightarrow>
                         (case handle_key lims press app client of
                            (None, app, client) \<Rightarrow> (None, app, client, t)
                          | (Some (Ok True), app, client) \<Rightarrow> shell_loop fates lims events app client t
                          | (Some (Ok False), app, client) \<Rightarrow> (Some (Ok ()), app, client, t)
                          | (Some (Err e), app, client) \<Rightarrow> (Some (Err e), app, client, t)
                          | (Some Panic, app, client) \<Rightarrow> (Some Panic, app, client, t))
                     | (failed, t) \<Rightarrow> (Some (map_err Io_failure failed), app, client, t)))
           | (failed, t) \<Rightarrow> (Some (map_err Io_failure failed), app, client, t))
      | (failed, t) \<Rightarrow> (Some (map_err Io_failure failed), app, client, t))"

text \<open>A panic unwinds past the clean-up.\<close>

definition run_shell ::
  "terminal_fates \<Rightarrow> limits \<Rightarrow> key_press option list \<Rightarrow> bytes \<Rightarrow> (io_error, tcp) result \<Rightarrow> tty \<Rightarrow>
    (client_error, unit) result option \<times> tty" where
  "run_shell fates lims events a opened t =
     (case shell_connect opened of
        Err e \<Rightarrow> (Some (Err e), t)
      | Panic \<Rightarrow> (Some Panic, t)
      | Ok client \<Rightarrow>
          (case tty_call fates Enable_raw True t of
             (Ok _, t) \<Rightarrow>
               (case tty_call fates Enter_alternate True t of
                  (Ok _, t) \<Rightarrow>
                    (case terminal_setup fates t of
                       (Ok _, t) \<Rightarrow>
                         (let (result, app, client, t) = shell_loop fates lims events (shell_start a) client t
                          in case result of
                               None \<Rightarrow> (None, t)
                             | Some Panic \<Rightarrow> (Some Panic, t)
                             | Some (Err error) \<Rightarrow> (let (cleanup, t) = terminal_cleanup fates t in (Some (Err error), t))
                             | Some (Ok _) \<Rightarrow>
                                 (let (cleanup, t) = terminal_cleanup fates t in (Some (map_err Io_failure cleanup), t)))
                     | (failed, t) \<Rightarrow> (Some (map_err Io_failure failed), t))
                | (failed, t) \<Rightarrow>
                    (let (ignored, t) = tty_call fates Disable_raw True t in (Some (map_err Io_failure failed), t)))
           | (failed, t) \<Rightarrow> (Some (map_err Io_failure failed), t)))"

section \<open>The cursor\<close>




section \<open>The terminal afterwards\<close>

lemma shell_loop_mode: "shell_loop fates lims events app client t = (res, app', client', t') \<Longrightarrow> same_mode t t'"
proof (induction fates lims events app client t arbitrary: res app' client' t' rule: shell_loop.induct)
  case (2 fates lims event events app client t)
  obtain r1 t1 where draw: "tty_call fates Draw_frame True t = (r1, t1)" by fastforce
  obtain r2 t2 where poll: "tty_call fates Poll_event True t1 = (r2, t2)" by fastforce
  obtain r3 t3 where read: "tty_call fates Read_event True t2 = (r3, t3)" by fastforce
  have modes: "same_mode t t1" "same_mode t1 t2" "same_mode t2 t3"
    using loop_call_mode [OF _ draw] loop_call_mode [OF _ poll] loop_call_mode [OF _ read] by simp_all
  note steps = same_mode_trans [OF modes(1,2)] same_mode_trans [OF same_mode_trans [OF modes(1,2)] modes(3)]
  from 2 show ?case
    using modes(1) steps
    by (auto simp: draw poll read Let_def split: result.splits option.splits prod.splits bool.splits
        intro: same_mode_trans)
qed simp


definition sample_shell_stream :: tcp where
  "sample_shell_stream = \<lparr>inbox = [], outbox = [], send_faults = []\<rparr>"


text \<open>
  A failure while the terminal is set up is returned with the terminal left in raw mode: in the monitor as soon
  as the alternate screen cannot be entered (the shell switches the raw mode off again there); in both, with the
  alternate screen on as well, when ratatui's terminal cannot be created or cleared.
\<close>

theorem failed_setup_leaves_terminal:
  assumes "fates Enable_raw 0 = None"
  shows "(fates Enter_alternate 1 = Some e \<longrightarrow>
      (\<exists>t. ui_run fates rounds state tty_found = (Some (Err e), [], t) \<and> tty_raw t)) \<and>
    (fates Enter_alternate 1 = Some e \<and> fates Disable_raw 2 = None \<longrightarrow>
      (\<exists>t. run_shell fates lims events a (Ok stream) tty_found = (Some (Err (Io_failure e)), t) \<and> tty_restored t)) \<and>
    (fates Enter_alternate 1 = None \<and> (fates New_terminal 2 = Some e \<or> fates New_terminal 2 = None \<and> fates Clear_screen 3 = Some e) \<longrightarrow>
      (\<exists>t t'. ui_run fates rounds state tty_found = (Some (Err e), [], t) \<and> tty_raw t \<and> tty_alternate t \<and>
         run_shell fates lims events a (Ok stream) tty_found = (Some (Err (Io_failure e)), t') \<and> tty_raw t' \<and> tty_alternate t'))"
  using assms
  by (auto simp: ui_run_def run_shell_def shell_connect_def tty_call_def tty_found_def tty_then_def terminal_setup_def
      tty_restored_def eval_nat_numeral)

theorem failed_setup_leaves_terminal_witness:
  "\<exists>t. ui_run (\<lambda>call n. if call = Clear_screen then Some (IoError OtherKind ''clear'') else None) [] (monitor_state_new ''a'') tty_found =
      (Some (Err (IoError OtherKind ''clear'')), [], t) \<and> tty_raw t \<and> tty_alternate t"
  using failed_setup_leaves_terminal [of "\<lambda>call n. if call = Clear_screen then Some (IoError OtherKind ''clear'') else None"
      "IoError OtherKind ''clear''" "[]" "monitor_state_new ''a''" sample_limits "[]" "[]" sample_shell_stream] by auto

end
