(* ===== verification/Bench.thy ===== *)
theory Bench
  imports Cli Executor
begin

text \<open>
  \<open>rustkv-bench/src/main.rs\<close>: the benchmark. The requests are divided among workers, each of which has
  a connection of its own and sends its requests one at a time. The figures that are printed are in
  \<open>Bench_Report\<close>.
\<close>

section \<open>Arguments and the division of the work\<close>

datatype bench_command = Bench_set | Bench_get | Bench_mixed

fun bench_as_str :: "bench_command \<Rightarrow> bytes" where
  "bench_as_str Bench_set = ''set''"
| "bench_as_str Bench_get = ''get''"
| "bench_as_str Bench_mixed = ''mixed''"

record bench_args =
  ba_addr :: bytes
  ba_requests :: nat
  ba_command :: bench_command
  ba_clients :: nat

definition validate_args :: "bench_args \<Rightarrow> (client_error, unit) result" where
  "validate_args args =
     (if ba_requests args = 0 then Err (Failure ''--requests must be greater than 0'')
      else if ba_clients args = 0 then Err (Failure ''--clients must be greater than 0'')
      else Ok ())"

definition client_count :: "bench_args \<Rightarrow> nat" where
  "client_count args = min (ba_clients args) (ba_requests args)"

text \<open>Called with a \<open>client_count\<close> that \<open>validate_args\<close> has made positive; Rust panics on zero.\<close>

definition requests_for_client :: "nat \<Rightarrow> nat \<Rightarrow> nat \<Rightarrow> nat" where
  "requests_for_client total_requests clients client_id =
     (let share = total_requests div clients; remainder = total_requests mod clients
      in if client_id < remainder then share + 1 else share)"

section \<open>Requests\<close>

definition bench_key :: "bytes \<Rightarrow> nat \<Rightarrow> nat \<Rightarrow> bytes" where
  "bench_key prefix client_id sequence = prefix @ '':'' @ show_nat client_id @ '':'' @ show_nat sequence"

definition bench_value :: "nat \<Rightarrow> nat \<Rightarrow> bytes" where
  "bench_value client_id sequence = ''value-'' @ show_nat client_id @ ''-'' @ show_nat sequence"

definition set_args :: "bytes \<Rightarrow> nat \<Rightarrow> nat \<Rightarrow> bytes list" where
  "set_args prefix client_id sequence = [''SET'', bench_key prefix client_id sequence, bench_value client_id sequence]"

definition get_args :: "bytes \<Rightarrow> nat \<Rightarrow> nat \<Rightarrow> bytes list" where
  "get_args prefix client_id sequence = [''GET'', bench_key prefix client_id sequence]"

definition bench_command_args :: "bench_command \<Rightarrow> nat \<Rightarrow> nat \<Rightarrow> bytes list" where
  "bench_command_args command client_id sequence =
     (case command of
        Bench_set \<Rightarrow> set_args ''bench:set'' client_id sequence
      | Bench_get \<Rightarrow> get_args ''bench:get'' client_id sequence
      | Bench_mixed \<Rightarrow>
          if 2 dvd sequence then set_args ''bench:mixed'' client_id sequence
          else get_args ''bench:mixed'' client_id (sequence - 1))"

definition bench_encode_command :: "bytes list \<Rightarrow> bytes" where
  "bench_encode_command args = encode_resp (Array (map BulkString args))"

section \<open>One connection\<close>

record bench_connection =
  bc_stream :: tcp
  bc_buffer :: bytes

definition bench_connect :: "(io_error, tcp) result \<Rightarrow> (client_error, bench_connection) result" where
  "bench_connect connected = map_ok (\<lambda>s. \<lparr>bc_stream = s, bc_buffer = []\<rparr>) (map_err Io_failure connected)"

definition bench_closed :: client_error where
  "bench_closed = Io_failure (IoError UnexpectedEof ''server closed before sending a complete response'')"

fun bench_read_loop ::
  "limits \<Rightarrow> bytes \<Rightarrow> recv list \<Rightarrow> (client_error, unit) result option \<times> bytes \<times> recv list" where
  "bench_read_loop lim buf rs =
     (case parse_resp lim buf of
        Ok (frame, consumed) \<Rightarrow>
          (Some (case frame of FError message \<Rightarrow> Err (Io_failure (IoError InvalidData message)) | _ \<Rightarrow> Ok ()),
           drop consumed buf, rs)
      | Panic \<Rightarrow> (Some Panic, buf, rs)
      | Err e \<Rightarrow>
          if e \<noteq> Incomplete
          then (Some (Err (Io_failure (IoError InvalidData (''invalid RESP response: '' @ show_protocol_error e)))), buf, rs)
          else case rs of
            [] \<Rightarrow> (None, buf, [])
          | Recv_error e # rs \<Rightarrow> (Some (Err (Io_failure e)), buf, rs)
          | Closed # rs \<Rightarrow> (Some (Err bench_closed), buf, rs)
          | Recv chunk # rs \<Rightarrow>
              if chunk = [] then (Some (Err bench_closed), buf, rs) else bench_read_loop lim (buf @ chunk) rs)"

declare bench_read_loop.simps [simp del]

definition bench_read_response :: "limits \<Rightarrow> bench_connection \<Rightarrow> (client_error, unit) result option \<times> bench_connection" where
  "bench_read_response lim cn =
     (let (res, buf, rs) = bench_read_loop lim (bc_buffer cn) (inbox (bc_stream cn))
      in (res, cn\<lparr>bc_buffer := buf, bc_stream := (bc_stream cn)\<lparr>inbox := rs\<rparr>\<rparr>))"

definition send_command ::
  "limits \<Rightarrow> bytes list \<Rightarrow> bench_connection \<Rightarrow> (client_error, unit) result option \<times> bench_connection" where
  "send_command lim args cn =
     (let bytes = bench_encode_command args; (written, s) = write_and_flush bytes (bc_stream cn); cn = cn\<lparr>bc_stream := s\<rparr>
      in case written of
           Ok _ \<Rightarrow> bench_read_response lim cn
         | Err e \<Rightarrow> (Some (Err (Io_failure e)), cn)
         | Panic \<Rightarrow> (Some Panic, cn))"

section \<open>Workers\<close>

record worker_stats =
  completed :: nat
  total_latency_nanos :: nat

definition worker_stats_default :: worker_stats where
  "worker_stats_default = \<lparr>completed = 0, total_latency_nanos = 0\<rparr>"

text \<open>
  \<open>latency\<close> is what \<open>started_at.elapsed()\<close> reads for each request. The result is \<open>None\<close> while a response
  is awaited.
\<close>

fun worker_loop ::
  "limits \<Rightarrow> (nat \<Rightarrow> duration) \<Rightarrow> bench_command \<Rightarrow> nat \<Rightarrow> nat list \<Rightarrow> worker_stats \<Rightarrow> bench_connection \<Rightarrow>
    (client_error, worker_stats) result option \<times> bench_connection" where
  "worker_loop lim latency command client_id [] stats cn = (Some (Ok stats), cn)"
| "worker_loop lim latency command client_id (sequence # sequences) stats cn =
     (let (res, cn) = send_command lim (bench_command_args command client_id sequence) cn
      in case res of
           Some (Ok _) \<Rightarrow>
             worker_loop lim latency command client_id sequences
               (stats\<lparr>completed := completed stats + 1,
                  total_latency_nanos := total_latency_nanos stats + latency sequence\<rparr>) cn
         | None \<Rightarrow> (None, cn)
         | Some (Err e) \<Rightarrow> (Some (Err e), cn)
         | Some Panic \<Rightarrow> (Some Panic, cn))"

definition run_worker ::
  "limits \<Rightarrow> (nat \<Rightarrow> duration) \<Rightarrow> (io_error, tcp) result \<Rightarrow> bench_command \<Rightarrow> nat \<Rightarrow> nat \<Rightarrow>
    (client_error, worker_stats) result option \<times> bench_connection option" where
  "run_worker lim latency connected command client_id request_count =
     (case bench_connect connected of
        Ok cn \<Rightarrow>
          (let (res, cn) = worker_loop lim latency command client_id [0..<request_count] worker_stats_default cn
           in (res, Some cn))
      | Err e \<Rightarrow> (Some (Err e), None)
      | Panic \<Rightarrow> (Some Panic, None))"

text \<open>The keys that a run with \<open>GET\<close> only finds: their requests, in the order they are sent.\<close>

definition prepared_requests :: "nat \<Rightarrow> nat \<Rightarrow> bytes list list" where
  "prepared_requests total_requests clients =
     concat (map (\<lambda>client_id. map (set_args ''bench:get'' client_id)
       [0..<requests_for_client total_requests clients client_id]) [0..<clients])"

fun prepare_loop ::
  "limits \<Rightarrow> bytes list list \<Rightarrow> bench_connection \<Rightarrow> (client_error, unit) result option \<times> bench_connection" where
  "prepare_loop lim [] cn = (Some (Ok ()), cn)"
| "prepare_loop lim (args # requests) cn =
     (let (res, cn) = send_command lim args cn
      in case res of Some (Ok _) \<Rightarrow> prepare_loop lim requests cn | _ \<Rightarrow> (res, cn))"

definition prepare_get_keys ::
  "limits \<Rightarrow> (io_error, tcp) result \<Rightarrow> nat \<Rightarrow> nat \<Rightarrow> (client_error, unit) result option \<times> bench_connection option" where
  "prepare_get_keys lim connected total_requests clients =
     (case bench_connect connected of
        Ok cn \<Rightarrow> (let (res, cn) = prepare_loop lim (prepared_requests total_requests clients) cn in (res, Some cn))
      | Err e \<Rightarrow> (Some (Err e), None)
      | Panic \<Rightarrow> (Some Panic, None))"

text \<open>The workers that are spawned: their ids and how much each of them does.\<close>

definition spawned :: "bench_args \<Rightarrow> (nat \<times> nat) list" where
  "spawned args =
     filter (\<lambda>(client_id, request_count). request_count \<noteq> 0)
       (map (\<lambda>client_id. (client_id, requests_for_client (ba_requests args) (client_count args) client_id))
         [0..<client_count args])"

text \<open>\<open>join_next\<close> hands out the workers in the order they finish; a worker that has panicked is an error, \<open>join_error\<close> its text.\<close>

fun aggregate_workers :: "bytes \<Rightarrow> (client_error, worker_stats) result list \<Rightarrow> worker_stats \<Rightarrow> (client_error, worker_stats) result" where
  "aggregate_workers join_error [] totals = Ok totals"
| "aggregate_workers join_error (finished # more_finished) totals =
     (case finished of
        Ok stats \<Rightarrow>
          aggregate_workers join_error more_finished
            (totals\<lparr>completed := completed totals + completed stats,
               total_latency_nanos := total_latency_nanos totals + total_latency_nanos stats\<rparr>)
      | Err e \<Rightarrow> Err e
      | Panic \<Rightarrow> Err (Failure (''benchmark worker failed: '' @ join_error)))"

interpretation bench_reader: frame_loop "parse_resp lim" Incomplete "\<lambda>_. True"
  "\<lambda>v n buf rs. (Some (case v of FError message \<Rightarrow> Err (Io_failure (IoError InvalidData message)) | _ \<Rightarrow> Ok ()),
     drop n buf, rs)"
  "bench_read_loop lim" for lim
proof unfold_locales
  show "bench_read_loop lim buf rs =
      (Some (case v of FError message \<Rightarrow> Err (Io_failure (IoError InvalidData message)) | _ \<Rightarrow> Ok ()), drop n buf, rs)"
    if "parse_resp lim buf = Ok (v, n)" for buf rs v n
    using that by (simp add: bench_read_loop.simps)
  show "bench_read_loop lim buf (Recv bs # rs) = bench_read_loop lim (buf @ bs) rs"
    if "parse_resp lim buf = Err Incomplete" "bs \<noteq> []" for buf bs rs
    using that by (subst bench_read_loop.simps) simp
qed simp

section \<open>The division of the work\<close>

lemma sum_of_shares: "(\<Sum>i \<leftarrow> [0..<c]. a + (if i < r then 1 else 0)) = c * a + min c r" for a r c :: nat
  by (induction c) auto

lemma requests_sum: "0 < clients \<Longrightarrow> (\<Sum>i \<leftarrow> [0..<clients]. requests_for_client work clients i) = work"
proof -
  have "requests_for_client work clients i = work div clients + (if i < work mod clients then 1 else 0)" for i
    by (simp add: requests_for_client_def Let_def)
  moreover assume "0 < clients"
  ultimately show ?thesis
    using sum_of_shares [of "work div clients" "work mod clients" clients] by (simp add: min_absorb2 less_imp_le)
qed

lemma spawned_all:
  assumes "validate_args args = Ok ()"
  shows "spawned args = map (\<lambda>i. (i, requests_for_client (ba_requests args) (client_count args) i)) [0..<client_count args]"
    and "0 < client_count args"
    and "1 \<le> requests_for_client (ba_requests args) (client_count args) i"
proof -
  show pos: "0 < client_count args"
    using assms by (auto simp: validate_args_def client_count_def split: if_splits)
  have "client_count args \<le> ba_requests args" by (simp add: client_count_def)
  then have "0 < ba_requests args div client_count args" using pos by (simp add: div_greater_zero_iff)
  then show least: "1 \<le> requests_for_client (ba_requests args) (client_count args) i" for i
    by (simp add: requests_for_client_def Let_def)
  have "filter (\<lambda>(client_id, request_count). request_count \<noteq> 0)
      (map (\<lambda>i. (i, requests_for_client (ba_requests args) (client_count args) i)) xs) =
      map (\<lambda>i. (i, requests_for_client (ba_requests args) (client_count args) i)) xs" for xs
    using least by (induction xs) (auto simp: Suc_le_eq)
  then show "spawned args = map (\<lambda>i. (i, requests_for_client (ba_requests args) (client_count args) i)) [0..<client_count args]"
    by (simp add: spawned_def)
qed

text \<open>
  With arguments that pass validation, the workers together send exactly the requested number of
  requests; every worker that was announced is spawned with at least one request, and no two workers'
  shares differ by more than one.
\<close>

theorem requests_divided_evenly:
  assumes "validate_args args = Ok ()"
  shows "sum_list (map snd (spawned args)) = ba_requests args \<and>
    map fst (spawned args) = [0..<client_count args] \<and>
    (\<forall>(i, n) \<in> set (spawned args). 1 \<le> n \<and> n - ba_requests args div client_count args \<le> 1 \<and>
       ba_requests args div client_count args \<le> n)"
  using requests_sum [OF spawned_all(2) [OF assms]] spawned_all(3) [OF assms]
  by (auto simp: spawned_all(1) [OF assms] comp_def requests_for_client_def Let_def)

theorem requests_divided_evenly_witness:
  "sum_list (map snd (spawned \<lparr>ba_addr = [], ba_requests = 11, ba_command = Bench_get, ba_clients = 4\<rparr>)) = 11"
proof -
  have "validate_args \<lparr>ba_addr = [], ba_requests = 11, ba_command = Bench_get, ba_clients = 4\<rparr> = Ok ()" by code_simp
  from requests_divided_evenly [OF this] show ?thesis by simp
qed

section \<open>Keys\<close>

lemma show_nat_inject: "show_nat m = show_nat n \<longleftrightarrow> m = n"
  by (metis option.inject parse_digits_show_nat)

lemma colon_splits:
  assumes "CHR '':'' \<notin> set x" "CHR '':'' \<notin> set x'" "x @ '':'' @ y = x' @ '':'' @ y'"
  shows "x = x' \<and> y = y'"
proof -
  have "takeWhile (\<lambda>b. b \<noteq> CHR '':'') (z @ '':'' @ w) = z" if "CHR '':'' \<notin> set z" for z w
    using that by (subst takeWhile_append2) auto
  from this [OF assms(1), of y] this [OF assms(2), of y'] assms(3) have "x = x'" by metis
  with assms(3) show ?thesis by simp
qed

lemma bench_key_inject: "bench_key prefix i m = bench_key prefix j n \<longleftrightarrow> i = j \<and> m = n"
proof -
  have "CHR '':'' \<notin> set (show_nat k)" for k
  proof
    assume "CHR '':'' \<in> set (show_nat k)"
    then have "is_digit_byte CHR '':''" by (rule show_nat_digits)
    then obtain d where "d < 10" "CHR '':'' = digit_char d" by (auto simp: is_digit_byte_def)
    then show False using less_10_cases [of d] by (auto simp: digit_char_def)
  qed
  from colon_splits [OF this this, of i "show_nat m" j "show_nat n"] show ?thesis
    by (auto simp: bench_key_def show_nat_inject)
qed

definition request_key :: "bytes list \<Rightarrow> bytes" where
  "request_key args = args ! 1"

lemma request_key_simps [simp]: "request_key (set_args p i n) = bench_key p i n" "request_key (get_args p i n) = bench_key p i n"
  by (simp_all add: request_key_def set_args_def get_args_def)

lemma prepared_keys:
  "map request_key (prepared_requests work clients) =
     concat (map (\<lambda>i. map (bench_key ''bench:get'' i) [0..<requests_for_client work clients i]) [0..<clients])"
  by (simp add: prepared_requests_def map_concat comp_def)

text \<open>
  For a run of \<open>GET\<close>s the preparation writes exactly the keys that the workers will ask for, each
  once: every request of every worker asks for a prepared key, no two requests for the same one.
\<close>

theorem bench_get_keys_prepared:
  assumes "validate_args args = Ok ()"
  shows "map request_key (prepared_requests (ba_requests args) (client_count args)) =
      concat (map (\<lambda>(i, n). map (\<lambda>sequence. request_key (bench_command_args Bench_get i sequence)) [0..<n]) (spawned args)) \<and>
    distinct (map request_key (prepared_requests (ba_requests args) (client_count args))) \<and>
    length (prepared_requests (ba_requests args) (client_count args)) = ba_requests args"
proof -
  let ?n = "requests_for_client (ba_requests args) (client_count args)"
  have "distinct (concat (map (\<lambda>i. map (bench_key ''bench:get'' i) [0..<f i]) xs))" if "distinct xs" for xs f
    using that by (induction xs) (auto simp: distinct_map inj_on_def bench_key_inject)
  moreover have "length (prepared_requests (ba_requests args) (client_count args)) = ba_requests args"
    using requests_sum [OF spawned_all(2) [OF assms]] by (simp add: prepared_requests_def length_concat comp_def)
  ultimately show ?thesis
    by (simp add: prepared_keys spawned_all(1) [OF assms] comp_def bench_command_args_def)
qed

theorem bench_get_keys_prepared_witness:
  "distinct (map request_key (prepared_requests 5 2)) \<and> length (prepared_requests 5 2) = 5"
proof -
  let ?args = "\<lparr>ba_addr = [], ba_requests = 5, ba_command = Bench_get, ba_clients = 2\<rparr>"
  have "validate_args ?args = Ok ()" by code_simp
  from bench_get_keys_prepared [OF this] have
    "distinct (map request_key (prepared_requests (ba_requests ?args) (client_count ?args))) \<and>
     length (prepared_requests (ba_requests ?args) (client_count ?args)) = ba_requests ?args" by blast
  moreover have "client_count ?args = 2" "ba_requests ?args = 5" by (simp_all add: client_count_def)
  ultimately show ?thesis by metis
qed

section \<open>A worker\<close>

lemma send_command_answered:
  assumes "encodable lim r" "\<nexists>m. r = Error m" "[] \<notin> set chunks"
    and "bc_buffer cn @ concat chunks = encode_resp r @ rest" "inbox (bc_stream cn) = map Recv chunks @ rs"
    and "send_faults (bc_stream cn) = []"
  obtains buf chunks' where "buf @ concat chunks' = rest" "[] \<notin> set chunks'"
    "send_command lim args cn = (Some (Ok ()), cn\<lparr>bc_buffer := buf, bc_stream := (bc_stream cn)
       \<lparr>inbox := map Recv chunks' @ rs, outbox := outbox (bc_stream cn) @ bench_encode_command args\<rparr>\<rparr>)"
proof -
  from bench_reader.delivers [OF resp.dec_enc [OF assms(1)] assms(4,3) TrueI, of rs] obtain buf chunks' where
    loop: "bench_read_loop lim (bc_buffer cn) (map Recv chunks @ rs) =
        (Some (case frame_of r of FError message \<Rightarrow> Err (Io_failure (IoError InvalidData message)) | _ \<Rightarrow> Ok ()),
          buf, map Recv chunks' @ rs)" "buf @ concat chunks' = rest" "[] \<notin> set chunks'"
    by (metis append_eq_conv_conj)
  have "(case frame_of r of FError message \<Rightarrow> Err (Io_failure (IoError InvalidData message)) | _ \<Rightarrow> Ok ()) = (Ok () :: (client_error, unit) result)"
    using assms(2) by (cases r) simp_all
  with loop(1) assms(5,6) show ?thesis
    by (intro that [OF loop(2,3)]) (cases cn, simp add: send_command_def bench_read_response_def Let_def)
qed

text \<open>
  C32: A worker whose requests are all answered without an error, in whatever chunks, finishes; it has
  sent exactly its requests, one for each sequence number and in order, has counted each once and added up
  their latencies.
\<close>

theorem worker_counts_requests:
  assumes "list_all (encodable lim) replies" "\<forall>r \<in> set replies. \<nexists>m. r = Error m" "[] \<notin> set chunks"
    and "concat chunks = concat (map encode_resp replies)"
    and "run_worker lim latency (Ok \<lparr>inbox = map Recv chunks, outbox = [], send_faults = []\<rparr>) command client_id (length replies) =
      (res, cn)"
  shows "res = Some (Ok \<lparr>completed = length replies, total_latency_nanos = (\<Sum>i \<leftarrow> [0..<length replies]. latency i)\<rparr>) \<and>
    map_option (\<lambda>cn. outbox (bc_stream cn)) cn =
      Some (concat (map (\<lambda>i. bench_encode_command (bench_command_args command client_id i)) [0..<length replies]))"
proof -
  have loop: "\<exists>cn'. worker_loop lim latency command client_id is st cn =
      (Some (Ok (st\<lparr>completed := completed st + length is, total_latency_nanos := total_latency_nanos st + sum_list (map latency is)\<rparr>)), cn') \<and>
      outbox (bc_stream cn') = outbox (bc_stream cn) @ concat (map (\<lambda>i. bench_encode_command (bench_command_args command client_id i)) is)"
    if "list_all (encodable lim) rs" "\<forall>r \<in> set rs. \<nexists>m. r = Error m" "[] \<notin> set chs" "length is = length rs"
      "bc_buffer cn @ concat chs = concat (map encode_resp rs)" "inbox (bc_stream cn) = map Recv chs" "send_faults (bc_stream cn) = []"
    for rs chs "is" st and cn :: bench_connection
    using that
  proof (induction rs arbitrary: "is" st cn chs)
    case Nil
    then show ?case by simp
  next
    case (Cons r rs)
    from Cons.prems(4) obtain i is' where idx: "is = i # is'" "length is' = length rs" by (cases "is") auto
    have "encodable lim r" "\<nexists>m. r = Error m" "bc_buffer cn @ concat chs = encode_resp r @ concat (map encode_resp rs)"
      "inbox (bc_stream cn) = map Recv chs @ []"
      using Cons.prems by simp_all
    from send_command_answered [OF this(1,2) Cons.prems(3) this(3,4) Cons.prems(7)] obtain buf chs' where
      step: "buf @ concat chs' = concat (map encode_resp rs)" "[] \<notin> set chs'"
      "send_command lim (bench_command_args command client_id i) cn = (Some (Ok ()), cn\<lparr>bc_buffer := buf, bc_stream := (bc_stream cn)
        \<lparr>inbox := map Recv chs', outbox := outbox (bc_stream cn) @ bench_encode_command (bench_command_args command client_id i)\<rparr>\<rparr>)"
      by auto
    let ?cn = "cn\<lparr>bc_buffer := buf, bc_stream := (bc_stream cn)
        \<lparr>inbox := map Recv chs', outbox := outbox (bc_stream cn) @ bench_encode_command (bench_command_args command client_id i)\<rparr>\<rparr>"
    let ?st = "st\<lparr>completed := completed st + 1, total_latency_nanos := total_latency_nanos st + latency i\<rparr>"
    from Cons.IH [of chs' is' ?cn ?st] Cons.prems(1,2,7) idx(2) step(1,2) obtain cn' where
      "worker_loop lim latency command client_id is' ?st ?cn = (Some (Ok (?st\<lparr>completed := completed ?st + length is',
        total_latency_nanos := total_latency_nanos ?st + sum_list (map latency is')\<rparr>)), cn')"
      "outbox (bc_stream cn') = outbox (bc_stream ?cn) @ concat (map (\<lambda>i. bench_encode_command (bench_command_args command client_id i)) is')"
      by auto
    with step(3) show ?case by (simp add: idx(1) add.assoc)
  qed
  let ?cn = "\<lparr>bc_stream = \<lparr>inbox = map Recv chunks, outbox = [], send_faults = []\<rparr>, bc_buffer = []\<rparr>"
  from loop [OF assms(1-3), of "[0..<length replies]" ?cn worker_stats_default] assms(4) obtain cn' where
    "worker_loop lim latency command client_id [0..<length replies] worker_stats_default ?cn =
      (Some (Ok (worker_stats_default\<lparr>completed := length replies, total_latency_nanos := sum_list (map latency [0..<length replies])\<rparr>)), cn')"
    "outbox (bc_stream cn') = concat (map (\<lambda>i. bench_encode_command (bench_command_args command client_id i)) [0..<length replies])"
    by (auto simp: worker_stats_default_def)
  with assms(5) show ?thesis by (auto simp: run_worker_def bench_connect_def worker_stats_default_def)
qed

theorem worker_counts_requests_witness:
  "fst (run_worker sample_limits (\<lambda>i. 10 + i) (Ok \<lparr>inbox = map Recv [''+O'', ''K'' @ crlf @ ''$1'' @ crlf, ''v'' @ crlf],
      outbox = [], send_faults = []\<rparr>) Bench_mixed 3 2) = Some (Ok \<lparr>completed = 2, total_latency_nanos = 21\<rparr>)"
proof -
  let ?chunks = "[''+O'', ''K'' @ crlf @ ''$1'' @ crlf, ''v'' @ crlf]" and ?replies = "[SimpleString ''OK'', BulkString ''v'']"
  let ?r = "run_worker sample_limits (\<lambda>i. 10 + i) (Ok \<lparr>inbox = map Recv ?chunks, outbox = [], send_faults = []\<rparr>)
      Bench_mixed 3 (length ?replies)"
  have "list_all (encodable sample_limits) ?replies" "[] \<notin> set ?chunks" "concat ?chunks = concat (map encode_resp ?replies)"
    by code_simp+
  moreover have "\<forall>r \<in> set ?replies. \<nexists>m. r = Error m" by simp
  moreover have "?r = (fst ?r, snd ?r)" by simp
  ultimately have "fst ?r = Some (Ok \<lparr>completed = length ?replies, total_latency_nanos = (\<Sum>i \<leftarrow> [0..<length ?replies]. 10 + i)\<rparr>)"
    using worker_counts_requests [of sample_limits ?replies ?chunks] by blast
  then show ?thesis by (simp add: numeral_2_eq_2)
qed

section \<open>The mixed workload\<close>

text \<open>What the server makes of the requests of a worker of the mixed workload.\<close>

definition mixed_command :: "nat \<Rightarrow> nat \<Rightarrow> command" where
  "mixed_command i n =
     (if even n then Set (bench_key ''bench:mixed'' i n) (bench_value i n) None else Get (bench_key ''bench:mixed'' i (n - 1)))"

lemma mixed_command_meant: "command_of_args (bench_command_args Bench_mixed i n) = Ok (mixed_command i n)"
proof -
  have "utf8 ''bench:mixed''" "utf8 '':''" by code_simp+
  then have "utf8 (bench_key ''bench:mixed'' i n)" for n
    unfolding bench_key_def by (simp add: utf8_append del: append.simps utf8.simps)
  then show ?thesis
    by (auto simp: mixed_command_def bench_command_args_def set_args_def get_args_def command_of_args_def command_parser_def
        upper_literals readers_Ok command_parsers expect_arity_def Let_def simp del: utf8.simps)
qed

text \<open>
  An order in which the requests of the workers reach the store: each worker's requests are in sequence
  (it waits for each reply), those of different workers interleave at will.
\<close>

fun interleaved :: "(nat \<Rightarrow> nat) \<Rightarrow> (nat \<times> nat \<times> clock) list \<Rightarrow> bool" where
  "interleaved due [] \<longleftrightarrow> True"
| "interleaved due ((i, n, c) # rest) \<longleftrightarrow> n = due i \<and> interleaved (due(i := Suc n)) rest"

definition requests_of :: "(nat \<times> nat \<times> clock) list \<Rightarrow> (clock \<times> command) list" where
  "requests_of prog = map (\<lambda>(i, n, c). (c, mixed_command i n)) prog"

lemma visible_lasting: "expire_at e = None \<Longrightarrow> visible t m k = Some e \<longleftrightarrow> m k = Some e"
  by (cases "m k") (auto simp: visible_def fresh_def is_expired_def split: option.splits)

lemma mixed_set:
  assumes "db_wf db" "monotonic c"
  shows "reference_command c (Set k v None) db = (Ok (SimpleString ''OK''), snd (db_set c k v None db))"
    and "db_map (snd (db_set c k v None db)) k = Some (with_expire_at v None)"
    and "k' \<noteq> k \<Longrightarrow> expire_at e = None \<Longrightarrow> db_map db k' = Some e \<Longrightarrow> db_map (snd (db_set c k v None db)) k' = Some e"
proof -
  have seen: "visible (op_at c) (db_map (snd (db_set c k v None db))) = (visible (op_at c) (db_map db))(k \<mapsto> with_expire_at v None)"
    using db.set_visible [OF assms(1) monotonic_before [OF assms(2)], of k v None]
    by (simp add: representable_def deadline_def fresh_def is_expired_def with_expire_at_def)
  show "reference_command c (Set k v None) db = (Ok (SimpleString ''OK''), snd (db_set c k v None db))"
    using db.set_result [OF assms(1), of c k v None] by (simp add: answer_def case_prod_beta representable_def)
  have "expire_at (with_expire_at v None) = None" by (simp add: with_expire_at_def)
  with seen show "db_map (snd (db_set c k v None db)) k = Some (with_expire_at v None)"
    by (metis fun_upd_same visible_lasting)
  show "k' \<noteq> k \<Longrightarrow> expire_at e = None \<Longrightarrow> db_map db k' = Some e \<Longrightarrow> db_map (snd (db_set c k v None db)) k' = Some e"
    using seen by (metis fun_upd_other visible_lasting)
qed

lemma mixed_get:
  assumes "db_wf db" "monotonic c"
  shows "db_map db k = Some (with_expire_at v None) \<Longrightarrow>
      reference_command c (Get k) db = (Ok (BulkString v), snd (db_get c k db))"
    and "expire_at e = None \<Longrightarrow> db_map db k' = Some e \<Longrightarrow> db_map (snd (db_get c k db)) k' = Some e"
proof -
  have none: "expire_at (with_expire_at v None) = None" "evalue (with_expire_at v None) = v" by (simp_all add: with_expire_at_def)
  show "db_map db k = Some (with_expire_at v None) \<Longrightarrow>
      reference_command c (Get k) db = (Ok (BulkString v), snd (db_get c k db))"
    using db.get_result [OF assms(1), of c k] visible_lasting [OF none(1), of "check_at c k" "db_map db" k] none(2)
    by (simp add: answer_def case_prod_beta)
  show "expire_at e = None \<Longrightarrow> db_map db k' = Some e \<Longrightarrow> db_map (snd (db_get c k db)) k' = Some e"
    using db.get_visible [OF assms(1) monotonic_before [OF assms(2)], of k] by (metis visible_lasting)
qed

text \<open>
  C31: However the workers of the mixed workload interleave at the server, every request succeeds: each
  \<open>SET\<close> is accepted and each \<open>GET\<close> finds the value its worker wrote just before.
\<close>

theorem mixed_workload_reads_back:
  assumes "interleaved (\<lambda>_. 0) prog" "in_time t (requests_of prog)" "db_wf db"
  shows "(\<forall>(i, n, c) \<in> set prog. command_of_args (bench_command_args Bench_mixed i n) = Ok (mixed_command i n)) \<and>
    reference_run (requests_of prog) db =
      map (\<lambda>(i, n, c). Ok (if even n then SimpleString ''OK'' else BulkString (bench_value i (n - 1)))) prog"
proof -
  let ?held = "\<lambda>db i n. db_map db (bench_key ''bench:mixed'' i n) = Some (with_expire_at (bench_value i n) None)"
  have "reference_run (requests_of prog) db =
      map (\<lambda>(i, n, c). Ok (if even n then SimpleString ''OK'' else BulkString (bench_value i (n - 1)))) prog"
    if "interleaved due prog" "in_time t (requests_of prog)" "db_wf db" "\<forall>i. odd (due i) \<longrightarrow> ?held db i (due i - 1)"
    for due prog t db
    using that
  proof (induction prog arbitrary: due t db)
    case (Cons step prog)
    obtain i n c where step: "step = (i, n, c)" by (rule prod_cases3)
    have c: "monotonic c" "in_time (op_at c) (requests_of prog)" and due: "n = due i" "interleaved (due(i := Suc n)) prog"
      using Cons.prems(1,2) by (auto simp: step requests_of_def)
    have none: "expire_at (with_expire_at v None) = None" for v by (simp add: with_expire_at_def)
    show ?case
    proof (cases "even n")
      case True
      let ?db = "snd (db_set c (bench_key ''bench:mixed'' i n) (bench_value i n) None db)"
      have "\<forall>j. odd ((due(i := Suc n)) j) \<longrightarrow> ?held ?db j ((due(i := Suc n)) j - 1)"
        using Cons.prems(4) mixed_set(2,3) [OF Cons.prems(3) c(1)] none by (auto simp: bench_key_inject)
      from Cons.IH [OF due(2) c(2) db.wf_ops(1) [OF Cons.prems(3)] this] True
      show ?thesis
        using mixed_set(1) [OF Cons.prems(3) c(1)] by (simp add: step requests_of_def mixed_command_def del: reference_command.simps)
    next
      case False
      let ?db = "snd (db_get c (bench_key ''bench:mixed'' i (n - 1)) db)"
      have held: "?held db i (n - 1)" using Cons.prems(4) due(1) False by auto
      have "\<forall>j. odd ((due(i := Suc n)) j) \<longrightarrow> ?held ?db j ((due(i := Suc n)) j - 1)"
        using Cons.prems(4) mixed_get(2) [OF Cons.prems(3) c(1) none] False by auto
      from Cons.IH [OF due(2) c(2) db.wf_ops(2) [OF Cons.prems(3)] this] False
      show ?thesis
        using mixed_get(1) [OF Cons.prems(3) c(1) held] by (simp add: step requests_of_def mixed_command_def del: reference_command.simps)
    qed
  qed (simp add: requests_of_def)
  with assms mixed_command_meant show ?thesis by fastforce
qed

theorem mixed_workload_reads_back_witness:
  "reference_run (requests_of [(0, 0, clock_at 1 None 9), (1, 0, clock_at 1 None 9), (0, 1, clock_at 2 None 9)]) db_new =
     [Ok (SimpleString ''OK''), Ok (SimpleString ''OK''), Ok (BulkString ''value-0-0'')]"
proof -
  let ?prog = "[(0, 0, clock_at 1 None 9), (1, 0, clock_at 1 None 9), (0, 1, clock_at 2 None 9)] :: (nat \<times> nat \<times> clock) list"
  have "interleaved (\<lambda>_. 0) ?prog" by simp
  moreover have "in_time 1 (requests_of ?prog)" by (simp add: requests_of_def mixed_command_def since_def)
  moreover have "db_wf db_new" by (simp add: db_wf_def db_new_def hm.wf_empty)
  moreover have "bench_value 0 0 = ''value-0-0''" by code_simp
  ultimately show ?thesis using mixed_workload_reads_back [of ?prog 1 db_new] by simp
qed

end
