(* ===== verification/Bench_Report.thy ===== *)
theory Bench_Report
  imports "HOL-Library.Multiset" Bench Monitor_Screen
begin

text \<open>
  \<open>main\<close> of \<open>rustkv-bench/src/main.rs\<close>: the preparation, the workers, which \<open>join_next\<close> hands out in the
  order they finish, their totals and the figures that are printed. Every operation on \<open>f64\<close> is the exact one,
  rounded by \<open>rnd\<close>.
\<close>

definition bench_report :: "(real \<Rightarrow> real) \<Rightarrow> bench_args \<Rightarrow> worker_stats \<Rightarrow> duration \<Rightarrow> bytes list" where
  "bench_report rnd args totals elapsed =
     (let secs = as_secs_f64 rnd elapsed;
          elapsed_ms = rnd (secs * 1000);
          qps = (if 0 < secs then rnd (rnd (real (completed totals)) / secs) else 0);
          avg_latency_ms =
            (if 0 < completed totals
             then rnd (rnd (rnd (real (total_latency_nanos totals)) / rnd (real (completed totals))) / 1000000) else 0)
      in [''rustkv-bench result'', ''addr: '' @ ba_addr args, ''command: '' @ bench_as_str (ba_command args),
          ''clients: '' @ show_nat (client_count args), ''total_requests: '' @ show_nat (completed totals),
          ''total_elapsed_ms: '' @ format_fixed 2 elapsed_ms, ''avg_latency_ms: '' @ format_fixed 4 avg_latency_ms,
          ''qps: '' @ format_fixed 2 qps])"

text \<open>
  \<open>opened\<close> and \<open>latency\<close> give each worker's connection and its readings, \<open>order\<close> the order in which the workers
  finish; a worker without a result still waits for a response, and so does \<open>main\<close>, unless another fails.
\<close>

definition worker_results ::
  "limits \<Rightarrow> (nat \<Rightarrow> nat \<Rightarrow> duration) \<Rightarrow> (nat \<Rightarrow> (io_error, tcp) result) \<Rightarrow> bench_command \<Rightarrow> (nat \<times> nat) list \<Rightarrow>
    (client_error, worker_stats) result option list" where
  "worker_results lims latency opened command order =
     map (\<lambda>(client_id, request_count). fst (run_worker lims (latency client_id) (opened client_id) command client_id request_count)) order"

definition bench_main ::
  "limits \<Rightarrow> (real \<Rightarrow> real) \<Rightarrow> bench_args \<Rightarrow> (io_error, tcp) result \<Rightarrow> (nat \<Rightarrow> nat \<Rightarrow> duration) \<Rightarrow>
    (nat \<Rightarrow> (io_error, tcp) result) \<Rightarrow> (nat \<times> nat) list \<Rightarrow> bytes \<Rightarrow> duration \<Rightarrow> (client_error, bytes list) result option" where
  "bench_main lims rnd args prepare_opened latency opened order join_error elapsed =
     (case validate_args args of
        Err e \<Rightarrow> Some (Err e)
      | Panic \<Rightarrow> Some Panic
      | Ok _ \<Rightarrow>
          (case (if ba_command args = Bench_get
                 then fst (prepare_get_keys lims prepare_opened (ba_requests args) (client_count args)) else Some (Ok ())) of
             None \<Rightarrow> None
           | Some (Err e) \<Rightarrow> Some (Err e)
           | Some Panic \<Rightarrow> Some Panic
           | Some (Ok _) \<Rightarrow>
               (let results = worker_results lims latency opened (ba_command args) order
                in case aggregate_workers join_error (map the (filter (\<lambda>r. r \<noteq> None) results)) worker_stats_default of
                     Err e \<Rightarrow> Some (Err e)
                   | Panic \<Rightarrow> Some Panic
                   | Ok totals \<Rightarrow> if None \<in> set results then None else Some (Ok (bench_report rnd args totals elapsed)))))"

section \<open>The figures\<close>

lemma worker_loop_counts:
  "worker_loop lims latency command client_id is st cn = (Some (Ok st'), cn') \<Longrightarrow>
     completed st' = completed st + length is \<and> total_latency_nanos st' = total_latency_nanos st + sum_list (map latency is)"
  by (induction "is" arbitrary: st cn) (auto simp: Let_def split: prod.splits option.splits result.splits)

lemma run_worker_counts:
  "run_worker lims latency opened command client_id n = (Some (Ok st), cn) \<Longrightarrow>
     completed st = n \<and> total_latency_nanos st = sum_list (map latency [0..<n])"
  by (auto simp: run_worker_def worker_stats_default_def dest!: worker_loop_counts split: result.splits prod.splits)

lemma aggregate_sums:
  "aggregate_workers join_error rs totals = Ok totals' \<Longrightarrow>
     \<exists>sts. rs = map Ok sts \<and> completed totals' = completed totals + sum_list (map completed sts) \<and>
       total_latency_nanos totals' = total_latency_nanos totals + sum_list (map total_latency_nanos sts)"
proof (induction rs arbitrary: totals)
  case (Cons r rs)
  then obtain st where r: "r = Ok st" by (cases r) simp_all
  with Cons obtain sts where "rs = map Ok sts"
    "completed totals' = completed totals + completed st + sum_list (map completed sts)"
    "total_latency_nanos totals' = total_latency_nanos totals + total_latency_nanos st + sum_list (map total_latency_nanos sts)"
    by fastforce
  with r show ?case by (intro exI [of _ "st # sts"]) simp
qed simp

lemma aggregated_workers:
  assumes "aggregate_workers join_error (map the (filter (\<lambda>r. r \<noteq> None) (worker_results lims latency opened command order)))
      worker_stats_default = Ok totals"
    and "None \<notin> set (worker_results lims latency opened command order)"
  shows "completed totals = sum_list (map snd order) \<and>
    total_latency_nanos totals = (\<Sum>(i, n) \<leftarrow> order. \<Sum>s \<leftarrow> [0..<n]. latency i s)"
proof -
  let ?rs = "worker_results lims latency opened command order"
  have "filter (\<lambda>r. r \<noteq> None) ?rs = ?rs" using assms(2) by (intro filter_True) (metis not_None_eq)
  with assms(1) obtain sts where sts: "map the ?rs = map Ok sts"
    "completed totals = sum_list (map completed sts)" "total_latency_nanos totals = sum_list (map total_latency_nanos sts)"
    using aggregate_sums [of join_error "map the ?rs" worker_stats_default totals] by (auto simp: worker_stats_default_def)
  have "map completed sts = map snd order \<and> map total_latency_nanos sts = map (\<lambda>(i, n). \<Sum>s \<leftarrow> [0..<n]. latency i s) order"
    using sts(1) assms(2)
  proof (induction order arbitrary: sts)
    case Nil
    then show ?case by (simp add: worker_results_def)
  next
    case (Cons w order)
    obtain i n where w: "w = (i, n)" by (cases w)
    from Cons.prems(1) obtain st sts' where s: "sts = st # sts'"
      "the (fst (run_worker lims (latency i) (opened i) command i n)) = Ok st"
      "map the (worker_results lims latency opened command order) = map Ok sts'"
      by (cases sts) (auto simp: worker_results_def w)
    moreover have "fst (run_worker lims (latency i) (opened i) command i n) \<noteq> None"
      "None \<notin> set (worker_results lims latency opened command order)"
      using Cons.prems(2) by (auto simp: worker_results_def w)
    ultimately have "fst (run_worker lims (latency i) (opened i) command i n) = Some (Ok st)" by auto
    then have "run_worker lims (latency i) (opened i) command i n = (Some (Ok st), snd (run_worker lims (latency i) (opened i) command i n))"
      by (simp add: prod_eq_iff)
    from run_worker_counts [OF this] Cons.IH [OF s(3)] \<open>None \<notin> set (worker_results lims latency opened command order)\<close>
    show ?case by (simp add: s(1) w)
  qed
  with sts(2,3) show ?thesis by (metis (no_types, lifting))
qed

text \<open>
  C33: A benchmark that prints its result has done all it was asked to: in whatever order its workers
  finish, the number of requests it prints is the number that was requested, each of them answered without an
  error, and the latency it prints is the average over exactly these.
\<close>

theorem bench_reports_all_requests:
  assumes "mset order = mset (spawned args)"
    and "bench_main lims rnd args prepare_opened latency opened order join_error elapsed = Some (Ok report)"
  shows "report ! 4 = ''total_requests: '' @ show_nat (ba_requests args) \<and>
    report ! 6 = ''avg_latency_ms: '' @ format_fixed 4
      (rnd (rnd (rnd (real (\<Sum>(i, n) \<leftarrow> spawned args. \<Sum>s \<leftarrow> [0..<n]. latency i s)) / rnd (real (ba_requests args))) / 1000000)) \<and>
    (\<forall>(i, n) \<in> set (spawned args). \<exists>st. fst (run_worker lims (latency i) (opened i) (ba_command args) i n) = Some (Ok st) \<and>
       completed st = n)"
proof -
  let ?rs = "worker_results lims latency opened (ba_command args) order"
  have valid: "validate_args args = Ok ()"
    using assms(2) by (auto simp: bench_main_def split: result.splits)
  with assms(2) obtain totals where totals: "aggregate_workers join_error (map the (filter (\<lambda>r. r \<noteq> None) ?rs)) worker_stats_default = Ok totals"
    and running: "None \<notin> set ?rs" and report: "report = bench_report rnd args totals elapsed"
    by (auto simp: bench_main_def Let_def split: option.splits result.splits if_splits)
  have same: "sum_list (map f order) = sum_list (map f (spawned args))" for f :: "nat \<times> nat \<Rightarrow> nat"
    using assms(1) by (metis mset_map sum_mset_sum_list)
  have "sum_list (map snd (spawned args)) = ba_requests args" "0 < ba_requests args"
    using requests_divided_evenly [OF valid] valid by (auto simp: validate_args_def split: if_splits)
  with aggregated_workers [OF totals running] have sums: "completed totals = ba_requests args" "0 < completed totals"
    "total_latency_nanos totals = (\<Sum>(i, n) \<leftarrow> spawned args. \<Sum>s \<leftarrow> [0..<n]. latency i s)"
    using same [of snd] same [of "\<lambda>(i, n). \<Sum>s \<leftarrow> [0..<n]. latency i s"] by simp_all
  have "\<exists>st. fst (run_worker lims (latency i) (opened i) (ba_command args) i n) = Some (Ok st) \<and> completed st = n"
    if "(i, n) \<in> set (spawned args)" for i n
  proof -
    let ?r = "fst (run_worker lims (latency i) (opened i) (ba_command args) i n)"
    have "(i, n) \<in> set order" using that assms(1) by (metis set_mset_mset)
    then have "?r \<in> set ?rs" by (force simp: worker_results_def)
    moreover from this running have some: "?r \<noteq> None" by metis
    ultimately have "the ?r \<in> set (map the (filter (\<lambda>r. r \<noteq> None) ?rs))" by simp
    then obtain st where "the ?r = Ok st" using aggregate_sums [OF totals] by (metis (no_types, lifting) ex_map_conv)
    with some have st: "?r = Some (Ok st)" by auto
    then have "run_worker lims (latency i) (opened i) (ba_command args) i n =
        (Some (Ok st), snd (run_worker lims (latency i) (opened i) (ba_command args) i n))" by (simp add: prod_eq_iff)
    with run_worker_counts st show ?thesis by blast
  qed
  then show ?thesis using sums by (auto simp: report bench_report_def Let_def)
qed

theorem bench_reports_all_requests_witness:
  "(case bench_main sample_limits (\<lambda>x. x) \<lparr>ba_addr = ''a'', ba_requests = 2, ba_command = Bench_set, ba_clients = 2\<rparr>
      (Ok \<lparr>inbox = [], outbox = [], send_faults = []\<rparr>) (\<lambda>i s. 3) (\<lambda>i. Ok \<lparr>inbox = [Recv (''+OK'' @ crlf)], outbox = [], send_faults = []\<rparr>)
      [(1, 1), (0, 1)] [] (from_secs 1) of
     Some (Ok report) \<Rightarrow> report ! 4 = ''total_requests: 2'' | _ \<Rightarrow> False)"
proof -
  let ?args = "\<lparr>ba_addr = ''a'', ba_requests = 2, ba_command = Bench_set, ba_clients = 2\<rparr>"
  let ?opened = "\<lambda>i :: nat. (Ok \<lparr>inbox = [Recv (''+OK'' @ crlf)], outbox = [], send_faults = []\<rparr>) :: (io_error, tcp) result"
  let ?main = "bench_main sample_limits (\<lambda>x. x) ?args (Ok \<lparr>inbox = [], outbox = [], send_faults = []\<rparr>) (\<lambda>i s. 3) ?opened
      [(1, 1), (0, 1)] [] (from_secs 1)"
  have spawned: "spawned ?args = [(0, 1), (1, 1)]" by code_simp
  have "worker_results sample_limits (\<lambda>i s. 3) ?opened Bench_set [(1, 1), (0, 1)] =
      [Some (Ok \<lparr>completed = 1, total_latency_nanos = 3\<rparr>), Some (Ok \<lparr>completed = 1, total_latency_nanos = 3\<rparr>)]" by code_simp
  then have main: "?main = Some (Ok (bench_report (\<lambda>x. x) ?args \<lparr>completed = 2, total_latency_nanos = 6\<rparr> (from_secs 1)))"
    by (simp add: bench_main_def validate_args_def worker_stats_default_def numeral_2_eq_2)
  have "mset [(1, 1), (0, 1)] = mset (spawned ?args)" by (simp add: spawned)
  from bench_reports_all_requests [OF this main] have
    "bench_report (\<lambda>x. x) ?args \<lparr>completed = 2, total_latency_nanos = 6\<rparr> (from_secs 1) ! 4 = ''total_requests: '' @ show_nat 2" by simp
  moreover have "show_nat 2 = ''2''" by code_simp
  ultimately show ?thesis unfolding main by simp
qed

end
