(* ===== verification/End_To_End.thy ===== *)
theory End_To_End
  imports Server Cli
begin

text \<open>
  The one-shot client of \<open>rustkv-cli\<close> and the server of \<open>rustkv-server\<close>, joined by two byte streams that TCP may cut
  anywhere.
\<close>

text \<open>
  C9: Any subcommand of the client (but \<open>info\<close> and \<open>shell\<close>), run against a server whose store shows what a
  reference database does, prints exactly the reference interpreter's reply to the command it stands for:
  however the request is cut on its way and the reply on its way back, and with or without a log.
\<close>

theorem one_shot_end_to_end:
  assumes "cli_wf cmd" "cmd \<noteq> CliInfo" "into_args cmd = Ok args" "encodable lim (Array (map BulkString args))"
    and "both.alike h t (srv_db srv) db" "since t c" "monotonic c" "log_ready old srv"
    and "fst (reference_command c (command_meant cmd) db) = Ok reply" "encodable lim' reply"
    and "concat requests = encode_command args" "[] \<notin> set requests" "length (encode_command args) \<le> m"
    and "handle_client lim h ly json (events_of (srv_aof srv \<noteq> None) [(a, c, command_meant cmd)]) srv
      (client_new (sample_stream requests) m) = (srv', cl')"
    and "concat replies = sent cl'" "[] \<notin> set replies"
    and "run_one_shot lim' cmd (Ok (sample_stream replies)) = (printed, stream)"
  shows "printed = Some (Ok (format_resp_lines (frame_of reply) 0)) \<and>
    map_option outbox stream = Some (concat requests)"
proof -
  obtain args' where meant: "into_args cmd = Ok args'" "request_of cmd = Array (map BulkString args')"
    "command_of_args args' = Ok (command_meant cmd)" by (rule cli_args [OF assms(1)])
  then have same: "args' = args" using assms(3) by simp
  let ?steps = "[(a, c, command_meant cmd)]" and ?vs = "[Array (map BulkString args)]"
  let ?cl = "client_new (sample_stream requests) m"
  have "from_resp (frame_of (Array (map BulkString args))) = Ok (command_meant cmd)"
    using meant(3) by (simp only: bulk_request same)
  then have req: "list_all2 (is_request lim) ?vs ?steps" using assms(4) by (simp add: is_request_def del: frame_of.simps)
  have cl: "conn_buffer (conn ?cl) @ concat requests = concat (map encode_resp ?vs)" "phase ?cl = Reading" "sent ?cl = []"
    "inbox (conn_stream (conn ?cl)) = map Recv requests @ [Closed]" "send_faults (conn_stream (conn ?cl)) = []"
    "length (concat (map encode_resp ?vs)) \<le> conn_max_frame_size (conn ?cl)"
    using assms(11,13) by (simp_all add: client_new_def connection_new_def sample_stream_def encode_command_def del: encode_resp_simps)
  have "command_meant cmd \<noteq> Info" using assms(1,2) by (cases cmd) auto
  then have time: "in_time t (executions ?steps)" using assms(6,7) by (simp add: executions_def)
  have ref: "reference_run (executions ?steps) db = map Ok [reply]"
    using assms(9) by (simp add: executions_def case_prod_beta del: reference_command.simps)
  from session_steps [where ly = ly and json = json, OF req cl(1) assms(12) cl(4,6,2,5) assms(8) assms(5) time ref] assms(14)
  have sent: "sent cl' = encode_resp reply" by (auto simp: cl(3))
  have "concat replies = encode_resp reply @ []" using assms(15) sent by simp
  moreover have "inbox (sample_stream replies) = map Recv replies @ [Closed]" "send_faults (sample_stream replies) = []"
    by (simp_all add: sample_stream_def)
  ultimately obtain rs where "run_one_shot lim' cmd (Ok (sample_stream replies)) = (Some (Ok (format_resp_lines (frame_of reply) 0)),
      Some ((sample_stream replies)\<lparr>inbox := rs, outbox := outbox (sample_stream replies) @ encode_command args\<rparr>))"
    by (rule run_one_shot_prints [OF assms(3,10,16)])
  with assms(11,17) show ?thesis by (auto simp: sample_stream_def)
qed

theorem one_shot_end_to_end_witness:
  "fst (run_one_shot sample_limits (CliSet ''k'' ''v'' (Some 5) None) (Ok (sample_stream [''+O'', ''K'' @ crlf]))) =
     Some (Ok [''OK''])"
proof -
  let ?cmd = "CliSet ''k'' ''v'' (Some 5) None" and ?args = "[''SET'', ''k'', ''v'', ''EX'', ''5'']"
  let ?requests = "[take 9 (encode_command ?args), drop 9 (encode_command ?args)]"
  let ?r = "handle_client sample_limits length sample_layout sample_json
      (events_of (srv_aof sample_server \<noteq> None) [(at_sec 1, at_sec 1, command_meant ?cmd)]) sample_server
      (client_new (sample_stream ?requests) 100)"
  let ?p = "run_one_shot sample_limits ?cmd (Ok (sample_stream [''+O'', ''K'' @ crlf]))"
  have wf: "cli_wf ?cmd" "?cmd \<noteq> CliInfo" "into_args ?cmd = Ok ?args" "encodable sample_limits (Array (map BulkString ?args))"
    by code_simp+
  have store: "both.alike length 0 (srv_db sample_server) db_new" using new_alike by (simp add: sample_server_def)
  have time: "since 0 (at_sec 1)" "monotonic (at_sec 1)" "log_ready [] sample_server"
    by (simp_all add: since_def at_sec_def sample_server_def log_ready_def sample_engine_def)
  have ref: "fst (reference_command (at_sec 1) (command_meant ?cmd) db_new) = Ok (SimpleString ''OK'')"
    "encodable sample_limits (SimpleString ''OK'')" by code_simp+
  have req: "concat ?requests = encode_command ?args" "[] \<notin> set ?requests" "length (encode_command ?args) \<le> 100"
    by simp code_simp+
  have run: "?r = (fst ?r, snd ?r)" "?p = (fst ?p, snd ?p)" by simp_all
  have sent: "concat [''+O'', ''K'' @ crlf] = sent (snd ?r)" "[] \<notin> set [''+O'', ''K'' @ crlf]" by code_simp+
  from one_shot_end_to_end [OF wf store time ref req run(1) sent run(2)]
  show ?thesis by simp
qed

end
