(* ===== verification/Unit_Tests.thy ===== *)
theory Unit_Tests
  imports Server Shell Monitor
begin

text \<open>
  The unit tests of the repository, run on the model: those of \<open>rustkv-core/src/lib.rs\<close>,
  \<open>rustkv-protocol/src/parser.rs\<close>, \<open>rustkv-server/src/aof.rs\<close>, \<open>server.rs\<close> and \<open>rustkv-cli/src/tui.rs\<close>. A test is a truth
  value: the conjunction of its assertions, false when an \<open>unwrap\<close> panics. A sleep advances the clock of the
  operations that follow it; the hash function, where it is not fixed, and \<open>serde_json\<close> are arguments.
\<close>

section \<open>Running a test\<close>

definition unwrap_then :: "('d \<Rightarrow> ('e, 'a) result \<times> 'd) \<Rightarrow> ('a \<Rightarrow> 'd \<Rightarrow> bool) \<Rightarrow> 'd \<Rightarrow> bool" where
  "unwrap_then m f d = (case m d of (Ok x, d) \<Rightarrow> f x d | _ \<Rightarrow> False)"

definition awaited_then :: "('d \<Rightarrow> ('a db_outcome, 'd) op) \<Rightarrow> ('a \<Rightarrow> 'd \<Rightarrow> bool) \<Rightarrow> 'd \<Rightarrow> bool" where
  "awaited_then m = unwrap_then (\<lambda>d. flat (m d))"

text \<open>The clock \<open>n\<close> milliseconds into a test.\<close>

definition ms_in :: "nat \<Rightarrow> clock" where
  "ms_in n = clock_at (from_secs 7 + from_millis n) (Some (from_secs 1000 + from_millis n)) (from_secs 1000000)"

definition str_contains :: "bytes \<Rightarrow> bytes \<Rightarrow> bool" where
  "str_contains s p \<longleftrightarrow> list_ex (\<lambda>i. take (length p) (drop i s) = p) [0..<length s + 1]"

definition str_ends_with :: "bytes \<Rightarrow> bytes \<Rightarrow> bool" where
  "str_ends_with s p \<longleftrightarrow> length p \<le> length s \<and> drop (length s - length p) s = p"

section \<open>The protocol\<close>

definition parses_to :: "bytes \<Rightarrow> resp_frame \<Rightarrow> nat \<Rightarrow> bool" where
  "parses_to input v n \<longleftrightarrow> parse_resp sample_limits input = Ok (v, n)"

definition test_parse_simple_string :: bool where
  "test_parse_simple_string \<longleftrightarrow> (let input = ''+OK'' @ crlf in parses_to input (FSimpleString ''OK'') (length input))"

definition test_parse_integer :: bool where
  "test_parse_integer \<longleftrightarrow> (let input = '':-42'' @ crlf in parses_to input (FInteger (- 42)) (length input))"

definition test_parse_bulk_string :: bool where
  "test_parse_bulk_string \<longleftrightarrow> (let input = ''$5'' @ crlf @ ''hello'' @ crlf in parses_to input (FBulkString ''hello'') (length input))"

definition test_parse_null :: bool where
  "test_parse_null \<longleftrightarrow> (let input = ''$-1'' @ crlf in parses_to input FNull (length input))"

definition test_parse_array :: bool where
  "test_parse_array \<longleftrightarrow>
     (let input = ''*2'' @ crlf @ ''$4'' @ crlf @ ''PING'' @ crlf @ ''$4'' @ crlf @ ''PONG'' @ crlf
      in parses_to input (FArray [FBulkString ''PING'', FBulkString ''PONG'']) (length input))"

definition test_parse_nested_array :: bool where
  "test_parse_nested_array \<longleftrightarrow>
     (let input = ''*3'' @ crlf @ ''+OK'' @ crlf @ '':7'' @ crlf @ ''*2'' @ crlf @ ''$5'' @ crlf @ ''hello'' @ crlf @ ''$-1'' @ crlf
      in parses_to input (FArray [FSimpleString ''OK'', FInteger 7, FArray [FBulkString ''hello'', FNull]]) (length input))"

definition test_parse_incomplete_input :: bool where
  "test_parse_incomplete_input \<longleftrightarrow> parse_resp sample_limits (''$5'' @ crlf @ ''hel'') = Err Incomplete"

definition test_rejects_invalid_type_byte :: bool where
  "test_rejects_invalid_type_byte \<longleftrightarrow> parse_resp sample_limits (''?OK'' @ crlf) = Err (InvalidTypeByte (CHR ''?''))"

definition test_parse_invalid_input :: bool where
  "test_parse_invalid_input \<longleftrightarrow>
     (case parse_resp sample_limits (''*-2'' @ crlf) of
        Err (InvalidFormat message) \<Rightarrow> str_contains message ''array length'' | _ \<Rightarrow> False)"

definition test_rejects_invalid_integer :: bool where
  "test_rejects_invalid_integer \<longleftrightarrow> parse_resp sample_limits ('':abc'' @ crlf) = Err InvalidInteger"

definition test_rejects_invalid_utf8_simple_string :: bool where
  "test_rejects_invalid_utf8_simple_string \<longleftrightarrow> parse_resp sample_limits (''+'' @ [CHR 0xFF] @ crlf) = Err InvalidUtf8"

definition test_rejects_bulk_string_without_crlf_after_body :: bool where
  "test_rejects_bulk_string_without_crlf_after_body \<longleftrightarrow>
     (case parse_resp sample_limits (''$3'' @ crlf @ ''abcxx'') of Err (InvalidFormat message) \<Rightarrow> True | _ \<Rightarrow> False)"

definition test_returns_consumed_bytes_for_pipelined_input :: bool where
  "test_returns_consumed_bytes_for_pipelined_input \<longleftrightarrow> parses_to (''+OK'' @ crlf @ ''+NEXT'' @ crlf) (FSimpleString ''OK'') 5"

definition test_encode_simple_string :: bool where
  "test_encode_simple_string \<longleftrightarrow> encode_resp (SimpleString ''OK'') = ''+OK'' @ crlf"

definition test_encode_bulk_string :: bool where
  "test_encode_bulk_string \<longleftrightarrow> encode_resp (BulkString ''hello'') = ''$5'' @ crlf @ ''hello'' @ crlf"

definition test_encode_array :: bool where
  "test_encode_array \<longleftrightarrow>
     encode_resp (Array [BulkString ''PING'', Integer 1]) = ''*2'' @ crlf @ ''$4'' @ crlf @ ''PING'' @ crlf @ '':1'' @ crlf"

definition protocol_tests :: "bool list" where
  "protocol_tests = [test_parse_simple_string, test_parse_integer, test_parse_bulk_string, test_parse_null, test_parse_array,
     test_parse_nested_array, test_parse_incomplete_input, test_rejects_invalid_type_byte, test_parse_invalid_input,
     test_rejects_invalid_integer, test_rejects_invalid_utf8_simple_string, test_rejects_bulk_string_without_crlf_after_body,
     test_returns_consumed_bytes_for_pipelined_input, test_encode_simple_string, test_encode_bulk_string, test_encode_array]"

lemma protocol_tests_pass: "list_all (\<lambda>t. t) protocol_tests"
  by code_simp

section \<open>Commands\<close>

definition command_frame :: "bytes list \<Rightarrow> resp_frame" where
  "command_frame args = FArray (map FBulkString args)"

definition decodes_to :: "bytes list \<Rightarrow> command \<Rightarrow> bool" where
  "decodes_to args cmd \<longleftrightarrow> from_resp (command_frame args) = Ok cmd"

definition test_arrays_case_insensitively :: bool where
  "test_arrays_case_insensitively \<longleftrightarrow>
     decodes_to [''set'', ''name'', ''alice'', ''EX'', ''5''] (Set ''name'' ''alice'' (Some (from_secs 5))) \<and>
     decodes_to [''DeL'', ''a'', ''b''] (Del [''a'', ''b''])"

definition test_rejects_invalid_command_shapes :: bool where
  "test_rejects_invalid_command_shapes \<longleftrightarrow>
     (case from_resp (FInteger 1) of Err e \<Rightarrow> True | _ \<Rightarrow> False) \<and>
     (case from_resp (command_frame [''GET'']) of Err e \<Rightarrow> True | _ \<Rightarrow> False) \<and>
     decodes_to [''NOPE''] (Unknown ''NOPE'')"

definition test_handles_core_commands :: bool where
  "test_handles_core_commands \<longleftrightarrow>
     decodes_to [''PING''] Ping \<and> decodes_to [''GET'', ''k''] (Get ''k'') \<and>
     decodes_to [''EXPIRE'', ''k'', ''10''] (Expire ''k'' 10) \<and> decodes_to [''TTL'', ''k''] (Ttl ''k'') \<and>
     decodes_to [''SET'', ''k'', ''v'', ''PXAT'', ''123456789''] (SetPxAt ''k'' ''v'' 123456789) \<and>
     decodes_to [''EXPIREAT'', ''k'', ''123456789''] (ExpireAt ''k'' 123456789)"

definition test_command_from_resp_parses :: bool where
  "test_command_from_resp_parses \<longleftrightarrow>
     decodes_to [''PING''] Ping \<and> decodes_to [''SET'', ''course'', ''rust''] (Set ''course'' ''rust'' None) \<and>
     decodes_to [''GET'', ''course''] (Get ''course'') \<and> decodes_to [''DEL'', ''course'', ''token''] (Del [''course'', ''token'']) \<and>
     decodes_to [''EXPIRE'', ''token'', ''30''] (Expire ''token'' 30) \<and> decodes_to [''TTL'', ''token''] (Ttl ''token'')"

definition test_wrong_arity :: bool where
  "test_wrong_arity \<longleftrightarrow>
     (case from_resp (command_frame [''GET'']) of
        Err (InvalidCommand message) \<Rightarrow> str_contains message ''GET expects'' | _ \<Rightarrow> False) \<and>
     (case from_resp (command_frame [''SET'', ''only_key'']) of
        Err (InvalidCommand message) \<Rightarrow> str_contains message ''SET expects'' | _ \<Rightarrow> False)"

definition command_tests :: "bool list" where
  "command_tests = [test_arrays_case_insensitively, test_rejects_invalid_command_shapes, test_handles_core_commands,
     test_command_from_resp_parses, test_wrong_arity]"

lemma command_tests_pass: "list_all (\<lambda>t. t) command_tests"
  by code_simp

section \<open>The database\<close>

definition test_set_get_exists_del_and_flushdb :: bool where
  "test_set_get_exists_del_and_flushdb \<longleftrightarrow>
     (let c = ms_in 0 in
      unwrap_then (db_set c ''alpha'' ''one'' None) (\<lambda>_.
      unwrap_then (db_set c ''beta'' ''two'' None) (\<lambda>_ db. db_len db = 2 \<and>
      unwrap_then (db_get c ''alpha'') (\<lambda>v. if v \<noteq> Some ''one'' then (\<lambda>_. False) else
      unwrap_then (db_exists c ''beta'') (\<lambda>b. if \<not> b then (\<lambda>_. False) else
      unwrap_then (db_del c [''alpha'']) (\<lambda>n. if n \<noteq> 1 then (\<lambda>_. False) else
      unwrap_then (db_get c ''alpha'') (\<lambda>v db. v = None \<and> db_len db = 1 \<and>
      unwrap_then db_flushdb (\<lambda>_ db. db_is_empty db) db)))) db)) db_new)"

definition test_lazy_deletes_expired_keys :: bool where
  "test_lazy_deletes_expired_keys \<longleftrightarrow>
     unwrap_then (db_set (ms_in 0) ''temp'' ''value'' (Some (from_millis 10))) (\<lambda>_.
     unwrap_then (db_get (ms_in 25) ''temp'') (\<lambda>v db. v = None \<and> db_len db = 0 \<and>
     unwrap_then (db_set (ms_in 25) ''temp'' ''value'' (Some (from_millis 10))) (\<lambda>_.
     unwrap_then (db_exists (ms_in 50) ''temp'') (\<lambda>b db. \<not> b \<and> db_len db = 0 \<and>
     unwrap_then (db_set (ms_in 50) ''temp'' ''value'' (Some (from_millis 10))) (\<lambda>_.
     unwrap_then (db_ttl (ms_in 75) ''temp'') (\<lambda>t db. t = - 2 \<and> db_len db = 0)) db)) db)) db_new"

definition test_expire_ttl_keys_and_remove_expired :: bool where
  "test_expire_ttl_keys_and_remove_expired \<longleftrightarrow>
     (let c = ms_in 0 in
      unwrap_then (db_set c ''forever'' ''v'' None) (\<lambda>_.
      unwrap_then (db_set c ''soon'' ''v'' None) (\<lambda>_.
      unwrap_then (db_ttl c ''missing'') (\<lambda>t. if t \<noteq> - 2 then (\<lambda>_. False) else
      unwrap_then (db_ttl c ''forever'') (\<lambda>t. if t \<noteq> - 1 then (\<lambda>_. False) else
      unwrap_then (db_expire c ''soon'' 1) (\<lambda>b. if \<not> b then (\<lambda>_. False) else
      unwrap_then (db_ttl c ''soon'') (\<lambda>t db. 0 \<le> sint t \<and> sint t \<le> 1 \<and>
        db_keys c db = Ok [''forever'', ''soon''] \<and>
      unwrap_then (db_set c ''expired'' ''v'' (Some (from_millis 10))) (\<lambda>_ db.
        (let (removed, db) = db_remove_expired (ms_in 25) db in removed = 1 \<and>
      unwrap_then (db_exists (ms_in 25) ''expired'') (\<lambda>b _. \<not> b) db)) db)))))) db_new)"

definition test_database_all_operations :: bool where
  "test_database_all_operations \<longleftrightarrow>
     (let c = ms_in 0; later = ms_in 25 in
      unwrap_then (db_set c ''b'' ''two'' None) (\<lambda>_.
      unwrap_then (db_set c ''a'' ''one'' None) (\<lambda>_.
      unwrap_then (db_set c ''temp'' ''gone'' None) (\<lambda>_.
      unwrap_then (db_get c ''a'') (\<lambda>v. if v \<noteq> Some ''one'' then (\<lambda>_. False) else
      unwrap_then (db_exists c ''b'') (\<lambda>b db. b \<and> db_keys c db = Ok [''a'', ''b'', ''temp''] \<and>
      unwrap_then (db_del c [''b'']) (\<lambda>n. if n \<noteq> 1 then (\<lambda>_. False) else
      unwrap_then (db_exists c ''b'') (\<lambda>b. if b then (\<lambda>_. False) else
      unwrap_then (db_expire c ''temp'' 1) (\<lambda>b. if \<not> b then (\<lambda>_. False) else
      unwrap_then (db_ttl c ''temp'') (\<lambda>t. if sint t < 0 \<or> 1 < sint t then (\<lambda>_. False) else
      unwrap_then (db_set c ''lazy'' ''value'' (Some (from_millis 10))) (\<lambda>_.
      unwrap_then (db_get later ''lazy'') (\<lambda>v. if v \<noteq> None then (\<lambda>_. False) else
      unwrap_then (db_exists later ''lazy'') (\<lambda>b. if b then (\<lambda>_. False) else
      unwrap_then (db_ttl later ''lazy'') (\<lambda>t. if t \<noteq> - 2 then (\<lambda>_. False) else
      unwrap_then db_flushdb (\<lambda>_ db. db_is_empty db)))))))))  db))))) db_new)"

definition database_tests :: "bool list" where
  "database_tests = [test_set_get_exists_del_and_flushdb, test_lazy_deletes_expired_keys,
     test_expire_ttl_keys_and_remove_expired, test_database_all_operations]"

lemma database_tests_pass: "list_all (\<lambda>t. t) database_tests"
  by code_simp

section \<open>The sharded database\<close>

definition test_sharded_routes_keys_internally :: "hasher \<Rightarrow> bool" where
  "test_sharded_routes_keys_internally h \<longleftrightarrow>
     (let c = ms_in 0; db = sharded_new 4 in shard_count db = 4 \<and>
      awaited_then (sharded_set h c ''name'' ''rust'' None) (\<lambda>_.
      awaited_then (sharded_set h c ''course'' ''kv'' None) (\<lambda>_ db. sharded_len db = 2 \<and>
      awaited_then (sharded_get h c ''name'') (\<lambda>v db. v = Some ''rust'' \<and> sharded_keys c db = Ok [''course'', ''name''] \<and>
      awaited_then (sharded_del h c [''name'', ''missing'']) (\<lambda>removed db. removed = 1 \<and> sharded_len db = 1) db) db)) db)"

definition test_snapshot_exports_only_live_entries :: "hasher \<Rightarrow> bool" where
  "test_snapshot_exports_only_live_entries h \<longleftrightarrow>
     awaited_then (sharded_set h (ms_in 0) ''alive'' ''value'' None) (\<lambda>_.
     awaited_then (sharded_set h (ms_in 0) ''expired'' ''gone'' (Some (from_millis 10))) (\<lambda>_ db.
       (let (snapshot, db) = sharded_snapshot_entries (ms_in 25) db
        in snap_expired_count snapshot = 1 \<and> snap_key_count snapshot = 1 \<and> length (snap_entries snapshot) = 1 \<and>
           snap_key (snap_entries snapshot ! 0) = ''alive'' \<and> snap_value (snap_entries snapshot ! 0) = ''value'' \<and>
           snap_expire_at_ms (snap_entries snapshot ! 0) = None \<and> sharded_len db = 1))) (sharded_new 4)"

text \<open>\<open>unix_now_ms\<close> is read before and after the snapshot, a millisecond apart.\<close>

definition test_snapshot_converts_ttl_to_unix_ms :: "hasher \<Rightarrow> bool" where
  "test_snapshot_converts_ttl_to_unix_ms h \<longleftrightarrow>
     awaited_then (sharded_set h (ms_in 0) ''ttl'' ''value'' (Some (from_secs 5))) (\<lambda>_ db.
       (let before_snapshot_ms = current_unix_ms (ms_in 1); (snapshot, db) = sharded_snapshot_entries (ms_in 2) db;
            after_snapshot_ms = current_unix_ms (ms_in 3)
        in length (snap_entries snapshot) = 1 \<and>
           (case snap_expire_at_ms (snap_entries snapshot ! 0) of
              None \<Rightarrow> False
            | Some expire_at_ms \<Rightarrow> before_snapshot_ms \<le> expire_at_ms \<and> expire_at_ms \<le> after_snapshot_ms + 5000)))
       (sharded_new 4)"

definition sharded_tests :: "hasher \<Rightarrow> bool list" where
  "sharded_tests h = [test_sharded_routes_keys_internally h, test_snapshot_exports_only_live_entries h,
     test_snapshot_converts_ttl_to_unix_ms h]"

lemma sharded_tests_pass: "list_all (\<lambda>t. t) (sharded_tests length)"
  by code_simp

section \<open>The append-only file\<close>

definition expect_then :: "'a io \<Rightarrow> ('a \<Rightarrow> disk \<Rightarrow> bool) \<Rightarrow> disk \<Rightarrow> bool" where
  "expect_then m f d = (case m d of (Ok x, d) \<Rightarrow> f x d | _ \<Rightarrow> False)"

definition replayed_store :: "hasher \<Rightarrow> clock \<Rightarrow> path \<Rightarrow> (sharded \<Rightarrow> bool) \<Rightarrow> disk \<Rightarrow> bool" where
  "replayed_store h c p f d =
     (case load_and_replay sample_limits h (\<lambda>_. c) p d (sharded_new default_shard_count) of
        ((Ok _, db), d) \<Rightarrow> f db | _ \<Rightarrow> False)"

function resp_frame_count :: "bytes \<Rightarrow> nat option" where
  "resp_frame_count bytes =
     (if bytes = [] then Some 0
      else case parse_resp sample_limits bytes of
             Ok (frame, consumed) \<Rightarrow> map_option Suc (resp_frame_count (drop consumed bytes))
           | _ \<Rightarrow> None)"
  by pat_completeness auto
termination
  by (relation "measure length") (auto dest!: resp.consumes)

declare resp_frame_count.simps [simp del]

definition test_replay_keeps_remaining_ttl :: "hasher \<Rightarrow> path \<Rightarrow> bool" where
  "test_replay_keeps_remaining_ttl h p \<longleftrightarrow>
     expect_then (aof_new p) (\<lambda>aof.
     expect_then (aof_append (ms_in 0) (Set ''ttl-key'' ''value'' (Some (from_secs 3))) aof) (\<lambda>_.
     replayed_store h (ms_in 1100) p (\<lambda>db.
     awaited_then (sharded_ttl h (ms_in 1100) ''ttl-key'') (\<lambda>ttl _. 1 \<le> sint ttl \<and> sint ttl < 3) db))) (disk_at Map.empty [])"

definition test_replay_does_not_restore_expired :: "hasher \<Rightarrow> path \<Rightarrow> bool" where
  "test_replay_does_not_restore_expired h p \<longleftrightarrow>
     expect_then (aof_new p) (\<lambda>aof.
     expect_then (aof_append (ms_in 0) (Set ''expired'' ''value'' (Some (from_secs 1))) aof) (\<lambda>_.
     replayed_store h (ms_in 1500) p (\<lambda>db.
     awaited_then (sharded_get h (ms_in 1500) ''expired'') (\<lambda>v _. v = None) db))) (disk_at Map.empty [])"

definition test_rewrite_replaces_history :: "hasher \<Rightarrow> path \<Rightarrow> bool" where
  "test_rewrite_replaces_history h p \<longleftrightarrow>
     (let snapshot = \<lparr>snap_entries = [\<lparr>snap_key = ''name'', snap_value = ''new'', snap_expire_at_ms = None\<rparr>],
            snap_key_count = 1, snap_expired_count = 0\<rparr>
      in expect_then (aof_new p) (\<lambda>aof.
         expect_then (aof_append (ms_in 0) (Set ''name'' ''old'' None) aof) (\<lambda>_.
         expect_then (aof_append (ms_in 0) (Set ''name'' ''new'' None) aof) (\<lambda>_ d.
           (case aof_rewrite (ms_in 0) snapshot aof d of
              ((Ok _, aof), d) \<Rightarrow>
                (case files d p of
                   None \<Rightarrow> False
                 | Some bytes \<Rightarrow> resp_frame_count bytes = Some 1) \<and>
                replayed_store h (ms_in 0) p (\<lambda>db.
                awaited_then (sharded_get h (ms_in 0) ''name'') (\<lambda>v _. v = Some ''new'') db) d
            | _ \<Rightarrow> False)))) (disk_at Map.empty []))"

definition test_rewrite_preserves_absolute_ttl :: "hasher \<Rightarrow> path \<Rightarrow> bool" where
  "test_rewrite_preserves_absolute_ttl h p \<longleftrightarrow>
     (let snapshot = \<lparr>snap_entries = [\<lparr>snap_key = ''ttl-key'', snap_value = ''value'',
              snap_expire_at_ms = Some (expire_at_ms_from_now (ms_in 0) (from_secs 5))\<rparr>],
            snap_key_count = 1, snap_expired_count = 0\<rparr>
      in expect_then (aof_new p) (\<lambda>aof d.
           (case aof_rewrite (ms_in 0) snapshot aof d of
              ((Ok _, aof), d) \<Rightarrow>
                replayed_store h (ms_in 0) p (\<lambda>db.
                awaited_then (sharded_ttl h (ms_in 0) ''ttl-key'') (\<lambda>ttl _. 1 \<le> sint ttl \<and> sint ttl \<le> 5) db) d
            | _ \<Rightarrow> False)) (disk_at Map.empty []))"

definition aof_tests :: "hasher \<Rightarrow> path \<Rightarrow> bool list" where
  "aof_tests h p = [test_replay_keeps_remaining_ttl h p, test_replay_does_not_restore_expired h p,
     test_rewrite_replaces_history h p, test_rewrite_preserves_absolute_ttl h p]"

lemma aof_tests_pass: "list_all (\<lambda>t. t) (aof_tests length sample_path)"
  by code_simp

section \<open>The configuration and the shell\<close>

definition test_default_config :: bool where
  "test_default_config \<longleftrightarrow>
     cfg_addr default_config = ''127.0.0.1:6379'' \<and> cfg_aof_path default_config = None \<and>
     cfg_max_frame_size default_config = 1024 * 1024 \<and> cfg_ttl_interval default_config = from_millis 1000 \<and>
     cfg_shard_count default_config = default_shard_count"

definition invalid_input :: "server_config \<Rightarrow> bool" where
  "invalid_input cfg \<longleftrightarrow> (case validate cfg of Err e \<Rightarrow> io_kind e = InvalidInput | _ \<Rightarrow> False)"

definition test_config_rejects_zero_limits :: bool where
  "test_config_rejects_zero_limits \<longleftrightarrow>
     invalid_input (default_config\<lparr>cfg_max_frame_size := 0\<rparr>) \<and> invalid_input (default_config\<lparr>cfg_ttl_interval := from_millis 0\<rparr>) \<and>
     invalid_input (default_config\<lparr>cfg_shard_count := 0\<rparr>)"

definition quoted :: "bytes \<Rightarrow> bytes" where
  "quoted s = [CHR 0x22] @ s @ [CHR 0x22]"

definition test_history_keeps_latest_response :: bool where
  "test_history_keeps_latest_response \<longleftrightarrow>
     (let app = shell_app_new ''127.0.0.1:6379'';
          app = push_response (''{'' @ quoted ''server_version'' @ '':'' @ quoted ''0.1.0'' @ '','' @ quoted ''total_commands'' @ '':1,'' @
            quoted ''connected_clients'' @ '':1}'') app;
          app = push_response ''PONG'' app;
          text_shown = visible_history_text 16 3 app
      in str_ends_with text_shown ''< PONG'' \<and> length (str_lines text_shown) \<le> 3)"

definition test_del_with_one_key :: bool where
  "test_del_with_one_key \<longleftrightarrow> parse_shell_input ''del name'' = Ok (Send_args [''del'', ''name''])"

definition program_tests :: "bool list" where
  "program_tests = [test_default_config, test_config_rejects_zero_limits, test_history_keeps_latest_response, test_del_with_one_key]"

lemma program_tests_pass: "list_all (\<lambda>t. t) program_tests"
  by code_simp

section \<open>Statistics through \<open>serde_json\<close>\<close>

text \<open>\<open>value["name"]\<close>, compared with a number, a text or a truth value.\<close>

definition value_u64 :: "'v json_reader \<Rightarrow> 'v \<Rightarrow> bytes \<Rightarrow> u64 option" where
  "value_u64 jr v name = Option.bind (get_field jr v name) (as_u64 jr)"

definition value_str :: "'v json_reader \<Rightarrow> 'v \<Rightarrow> bytes \<Rightarrow> bytes option" where
  "value_str jr v name = Option.bind (get_field jr v name) (as_str jr)"

definition value_bool :: "'v json_reader \<Rightarrow> 'v \<Rightarrow> bytes \<Rightarrow> bool option" where
  "value_bool jr v name = Option.bind (get_field jr v name) (as_bool jr)"

definition is_nonempty :: "bytes option \<Rightarrow> bool" where
  "is_nonempty x \<longleftrightarrow> (case x of None \<Rightarrow> False | Some s \<Rightarrow> s \<noteq> [])"

definition test_stats_serializes :: "json \<Rightarrow> 'v json_reader \<Rightarrow> bool" where
  "test_stats_serializes json jr \<longleftrightarrow>
     (let stats = set_key_count 3 (incr_get_count (incr_total_commands (stats_new (from_secs 7))))
      in case fst (to_json_string json (from_secs 7) stats) of
           Ok json_text \<Rightarrow>
             (case from_slice jr json_text of
                Ok v \<Rightarrow>
                  value_u64 jr v ''total_commands'' = Some 1 \<and> value_u64 jr v ''get_count'' = Some 1 \<and>
                  value_u64 jr v ''key_count'' = Some 3 \<and> value_str jr v ''role'' = Some ''standalone'' \<and>
                  value_bool jr v ''aof_enabled'' = Some False \<and> value_str jr v ''addr'' = Some ''unknown'' \<and>
                  is_nonempty (value_str jr v ''server_version'') \<and> value_u64 jr v ''uptime_seconds'' \<noteq> None \<and>
                  value_u64 jr v ''memory_estimate_bytes'' \<noteq> None \<and> value_u64 jr v ''max_frame_size'' \<noteq> None
              | _ \<Rightarrow> False)
         | _ \<Rightarrow> False)"

definition test_executor_runs_commands :: "hasher \<Rightarrow> layout \<Rightarrow> json \<Rightarrow> 'v json_reader \<Rightarrow> bool" where
  "test_executor_runs_commands h ly json jr \<longleftrightarrow>
     (let c = ms_in 0; db = sharded_new default_shard_count; stats = stats_new (from_secs 7);
          (response, db, stats) = execute_command h ly json c (Set ''lang'' ''rust'' None) db stats
      in response = Ok (SimpleString ''OK'') \<and>
         (let (response, db, stats) = execute_command h ly json c (Get ''lang'') db stats
          in response = Ok (BulkString ''rust'') \<and>
             (let (response, db, stats) = execute_command h ly json c Info db stats
              in case response of
                   Ok (BulkString bytes) \<Rightarrow>
                     (case from_slice jr bytes of
                        Ok v \<Rightarrow>
                          is_nonempty (value_str jr v ''server_version'') \<and> value_str jr v ''role'' = Some ''standalone'' \<and>
                          value_bool jr v ''aof_enabled'' = Some False \<and> value_str jr v ''addr'' = Some ''unknown'' \<and>
                          value_u64 jr v ''max_frame_size'' = Some 0 \<and> value_u64 jr v ''total_commands'' = Some 2 \<and>
                          value_u64 jr v ''set_count'' = Some 1 \<and> value_u64 jr v ''get_count'' = Some 1 \<and>
                          value_u64 jr v ''key_count'' = Some 1 \<and>
                          (case value_u64 jr v ''memory_estimate_bytes'' of None \<Rightarrow> False | Some n \<Rightarrow> 0 < n)
                      | _ \<Rightarrow> False)
                 | _ \<Rightarrow> False)))"

definition test_info_does_not_count :: "hasher \<Rightarrow> layout \<Rightarrow> json \<Rightarrow> 'v json_reader \<Rightarrow> bool" where
  "test_info_does_not_count h ly json jr \<longleftrightarrow>
     (let c = ms_in 0; db = sharded_new default_shard_count; stats = stats_new (from_secs 7);
          (response, db, stats) = execute_command h ly json c Info db stats
      in (case response of Ok (BulkString b) \<Rightarrow> True | _ \<Rightarrow> False) \<and>
         (let (response, db, stats) = execute_command h ly json c Info db stats
          in case response of
               Ok (BulkString bytes) \<Rightarrow>
                 (case from_slice jr bytes of Ok v \<Rightarrow> value_u64 jr v ''total_commands'' = Some 0 | _ \<Rightarrow> False)
             | _ \<Rightarrow> False))"

definition serde_tests :: "hasher \<Rightarrow> layout \<Rightarrow> json \<Rightarrow> 'v json_reader \<Rightarrow> bool list" where
  "serde_tests h ly json jr =
     [test_stats_serializes json jr, test_executor_runs_commands h ly json jr, test_info_does_not_count h ly json jr]"

text \<open>What is asked of \<open>serde_json\<close>: it writes every snapshot, and reads back what it has written.\<close>

definition serde_works :: "json \<Rightarrow> 'v json_reader \<Rightarrow> bool" where
  "serde_works json jr \<longleftrightarrow> serde_contract json jr \<and> (\<forall>snap. \<exists>written. json snap = Ok written)"

lemma serde_reads:
  assumes "serde_works json jr"
  obtains written v where "json snap = Ok written" "from_slice jr written = Ok v"
    "list_all (\<lambda>(name, f). value_u64 jr v name = Some (f snap)) number_members"
    "list_all (\<lambda>(name, f). value_str jr v name = Some (f snap)) text_members"
    "value_bool jr v ''aof_enabled'' = Some (snapshot_aof_enabled snap)"
  using assms unfolding serde_works_def serde_contract_def value_u64_def value_str_def value_bool_def by metis

lemma stats_test_passes:
  assumes "serde_works json jr"
  shows "test_stats_serializes json jr"
proof -
  let ?stats = "set_key_count 3 (incr_get_count (incr_total_commands (stats_new (from_secs 7))))"
  let ?snap = "fst (stats_snapshot_at (from_secs 7) ?stats)"
  obtain written v where v: "json ?snap = Ok written" "from_slice jr written = Ok v"
    "list_all (\<lambda>(name, f). value_u64 jr v name = Some (f ?snap)) number_members"
    "list_all (\<lambda>(name, f). value_str jr v name = Some (f ?snap)) text_members"
    "value_bool jr v ''aof_enabled'' = Some (snapshot_aof_enabled ?snap)"
    by (rule serde_reads [OF assms])
  have "fst (to_json_string json (from_secs 7) ?stats) = Ok written"
    using v(1) by (simp add: to_json_string_def case_prod_beta)
  then show ?thesis
    using v(2-5) unfolding test_stats_serializes_def Let_def
    by (simp add: number_members_def text_members_def is_nonempty_def stats_snapshot_at_def Let_def
        set_key_count_def incr_get_count_def incr_total_commands_def stats_new_def u64_of_def)
qed

text \<open>A sweep of a store in which nothing has a deadline.\<close>

definition nothing_expires :: "sharded \<Rightarrow> bool" where
  "nothing_expires sd \<longleftrightarrow> list_all (\<lambda>db. list_all (\<lambda>(key, entry). expire_at entry = None) (data db)) (shards sd)"

lemma sweep_shard_idle:
  assumes "nothing_expires sd" "i < length (shards sd)"
  shows "sweep_shard c i sd = (0, sd)"
proof -
  have "list_all (\<lambda>(key, entry). expire_at entry = None) (data (shards sd ! i))"
    using assms by (auto simp: nothing_expires_def list_all_length)
  then have "hm_retain (\<lambda>key entry. \<not> is_expired entry (sweep_at c key)) (data (shards sd ! i)) = data (shards sd ! i)"
    by (auto simp: hm_retain_def list_all_iff intro!: filter_True)
  then show ?thesis
    by (simp add: sweep_shard_def db_remove_expired_def apply_len_change_def put_shard_def)
qed

lemma info_loop_idle:
  assumes "nothing_expires sd" "\<forall>i \<in> set is. i < length (shards sd)"
  shows "info_loop ly c is x m sd = (x, m + sum_list (map (\<lambda>i. db_memory_estimate_bytes ly (shards sd ! i)) is), sd)"
  using assms(2)
  by (induction "is" arbitrary: m) (simp_all add: sweep_shard_idle [OF assms(1)] ac_simps)

lemma info_snapshot_idle:
  assumes "nothing_expires sd"
  shows "sharded_info_snapshot ly c sd =
    (\<lparr>info_key_count = sharded_len sd, info_memory_estimate_bytes = sum_list (map (db_memory_estimate_bytes ly) (shards sd)),
      info_expired_count = 0\<rparr>, sd)"
proof -
  have "map (\<lambda>i. db_memory_estimate_bytes ly (shards sd ! i)) [0..<length (shards sd)] = map (db_memory_estimate_bytes ly) (shards sd)"
    by (rule nth_equalityI) simp_all
  then show ?thesis by (simp add: sharded_info_snapshot_def info_loop_idle [OF assms])
qed

text \<open>What \<open>INFO\<close> has counted when it asks for the snapshot, and the snapshot it asks to serialise.\<close>

definition info_counted :: "layout \<Rightarrow> clock \<Rightarrow> sharded \<Rightarrow> server_stats \<Rightarrow> server_stats" where
  "info_counted ly c sd st =
     (let snapshot = fst (sharded_info_snapshot ly c sd)
      in incr_expired_keys_by (info_expired_count snapshot)
           (set_memory_estimate_bytes (info_memory_estimate_bytes snapshot) (set_key_count (info_key_count snapshot) st)))"

definition info_serialised :: "layout \<Rightarrow> clock \<Rightarrow> sharded \<Rightarrow> server_stats \<Rightarrow> stats_snapshot" where
  "info_serialised ly c sd st = fst (stats_snapshot_at (op_at c) (info_counted ly c sd st))"

lemma info_counted_figures [simp]:
  "total_commands (info_counted ly c sd st) = total_commands st" "set_count (info_counted ly c sd st) = set_count st"
  "get_count (info_counted ly c sd st) = get_count st" "max_frame_size (info_counted ly c sd st) = max_frame_size st"
  "role (info_counted ly c sd st) = role st" "addr (info_counted ly c sd st) = addr st"
  "aof_enabled (info_counted ly c sd st) = aof_enabled st" "server_version (info_counted ly c sd st) = server_version st"
  "stat_key_count (info_counted ly c sd st) = u64_of (info_key_count (fst (sharded_info_snapshot ly c sd)))"
  "memory_estimate_bytes (info_counted ly c sd st) = u64_of (info_memory_estimate_bytes (fst (sharded_info_snapshot ly c sd)))"
  by (simp_all add: info_counted_def Let_def stats_updates)

lemma info_serialised_figures:
  "snapshot_total_commands (info_serialised ly c sd st) = total_commands st"
  "snapshot_set_count (info_serialised ly c sd st) = set_count st"
  "snapshot_get_count (info_serialised ly c sd st) = get_count st"
  "snapshot_max_frame_size (info_serialised ly c sd st) = max_frame_size st"
  "snapshot_role (info_serialised ly c sd st) = role st" "snapshot_addr (info_serialised ly c sd st) = addr st"
  "snapshot_aof_enabled (info_serialised ly c sd st) = aof_enabled st"
  "snapshot_server_version (info_serialised ly c sd st) = server_version st"
  "snapshot_key_count (info_serialised ly c sd st) = u64_of (info_key_count (fst (sharded_info_snapshot ly c sd)))"
  "snapshot_memory_estimate_bytes (info_serialised ly c sd st) =
     u64_of (info_memory_estimate_bytes (fst (sharded_info_snapshot ly c sd)))"
  by (simp_all add: info_serialised_def stats_snapshot_at_def Let_def)

lemma execute_info:
  assumes "json (info_serialised ly c sd st) = Ok written"
  shows "execute_command h ly json c Info sd st =
    (Ok (BulkString written), snd (sharded_info_snapshot ly c sd), snd (stats_snapshot_at (op_at c) (info_counted ly c sd st)))"
  using assms
  by (simp add: execute_command_def info_serialised_def info_counted_def to_json_string_def case_prod_beta Let_def
      bulk_response_def)

lemma execute_ignores_json:
  assumes "cmd \<noteq> Info"
  shows "execute_command h ly json c cmd sd st = execute_command h ly json' c cmd sd st"
  using assms by (cases cmd) (simp_all add: execute_command_def)

lemma executor_test_passes:
  assumes works: "serde_works json jr"
  shows "test_executor_runs_commands length sample_layout json jr"
proof -
  let ?c = "ms_in 0"
  let ?x = "\<lambda>cmd. execute_command length sample_layout sample_json ?c cmd"
  let ?set = "?x (Set ''lang'' ''rust'' None) (sharded_new default_shard_count) (stats_new (from_secs 7))"
  let ?get = "?x (Get ''lang'') (fst (snd ?set)) (snd (snd ?set))"
  let ?snap = "info_serialised sample_layout ?c (fst (snd ?get)) (snd (snd ?get))"
  define db1 st1 db2 st2 snap where defs: "db1 = fst (snd ?set)" "st1 = snd (snd ?set)" "db2 = fst (snd ?get)"
    "st2 = snd (snd ?get)" "snap = ?snap"
  have "fst ?set = Ok (SimpleString ''OK'')" "fst ?get = Ok (BulkString ''rust'')" by code_simp+
  then have runs: "?set = (Ok (SimpleString ''OK''), db1, st1)"
    "?x (Get ''lang'') db1 st1 = (Ok (BulkString ''rust''), db2, st2)"
    unfolding defs by (simp_all only: prod_eq_iff fst_conv snd_conv)
  have counted: "total_commands st2 = 2" "set_count st2 = 1" "get_count st2 = 1" "max_frame_size st2 = 0"
    "role st2 = ''standalone''" "addr st2 = ''unknown''" "\<not> aof_enabled st2" "server_version st2 \<noteq> []"
    "nothing_expires db2" "sharded_len db2 = 1" "sum_list (map (db_memory_estimate_bytes sample_layout) (shards db2)) = 72"
    unfolding defs by code_simp+
  note info_figures = info_snapshot_idle [OF counted(9)] counted
  note snap_figures = defs(5) [folded defs(3,4)] info_serialised_figures
  have figures: "snapshot_total_commands snap = 2" "snapshot_set_count snap = 1" "snapshot_get_count snap = 1"
    "snapshot_key_count snap = 1" "snapshot_max_frame_size snap = 0" "0 < snapshot_memory_estimate_bytes snap"
    "snapshot_role snap = ''standalone''" "snapshot_addr snap = ''unknown''" "\<not> snapshot_aof_enabled snap"
    "snapshot_server_version snap \<noteq> []"
    by (simp_all add: snap_figures info_figures u64_of_def)
  obtain written v where v: "json snap = Ok written" "from_slice jr written = Ok v"
    "list_all (\<lambda>(name, f). value_u64 jr v name = Some (f snap)) number_members"
    "list_all (\<lambda>(name, f). value_str jr v name = Some (f snap)) text_members"
    "value_bool jr v ''aof_enabled'' = Some (snapshot_aof_enabled snap)"
    by (rule serde_reads [OF works])
  have "json (info_serialised sample_layout ?c db2 st2) = Ok written" using v(1) by (simp only: defs)
  note info = execute_info [where json = json, OF this]
  note same = execute_ignores_json [where json = json and json' = sample_json]
  have runs': "execute_command length sample_layout json ?c (Set ''lang'' ''rust'' None) (sharded_new default_shard_count)
      (stats_new (from_secs 7)) = (Ok (SimpleString ''OK''), db1, st1)"
    "execute_command length sample_layout json ?c (Get ''lang'') db1 st1 = (Ok (BulkString ''rust''), db2, st2)"
    using runs same by (metis command.distinct)+
  have members: "value_u64 jr v ''total_commands'' = Some 2" "value_u64 jr v ''set_count'' = Some 1"
    "value_u64 jr v ''get_count'' = Some 1" "value_u64 jr v ''key_count'' = Some 1" "value_u64 jr v ''max_frame_size'' = Some 0"
    "value_u64 jr v ''memory_estimate_bytes'' = Some (snapshot_memory_estimate_bytes snap)"
    "value_str jr v ''server_version'' = Some (snapshot_server_version snap)" "value_str jr v ''role'' = Some ''standalone''"
    "value_str jr v ''addr'' = Some ''unknown''" "value_bool jr v ''aof_enabled'' = Some False"
    using v(3-5) figures by (simp_all add: number_members_def text_members_def)
  show ?thesis
    unfolding test_executor_runs_commands_def Let_def runs' info prod.case result.case resp_value.case v(2) members
    using figures(6,10) by (simp add: is_nonempty_def)
qed

lemma info_test_passes:
  assumes works: "serde_works json jr"
  shows "test_info_does_not_count length sample_layout json jr"
proof -
  let ?c = "ms_in 0"
  let ?db = "sharded_new default_shard_count" and ?stats = "stats_new (from_secs 7)"
  define db1 where "db1 = snd (sharded_info_snapshot sample_layout ?c ?db)"
  define st1 where "st1 = snd (stats_snapshot_at (op_at ?c) (info_counted sample_layout ?c ?db ?stats))"
  define snap where "snap = info_serialised sample_layout ?c db1 st1"
  have figure: "snapshot_total_commands snap = 0"
    unfolding snap_def st1_def
    by (simp add: info_serialised_figures stats_snapshot_at_def Let_def stats_new_def)
  obtain written1 where one: "json (info_serialised sample_layout ?c ?db ?stats) = Ok written1"
    using works unfolding serde_works_def by blast
  obtain written v where v: "json snap = Ok written" "from_slice jr written = Ok v"
    "list_all (\<lambda>(name, f). value_u64 jr v name = Some (f snap)) number_members"
    by (rule serde_reads [OF works])
  have member: "value_u64 jr v ''total_commands'' = Some 0" using v(3) figure by (simp add: number_members_def)
  show ?thesis
    unfolding test_info_does_not_count_def Let_def execute_info [where json = json, OF one] prod.case result.case resp_value.case
      db1_def [symmetric] st1_def [symmetric] execute_info [where json = json, OF v(1) [unfolded snap_def]] v(2) member
    by simp
qed

lemma serde_tests_pass:
  assumes "serde_works json jr"
  shows "list_all (\<lambda>t. t) (serde_tests length sample_layout json jr)"
  using assms by (simp add: serde_tests_def stats_test_passes executor_test_passes info_test_passes)

end
