(* ===== verification/Spec2Isabelle.thy ===== *)
theory Spec2Isabelle
  imports Restart Shell_Screen Bench_Report End_To_End Unit_Tests
begin

text \<open>
  rustkv: an in-memory key-value server with expiring keys and an append-only file, speaking RESP over TCP,
  with a command-line client, an interactive shell, a monitor and a benchmark. Every path below is
  relative to \<open>src/crates/\<close>.

  \<^bold>\<open>Parts and how they meet.\<close> Bytes arrive on a connection (\<open>Connection\<close>), which cuts them into frames with the
  parser of the protocol crate (\<open>Parser\<close>). A frame is decoded into a command (\<open>Command\<close>). The task of the
  client (\<open>Server\<close>) appends a writing command to the log (\<open>Aof\<close>) and then executes it (\<open>Executor\<close>) on the
  sharded store (\<open>Sharded\<close>, \<open>Database\<close>, \<open>Entry\<close>) and the statistics (\<open>Stats\<close>), all under the lock of the
  log; the reply is encoded (\<open>Resp\<close>) and sent. The TTL worker sweeps the store, the rewrite worker replaces the
  log by a snapshot of the store, and a start replays the log; a shutdown flag ends them all (\<open>Lifecycle\<close>). The
  clients (\<open>Cli\<close>, \<open>Shell\<close>, \<open>Bench\<close>, \<open>Monitor\<close>) are the other ends of such connections; two of them own the
  terminal (\<open>Screen\<close>).

  \<^bold>\<open>The theories, and the code they model.\<close>
  \<^item> \<open>Prelude\<close>, \<open>Rust_Text\<close>, \<open>Rust_Chars\<close>: what the code uses of Rust's standard library: results with panics
    (\<open>Ok\<close>, \<open>Err\<close>, \<open>Panic\<close>), durations and instants in nanoseconds, UTF-8, decimal numbers, ASCII case,
    characters, trimming. Strings are lists of bytes; a string that Rust knows to be UTF-8 is so by hypothesis
    or by a type invariant (\<open>command_wf\<close>, \<open>cli_wf\<close>).
  \<^item> \<open>Resp\<close>, \<open>Parser\<close>, \<open>Framing\<close>, \<open>Wire\<close>: \<open>rustkv-protocol\<close>. \<open>limits\<close> are the allocator's and the stack's limit,
    past which the parser panics. \<open>Framing\<close> is the interface (locales \<open>framing\<close>, \<open>codec\<close>), \<open>Wire\<close> discharges it:
    round trip, prefixes incomplete, more input changes nothing, nothing read beyond the frame.
  \<^item> \<open>Kv_Error\<close>, \<open>Command\<close>: \<open>rustkv-core/src/error.rs\<close> and \<open>command.rs\<close>, one definition per parser.
  \<^item> \<open>Hash_Map\<close>, \<open>Entry\<close>, \<open>Storage\<close>, \<open>Database\<close>, \<open>Sharded\<close>: \<open>entry.rs\<close>, \<open>storage.rs\<close>, \<open>db.rs\<close>. The trait
    \<open>StorageEngine\<close> is the locale \<open>storage_engine\<close>; both stores interpret it, and \<open>two_stores\<close> compares any two of
    its instances by what a reader sees (\<open>visible\<close>). An operation is one step, as it is under its shard's lock;
    its readings of the clocks are its argument (\<open>clock\<close>), the standard library's hash function is \<open>hasher\<close>.
  \<^item> \<open>Stats\<close>, \<open>Executor\<close>: \<open>stats.rs\<close>, \<open>executor.rs\<close>. Counters are 64-bit words and wrap. \<open>json\<close> is serde's
    serialiser, \<open>layout\<close> the sizes that the memory estimate uses.
  \<^item> \<open>File_System\<close>, \<open>Aof\<close>, \<open>Recovery\<close>: \<open>rustkv-server/src/aof.rs\<close> over a file system each of whose calls may be
    granted, fail (a write after some bytes), or be the one at which the process is killed. \<open>Recovery\<close>
    compares the store before a restart with the store after it.
  \<^item> \<open>Frame_Reader\<close>, \<open>Connection\<close>: \<open>connection.rs\<close>, over the reads that TCP will deliver. The locale
    \<open>frame_loop\<close> is the contract of a loop that reads until a frame is complete; the loops of the server, the
    one-shot client, the shell, the benchmark and the monitor interpret it.
  \<^item> \<open>Server\<close>, \<open>Interleaving\<close>, \<open>Lifecycle\<close>: \<open>server.rs\<close>, \<open>ttl.rs\<close>, \<open>rustkv-server/src/main.rs\<close>. A task's step is
    what it does between two awaits; \<open>handle_client\<close> is a task alone with the server, \<open>system_step\<close> any number of
    tasks, the TTL worker and the rewrite worker taking turns in any order, \<open>run_step\<close> the same with the accept loop,
    the shutdown flag and the end of \<open>run\<close>. \<open>Restart\<close> joins a life of the server, its crash and the next start.
  \<^item> \<open>Cli\<close>, \<open>Shell\<close>, \<open>Shell_Screen\<close>: \<open>rustkv-cli/src/main.rs\<close>, \<open>tui.rs\<close>; \<open>Bench\<close>, \<open>Bench_Report\<close>:
    \<open>rustkv-bench/src/main.rs\<close>; \<open>Monitor\<close>, \<open>Monitor_Screen\<close>: \<open>rustkv-monitor/src/app.rs\<close>, \<open>ui.rs\<close>, \<open>main.rs\<close>;
    \<open>End_To_End\<close>: the one-shot client against the server. \<open>Screen\<close> is what the two terminal programs use of crossterm
    and ratatui: a terminal whose calls may fail, widgets, and the areas they are drawn in.
  \<^item> \<open>Unit_Tests\<close>: the unit tests of the repository as truth values over the model, and the lemmas that they hold.

  \<^bold>\<open>What is shown.\<close>
  \<^item> Protocol: encoding and parsing are inverse; the parser's verdict on a buffer depends on nothing
    after it; how far it can be driven by a hostile peer.
  \<^item> Store: the sharded store answers every chronological sequence of calls as one database does; its key
    counter is the number of keys; the contracts of the operations; when \<open>SET\<close> panics.
  \<^item> Executor and server: a client alone with the server receives the replies of a reference interpreter on one
    database; no request is dropped or answered twice; the statistics account for every command.
  \<^item> Log: under any interleaving the log is the executed commands in execution order;
    a start replays it; a crash at any moment of any life, rewrites included, never invents an entry, and loses none
    when no expiry is changed after the last rewrite; a
    rewrite survives any one failing call; and where durability is weaker than it looks (torn and unsynced appends, a
    kill between two renames, extended deadlines).
  \<^item> Life of the server: a shutdown can always complete, and one that completes leaves no command half-way; what a
    failing \<open>accept\<close> does instead.
  \<^item> Clients: each shows the replies to its own requests, in order, whatever the chunks; every argument can
    be typed; the benchmark reports the requests it was asked for and its reads find its writes; the monitor's screen
    shows the server's figures, always the newest; the terminal is given back as it was found.

  \<^bold>\<open>Bounds and fuel.\<close> No definition uses fuel. The parser's recursion is bounded by \<open>max_depth\<close>, a parameter of
  every statement (at least the depth of the value that is read); loops over a socket recurse over the reads still
  to come, and \<open>None\<close> is a read that waits; loops over a buffer recurse over what is left of it. Lengths, offsets and
  Rust's \<open>usize\<close> are natural numbers; 64-bit values that can reach their bounds (integers of RESP, counters,
  Unix milliseconds) are words or bounded numbers with the wrap or saturation written out. The rounding of \<open>f64\<close> is a
  parameter, \<open>rnd\<close>.

  \<^bold>\<open>Not modelled.\<close> The answers of the operating system (binding and accepting sockets, Ctrl+C) and of clap, which are
  arguments; logging; ratatui's layout (an argument) and its drawing of a widget into cells; \<open>mod\<close> declarations; the
  integration tests, which drive a server process over sockets.
\<close>

end
